(* ===== verification/Prelude.thy ===== *)
theory Prelude
  imports Main "HOL-Library.Word" "HOL-Library.Monad_Syntax" "HOL-Library.AList"
begin

unbundle bit_operations_syntax

text \<open>
  Shared vocabulary of the development: the machine integers of the server at their
  width, byte buffers, the big-endian reads and writes every protocol handler uses, the
  XDR padding rule and the generic lemmas the component theories rely on.

  Conventions.  A Rust \<open>Vec<u8>\<close>, \<open>&[u8]\<close>, \<open>String\<close> or
  \<open>PathBuf\<close> is a list of bytes.  A \<open>usize\<close> is a \<open>nat\<close>: every
  \<open>usize\<close> of the code is a buffer offset or a 32-bit count read from the wire plus a
  bounded number of buffer offsets, far below \<open>2 ^ 64\<close>.  Reading outside a buffer is
  a panic in Rust; here it is \<open>None\<close>, so every function that can panic returns an
  \<open>option\<close> and a handler that never panics is proved to be different from
  \<open>None\<close>.
\<close>

section \<open>Types\<close>

type_synonym u8 = "8 word"
type_synonym u32 = "32 word"
type_synonym u64 = "64 word"
type_synonym bytes = "8 word list"

text \<open>\<open>std::net::IpAddr\<close>.\<close>

datatype ip_addr = IpV4 u32 | IpV6 "128 word"

text \<open>Facts that turn reads at checked offsets into values.\<close>

named_theorems rd_simps \<open>reads within bounds\<close>

text \<open>Facts on the length of encodings.\<close>

named_theorems len_simps \<open>lengths of wire encodings\<close>

text \<open>A string literal of the source as its bytes.\<close>

definition bs :: "string \<Rightarrow> bytes" where
  "bs s = map of_char s"

lemma length_bs [simp]: "length (bs s) = length s"
  by (simp add: bs_def)

section \<open>Big-endian encodings\<close>

definition be32 :: "u32 \<Rightarrow> bytes" where
  "be32 w = [ucast (drop_bit 24 w), ucast (drop_bit 16 w), ucast (drop_bit 8 w), ucast w]"

definition be64 :: "u64 \<Rightarrow> bytes" where
  "be64 w = [ucast (drop_bit 56 w), ucast (drop_bit 48 w), ucast (drop_bit 40 w),
             ucast (drop_bit 32 w), ucast (drop_bit 24 w), ucast (drop_bit 16 w),
             ucast (drop_bit 8 w), ucast w]"

text \<open>\<open>from_be_bytes\<close>: the first byte is the most significant one.\<close>

definition of_be :: "bytes \<Rightarrow> 'a::len word" where
  "of_be b = foldl (\<lambda>acc x. push_bit 8 acc OR ucast x) 0 b"

lemma length_be32 [simp, len_simps]: "length (be32 w) = 4"
  by (simp add: be32_def)

lemma length_be64 [simp, len_simps]: "length (be64 w) = 8"
  by (simp add: be64_def)

lemma be_step:
  fixes w :: "'a::len word"
  assumes "m = n + 8"
  shows "push_bit 8 (drop_bit m w) OR ucast (ucast (drop_bit n w) :: u8) = drop_bit n w"
proof (rule bit_word_eqI)
  fix k assume "k < LENGTH('a)"
  then show "bit (push_bit 8 (drop_bit m w) OR ucast (ucast (drop_bit n w) :: u8)) k
      = bit (drop_bit n w) k"
    using assms by (cases "k < 8") (auto simp: bit_simps)
qed

lemma of_be_be32 [simp]: "of_be (be32 w) = w"
proof -
  have z: "(0 :: u32) = drop_bit 32 w"
    by (rule bit_word_eqI) (simp add: bit_simps)
  show ?thesis
    unfolding of_be_def be32_def foldl.simps
    by (subst z, subst be_step [where n = 24], simp, subst be_step [where n = 16], simp,
        subst be_step [where n = 8], simp)
       (use be_step [of 8 0 w] in simp)
qed

lemma of_be_be64 [simp]: "of_be (be64 w) = w"
proof -
  have z: "(0 :: u64) = drop_bit 64 w"
    by (rule bit_word_eqI) (simp add: bit_simps)
  show ?thesis
    unfolding of_be_def be64_def foldl.simps
    by (subst z, subst be_step [where n = 56], simp, subst be_step [where n = 48], simp,
        subst be_step [where n = 40], simp, subst be_step [where n = 32], simp,
        subst be_step [where n = 24], simp, subst be_step [where n = 16], simp,
        subst be_step [where n = 8], simp)
       (use be_step [of 8 0 w] in simp)
qed

lemma be32_inject [simp]: "be32 v = be32 w \<longleftrightarrow> v = w"
  by (metis of_be_be32)

lemma be64_inject [simp]: "be64 v = be64 w \<longleftrightarrow> v = w"
  by (metis of_be_be64)

text \<open>Reading bytes as a word and writing the word back gives the bytes.\<close>

lemma bit_of_be:
  "n < LENGTH('a) \<Longrightarrow> bit (of_be b :: 'a::len word) n \<longleftrightarrow>
     n < 8 * length b \<and> bit (b ! (length b - 1 - n div 8)) (n mod 8)"
proof (induction b arbitrary: n rule: rev_induct)
  case Nil
  then show ?case by (simp add: of_be_def)
next
  case (snoc x b)
  have o: "(of_be (b @ [x]) :: 'a word) = push_bit 8 (of_be b) OR ucast x" by (simp add: of_be_def)
  show ?case
  proof (cases "n < 8")
    case True
    then show ?thesis using snoc.prems by (auto simp: o bit_simps nth_append)
  next
    case False
    then have "n div 8 = Suc ((n - 8) div 8)" "n mod 8 = (n - 8) mod 8"
      by (simp_all add: le_div_geq le_mod_geq)
    moreover have "\<not> bit x n" using False by (auto dest: bit_imp_le_length)
    moreover have "n < 8 + 8 * length b \<longleftrightarrow> n - 8 < 8 * length b" using False by arith
    ultimately show ?thesis
      using False snoc.prems snoc.IH [of "n - 8"] by (auto simp: o bit_simps nth_append)
  qed
qed

lemma byte_of_be:
  assumes "k < length b" and "8 * length b \<le> LENGTH('a)"
  shows "ucast (drop_bit (8 * k) (of_be b :: 'a::len word)) = b ! (length b - 1 - k)"
proof (rule bit_word_eqI)
  fix n assume n: "n < LENGTH(8)"
  then have "8 * k + n < LENGTH('a)" "8 * k + n < 8 * length b" using assms by simp_all
  then show "bit (ucast (drop_bit (8 * k) (of_be b :: 'a word)) :: u8) n = bit (b ! (length b - 1 - k)) n"
    using n by (simp add: bit_simps bit_of_be)
qed

lemma be32_of_be: "length b = 4 \<Longrightarrow> be32 (of_be b) = b"
  using byte_of_be [of 3 b, where 'a = 32] byte_of_be [of 2 b, where 'a = 32]
    byte_of_be [of 1 b, where 'a = 32] byte_of_be [of 0 b, where 'a = 32]
  by (auto simp: be32_def numeral_eq_Suc length_Suc_conv simp del: One_nat_def)

lemma be64_of_be: "length b = 8 \<Longrightarrow> be64 (of_be b) = b"
  using byte_of_be [of 7 b, where 'a = 64] byte_of_be [of 6 b, where 'a = 64]
    byte_of_be [of 5 b, where 'a = 64] byte_of_be [of 4 b, where 'a = 64]
    byte_of_be [of 3 b, where 'a = 64] byte_of_be [of 2 b, where 'a = 64]
    byte_of_be [of 1 b, where 'a = 64] byte_of_be [of 0 b, where 'a = 64]
  by (auto simp: be64_def numeral_eq_Suc length_Suc_conv simp del: One_nat_def)

section \<open>Reads from a buffer\<close>

text \<open>
  \<open>u32::from_be_bytes([b[p], b[p+1], b[p+2], b[p+3]])\<close>, its 64-bit form and the slice
  \<open>&b[i..j]\<close>: \<open>None\<close> is the panic of an index out of bounds.
\<close>

definition rd32 :: "bytes \<Rightarrow> nat \<Rightarrow> u32 option" where
  "rd32 b p = (if p + 4 \<le> length b then Some (of_be (take 4 (drop p b))) else None)"

definition rd64 :: "bytes \<Rightarrow> nat \<Rightarrow> u64 option" where
  "rd64 b p = (if p + 8 \<le> length b then Some (of_be (take 8 (drop p b))) else None)"

definition slice :: "bytes \<Rightarrow> nat \<Rightarrow> nat \<Rightarrow> bytes option" where
  "slice b i j = (if i \<le> j \<and> j \<le> length b then Some (take (j - i) (drop i b)) else None)"

text \<open>The value a read in bounds has.\<close>

definition u32_at :: "bytes \<Rightarrow> nat \<Rightarrow> u32" where
  "u32_at b p = of_be (take 4 (drop p b))"

definition u64_at :: "bytes \<Rightarrow> nat \<Rightarrow> u64" where
  "u64_at b p = of_be (take 8 (drop p b))"

lemma rd32_Some [rd_simps]: "p + 4 \<le> length b \<Longrightarrow> rd32 b p = Some (u32_at b p)"
  by (simp add: rd32_def u32_at_def)

lemma rd64_Some [rd_simps]: "p + 8 \<le> length b \<Longrightarrow> rd64 b p = Some (u64_at b p)"
  by (simp add: rd64_def u64_at_def)

lemma slice_Some [rd_simps]:
  "i \<le> j \<Longrightarrow> j \<le> length b \<Longrightarrow> slice b i j = Some (take (j - i) (drop i b))"
  by (simp add: slice_def)

lemma rd32_None_iff: "rd32 b p = None \<longleftrightarrow> length b < p + 4"
  by (auto simp: rd32_def)

lemma rd64_None_iff: "rd64 b p = None \<longleftrightarrow> length b < p + 8"
  by (auto simp: rd64_def)

lemma slice_None_iff: "slice b i j = None \<longleftrightarrow> j < i \<or> length b < j"
  by (auto simp: slice_def)

lemma slice_length: "slice b i j = Some x \<Longrightarrow> length x = j - i"
  by (auto simp: slice_def split: if_splits)

lemma u32_at_be32 [simp]: "u32_at (be32 w @ r) 0 = w"
  by (simp add: u32_at_def)

lemma u64_at_be64 [simp]: "u64_at (be64 w @ r) 0 = w"
  by (simp add: u64_at_def)

lemma u32_at_be32_only [simp]: "u32_at (be32 w) 0 = w"
  by (simp add: u32_at_def)

lemma u64_at_be64_only [simp]: "u64_at (be64 w) 0 = w"
  by (simp add: u64_at_def)

lemma u32_at_append: "length xs \<le> p \<Longrightarrow> u32_at (xs @ ys) p = u32_at ys (p - length xs)"
  by (simp add: u32_at_def)

lemma u64_at_append: "length xs \<le> p \<Longrightarrow> u64_at (xs @ ys) p = u64_at ys (p - length xs)"
  by (simp add: u64_at_def)

lemma u64_less_succ:
  fixes i :: u64
  assumes "i \<noteq> - 1"
  shows "i < i + 1" and "unat (i + 1) = unat i + 1"
proof -
  have "unat i \<noteq> 2 ^ 64 - 1"
  proof
    assume "unat i = 2 ^ 64 - 1"
    then have "unat i = unat (- 1 :: u64)"
      by (simp add: unsigned_minus_1_eq_mask mask_eq_exp_minus_1)
    with assms show False by (simp add: unsigned_word_eqI)
  qed
  moreover have "unat i < 2 ^ 64" using unsigned_less [of i] by simp
  ultimately have "unat i + 1 < 2 ^ 64" by arith
  then show u: "unat (i + 1) = unat i + 1" by (simp add: unat_word_ariths)
  then show "i < i + 1" by (simp add: word_less_nat_alt)
qed

section \<open>XDR padding\<close>

text \<open>
  \<open>(n + 3) & !3\<close>: \<open>n\<close> rounded up to a multiple of four.  The lemma
  \<open>pad4_word\<close> ties the formula to the bit operations on a 64-bit \<open>usize\<close>.
\<close>

definition pad4 :: "nat \<Rightarrow> nat" where
  "pad4 n = (n + 3) div 4 * 4"

lemma pad4_ge [simp]: "n \<le> pad4 n"
  by (simp add: pad4_def)

lemma pad4_not_less [simp]: "\<not> pad4 n < n"
  by (simp add: not_less)

lemma pad4_le: "pad4 n \<le> n + 3"
  by (simp add: pad4_def)

lemma pad4_dvd [simp]: "4 dvd pad4 n"
  by (simp add: pad4_def)

lemma pad4_id: "4 dvd n \<Longrightarrow> pad4 n = n"
  unfolding pad4_def by presburger

lemma pad4_0 [simp]: "pad4 0 = 0"
  by (simp add: pad4_def)

lemma pad4_word:
  fixes n :: u64
  assumes "unat n + 3 < 2 ^ 64"
  shows "unat ((n + 3) AND NOT 3) = pad4 (unat n)"
proof -
  have m: "NOT (3 :: u64) = NOT (mask 2)" by (simp add: mask_eq_exp_minus_1)
  have s: "unat (n + 3) = unat n + 3" using assms by (simp add: unat_word_ariths)
  have e: "Suc (Suc (k - 2)) = k" if "2 \<le> k" for k :: nat
    using that by arith
  have "(n + 3) AND NOT 3 = push_bit 2 (drop_bit 2 (n + 3))"
    unfolding m by (rule bit_word_eqI) (auto simp: bit_simps not_less e)
  then have "unat ((n + 3) AND NOT 3) = take_bit 64 (push_bit 2 (drop_bit 2 (unat n + 3)))"
    using take_bit_nat_eq_self [OF assms] by (simp add: unsigned_push_bit_eq unsigned_drop_bit_eq s)
  also have "\<dots> = (unat n + 3) div 4 * 4 mod 2 ^ 64"
    by (simp add: push_bit_eq_mult drop_bit_eq_div take_bit_eq_mod)
  also have "\<dots> = (unat n + 3) div 4 * 4"
    using assms by (intro mod_less) arith
  finally show ?thesis by (simp add: pad4_def)
qed

text \<open>An XDR \<open>opaque<>\<close>: length, bytes, zero padding to a multiple of four.\<close>

definition xdr_opaque :: "bytes \<Rightarrow> bytes" where
  "xdr_opaque b = be32 (of_nat (length b)) @ b @ replicate (pad4 (length b) - length b) 0"

lemma length_xdr_opaque [simp, len_simps]: "length (xdr_opaque b) = 4 + pad4 (length b)"
  by (simp add: xdr_opaque_def)

text \<open>
  A boolean as \<open>u32\<close>, the \<open>eof as u32\<close> of the source.
\<close>

definition u32_bool :: "bool \<Rightarrow> u32" where
  "u32_bool b = (if b then 1 else 0)"

lemma set_update_subset: "set (AList.update k v xs) \<subseteq> insert (k, v) (set xs)"
  by (induction xs) auto

lemma find_Some_in: "List.find P xs = Some c \<Longrightarrow> c \<in> set xs \<and> P c"
  by (induction xs) (auto split: if_splits)

end
