(* ===== verification/Limiter.thy ===== *)
theory Limiter
  imports Prelude
begin

text \<open>
  Connection admission of \<open>src/nfs/mod.rs\<close>: the per-address rate limiter
  \<open>ConnRateLimiter\<close> and the accept loop of \<open>start_unified_nfs\<close> with its global
  connection counter and the \<open>ConnGuard\<close> that decrements it.  An \<open>Instant\<close> is a
  number of nanoseconds; \<open>duration_since\<close> saturates at zero, as subtraction on
  \<open>nat\<close> does.
\<close>

section \<open>The rate limiter\<close>

record limiter =
  per_ip :: "(ip_addr \<times> (nat \<times> nat \<times> bool)) list"
  window :: nat
  max_per_ip :: nat

definition limiter_new :: "nat \<Rightarrow> nat \<Rightarrow> limiter" where
  "limiter_new max_ip window_secs =
     \<lparr>per_ip = [], window = window_secs * 10 ^ 9, max_per_ip = max_ip\<rparr>"

text \<open>
  \<open>check\<close>: \<open>entry(ip).or_insert((0, now, false))\<close>, the window test, the count.
  The result is the pair (allowed, first rejection of the window).
\<close>

definition limiter_check :: "limiter \<Rightarrow> nat \<Rightarrow> ip_addr \<Rightarrow> (bool \<times> bool) \<times> limiter" where
  "limiter_check l now ip =
     (case (case map_of (per_ip l) ip of Some e \<Rightarrow> e | None \<Rightarrow> (0, now, False)) of
        (count, start, warned) \<Rightarrow>
          if now - start > window l
          then ((True, False), l\<lparr>per_ip := AList.update ip (1, now, False) (per_ip l)\<rparr>)
          else if count + 1 \<le> max_per_ip l
          then ((True, False), l\<lparr>per_ip := AList.update ip (count + 1, start, warned) (per_ip l)\<rparr>)
          else ((False, \<not> warned), l\<lparr>per_ip := AList.update ip (count + 1, start, True) (per_ip l)\<rparr>))"

definition limiter_cleanup :: "limiter \<Rightarrow> nat \<Rightarrow> limiter" where
  "limiter_cleanup l now =
     l\<lparr>per_ip := filter (\<lambda>(_, count, start, _). now - start \<le> window l \<or> count > 0) (per_ip l)\<rparr>"

lemma limiter_check_frame:
  "window (snd (limiter_check l now ip)) = window l"
  "max_per_ip (snd (limiter_check l now ip)) = max_per_ip l"
  by (auto simp: limiter_check_def split: option.splits prod.splits)

lemma limiter_check_other:
  "ip' \<noteq> ip \<Longrightarrow> map_of (per_ip (snd (limiter_check l now ip))) ip' = map_of (per_ip l) ip'"
  by (auto simp: limiter_check_def update_conv split: option.splits prod.splits)

text \<open>A run of connection attempts, oldest first, with the decision of each.\<close>

fun limiter_run :: "limiter \<Rightarrow> (nat \<times> ip_addr) list \<Rightarrow> (ip_addr \<times> bool) list" where
  "limiter_run l [] = []"
| "limiter_run l ((now, ip) # rest) =
     (case limiter_check l now ip of (d, l') \<Rightarrow> (ip, fst d) # limiter_run l' rest)"

definition accepted :: "ip_addr \<Rightarrow> (ip_addr \<times> bool) list \<Rightarrow> nat" where
  "accepted ip ds = length (filter (\<lambda>d. d = (ip, True)) ds)"

definition attempts :: "ip_addr \<Rightarrow> (nat \<times> ip_addr) list \<Rightarrow> nat" where
  "attempts ip es = length (filter (\<lambda>e. snd e = ip) es)"

lemma limiter_check_in_window:
  assumes "map_of (per_ip l) ip = Some (c, t0, w)" and "now \<le> t0 + window l"
  shows "fst (fst (limiter_check l now ip)) \<longleftrightarrow> c < max_per_ip l"
    and "\<exists>w'. map_of (per_ip (snd (limiter_check l now ip))) ip = Some (c + 1, t0, w')"
  using assms by (auto simp: limiter_check_def update_conv)

lemma limiter_run_in_window:
  assumes "map_of (per_ip l) ip = Some (c, t0, w)"
    and "\<forall>e \<in> set es. snd e = ip \<longrightarrow> fst e \<le> t0 + window l"
  shows "accepted ip (limiter_run l es) = min (attempts ip es) (max_per_ip l - c)"
  using assms
proof (induction es arbitrary: l c w)
  case Nil
  then show ?case by (simp add: accepted_def attempts_def)
next
  case (Cons e es)
  obtain now ip' where e: "e = (now, ip')" by (cases e)
  let ?l = "snd (limiter_check l now ip')"
  have run: "limiter_run l (e # es)
      = (ip', fst (fst (limiter_check l now ip'))) # limiter_run ?l es"
    by (simp add: e split: prod.splits)
  have fr: "window ?l = window l" "max_per_ip ?l = max_per_ip l"
    by (simp_all add: limiter_check_frame)
  have tl: "\<forall>e \<in> set es. snd e = ip \<longrightarrow> fst e \<le> t0 + window ?l"
    using Cons.prems(2) fr by simp
  show ?case
  proof (cases "ip' = ip")
    case False
    then have "map_of (per_ip ?l) ip = Some (c, t0, w)"
      using Cons.prems(1) by (simp add: limiter_check_other)
    from Cons.IH [OF this tl] show ?thesis
      using False by (simp only: run) (simp add: accepted_def attempts_def e fr)
  next
    case True
    have w: "now \<le> t0 + window l" using Cons.prems(2) by (simp add: e True)
    obtain w' where m: "map_of (per_ip ?l) ip = Some (c + 1, t0, w')"
      using limiter_check_in_window(2) [OF Cons.prems(1) w] True by auto
    have d: "fst (fst (limiter_check l now ip')) \<longleftrightarrow> c < max_per_ip l"
      using limiter_check_in_window(1) [OF Cons.prems(1) w] True by simp
    from Cons.IH [OF m tl] show ?thesis
      using True d by (simp only: run) (auto simp: accepted_def attempts_def e limiter_check_frame)
  qed
qed

text \<open>
  In one window an address is admitted exactly for its first \<open>max_per_ip\<close> attempts,
  whatever the other addresses do in between: starting from its first connection, which
  opens the window at \<open>t0\<close>, the number of admitted attempts is the number of attempts
  capped at the limit.
\<close>

theorem rate_limit_per_window:
  assumes "map_of (per_ip l) ip = None"
    and "\<forall>e \<in> set es. snd e = ip \<longrightarrow> fst e \<le> t0 + window l"
  shows "accepted ip (limiter_run l ((t0, ip) # es)) = min (attempts ip es + 1) (max_per_ip l)"
proof -
  let ?l = "snd (limiter_check l t0 ip)"
  have f: "fst (fst (limiter_check l t0 ip)) \<longleftrightarrow> 0 < max_per_ip l"
    using assms(1) by (auto simp: limiter_check_def)
  have "\<exists>w. map_of (per_ip ?l) ip = Some (1, t0, w)"
    using assms(1) by (auto simp: limiter_check_def update_conv intro: exI [of _ True] exI [of _ False])
  then obtain w where m: "map_of (per_ip ?l) ip = Some (1, t0, w)" ..
  have "accepted ip (limiter_run ?l es) = min (attempts ip es) (max_per_ip ?l - 1)"
    using limiter_run_in_window [OF m] assms(2) by (simp add: limiter_check_frame)
  then show ?thesis
    using f by (auto simp: accepted_def limiter_check_frame split: prod.splits)
qed

theorem rate_limit_per_window_witness:
  "accepted (IpV4 1) (limiter_run (limiter_new 2 60)
     ((5, IpV4 1) # [(6, IpV4 2), (7, IpV4 1), (8, IpV4 1)])) = min (2 + 1) 2"
  using rate_limit_per_window [of "limiter_new 2 60" "IpV4 1" "[(6, IpV4 2), (7, IpV4 1), (8, IpV4 1)]" 5]
  by (simp add: limiter_new_def attempts_def)

section \<open>Cleanup never removes anything\<close>

text \<open>The states the limiter can be in: its operations, in any order.\<close>

inductive limiter_reachable :: "limiter \<Rightarrow> bool" where
  rl_new: "limiter_reachable (limiter_new m w)"
| rl_check: "limiter_reachable l \<Longrightarrow> limiter_reachable (snd (limiter_check l now ip))"
| rl_cleanup: "limiter_reachable l \<Longrightarrow> limiter_reachable (limiter_cleanup l now)"

lemma limiter_counts_positive:
  "limiter_reachable l \<Longrightarrow> (k, c, t, w) \<in> set (per_ip l) \<Longrightarrow> 0 < c"
proof (induction arbitrary: k c t w rule: limiter_reachable.induct)
  case (rl_new m w)
  then show ?case by (simp add: limiter_new_def)
next
  case (rl_check l now ip)
  have upd: "x \<in> set (AList.update a b xs) \<Longrightarrow> x = (a, b) \<or> x \<in> set xs" for x a b and xs :: "('a \<times> 'b) list"
    by (induction xs) (auto split: if_splits)
  from rl_check.prems rl_check.IH show ?case
    by (auto simp: limiter_check_def split: option.splits prod.splits if_splits dest!: upd)
next
  case (rl_cleanup l now)
  then show ?case by (auto simp: limiter_cleanup_def)
qed

text \<open>
  The periodic \<open>cleanup\<close>, whose comment says it removes stale entries to prevent
  unbounded growth, leaves every reachable limiter unchanged: each entry has a positive
  count, and a positive count is kept.
\<close>

theorem limiter_cleanup_keeps_all:
  assumes "limiter_reachable l"
  shows "limiter_cleanup l now = l"
proof -
  have "filter (\<lambda>(_, count, start, _). now - start \<le> window l \<or> count > 0) (per_ip l) = per_ip l"
    using limiter_counts_positive [OF assms] by (auto simp: filter_id_conv)
  then show ?thesis by (simp add: limiter_cleanup_def)
qed

theorem limiter_cleanup_keeps_all_witness:
  "limiter_cleanup (snd (limiter_check (limiter_new 2 60) 5 (IpV4 1))) (10 ^ 18)
     = snd (limiter_check (limiter_new 2 60) 5 (IpV4 1))
   \<and> per_ip (snd (limiter_check (limiter_new 2 60) 5 (IpV4 1))) = [(IpV4 1, 1, 5, False)]"
  using limiter_cleanup_keeps_all [OF limiter_reachable.rl_check
      [OF limiter_reachable.rl_new [of 2 60], of 5 "IpV4 1"], of "10 ^ 18"]
  by (simp add: limiter_check_def limiter_new_def)

section \<open>The accept loop\<close>

text \<open>
  The accept loop is one task; the spawned connection tasks drop their guards at any time in
  between.  \<open>Added c\<close> is the point after \<open>fetch_add\<close> returned \<open>c\<close>.
\<close>

datatype accept_pc = Accepting | Added nat

record listener =
  lim :: limiter
  conn_count :: nat
  pc :: accept_pc
  active :: nat

definition listener_init :: "nat \<Rightarrow> nat \<Rightarrow> listener" where
  "listener_init max_rate window_secs =
     \<lparr>lim = limiter_new max_rate window_secs, conn_count = 0, pc = Accepting, active = 0\<rparr>"

inductive listener_step :: "nat \<Rightarrow> listener \<Rightarrow> listener \<Rightarrow> bool" for max_connections where
  rate_rejected: "pc s = Accepting \<Longrightarrow> limiter_check (lim s) now ip = ((False, first), l')
     \<Longrightarrow> listener_step max_connections s (s\<lparr>lim := l'\<rparr>)"
| counted: "pc s = Accepting \<Longrightarrow> limiter_check (lim s) now ip = ((True, first), l')
     \<Longrightarrow> listener_step max_connections s
           (s\<lparr>lim := l', pc := Added (conn_count s), conn_count := conn_count s + 1\<rparr>)"
| limit_rejected: "pc s = Added current \<Longrightarrow> current \<ge> max_connections
     \<Longrightarrow> listener_step max_connections s (s\<lparr>pc := Accepting, conn_count := conn_count s - 1\<rparr>)"
| spawned: "pc s = Added current \<Longrightarrow> current < max_connections
     \<Longrightarrow> listener_step max_connections s (s\<lparr>pc := Accepting, active := active s + 1\<rparr>)"
| guard_dropped: "0 < active s
     \<Longrightarrow> listener_step max_connections s (s\<lparr>active := active s - 1, conn_count := conn_count s - 1\<rparr>)"

inductive_cases listener_stepE: "listener_step m s t"

definition listener_inv :: "nat \<Rightarrow> listener \<Rightarrow> bool" where
  "listener_inv m s \<longleftrightarrow> active s \<le> m \<and>
     (case pc s of Accepting \<Rightarrow> conn_count s = active s
      | Added c \<Rightarrow> conn_count s = active s + 1 \<and> active s \<le> c)"

inductive listener_reachable :: "nat \<Rightarrow> nat \<Rightarrow> nat \<Rightarrow> listener \<Rightarrow> bool" for m r w where
  lis_start: "listener_reachable m r w (listener_init r w)"
| lis_step: "listener_reachable m r w s \<Longrightarrow> listener_step m s t \<Longrightarrow> listener_reachable m r w t"

lemma listener_step_inv: "listener_step m s t \<Longrightarrow> listener_inv m s \<Longrightarrow> listener_inv m t"
  by (elim listener_stepE) (auto simp: listener_inv_def split: accept_pc.splits)

text \<open>
  C31: in every reachable state, under every interleaving of the accept loop with guards
  being dropped, at most \<open>max_connections\<close> connections are active, and between two
  accepts the atomic counter is exactly the number of active connections (so a decrement
  never underflows it).
\<close>

theorem connection_limit:
  assumes "listener_reachable m r w s"
  shows "active s \<le> m \<and> active s \<le> conn_count s \<and> (pc s = Accepting \<longrightarrow> conn_count s = active s)"
proof -
  from assms have "listener_inv m s"
  proof induction
    case lis_start
    show ?case by (simp add: listener_init_def listener_inv_def)
  next
    case (lis_step s t)
    then show ?case by (blast intro: listener_step_inv)
  qed
  then show ?thesis by (auto simp: listener_inv_def split: accept_pc.splits)
qed

theorem connection_limit_witness:
  "\<exists>s. listener_reachable 1 9 60 s \<and> active s = 1 \<and> active s \<le> 1 \<and> conn_count s = 1"
proof -
  let ?s0 = "listener_init 9 60"
  let ?c = "limiter_check (lim ?s0) 5 (IpV4 1)"
  let ?s1 = "?s0\<lparr>lim := snd ?c, pc := Added 0, conn_count := 1\<rparr>"
  let ?s2 = "?s1\<lparr>pc := Accepting, active := 1\<rparr>"
  have c: "?c = ((True, False), snd ?c)"
    by (simp add: limiter_check_def listener_init_def limiter_new_def)
  have "listener_step 1 ?s0 ?s1"
    using listener_step.counted [OF _ c, where max_connections = 1] by (simp add: listener_init_def)
  moreover have "listener_step 1 ?s1 ?s2"
    using listener_step.spawned [where s = ?s1 and current = 0 and max_connections = 1] by (simp add: listener_init_def)
  ultimately have r: "listener_reachable 1 9 60 ?s2"
    by (blast intro: lis_start lis_step)
  from connection_limit [OF r] have "active ?s2 \<le> 1" by simp
  with r show ?thesis by (intro exI [of _ ?s2]) simp
qed

end
