(* ===== verification/Paths.thy ===== *)
theory Paths
  imports Prelude
begin

text \<open>
  Windows paths: the part of \<open>std::path\<close> the server uses (prefix and component
  parsing, \<open>join\<close>, \<open>parent\<close>, \<open>file_name\<close>, \<open>starts_with\<close>, equality by
  components) and \<open>src/path_ext.rs\<close> on top of it.  A path is its text as bytes; strings
  that come from the wire are UTF-8, so the lossy conversions of the source are identities
  on them.  The model is the Windows build (\<open>cfg(windows)\<close>), the platform the service
  is written for.
\<close>

section \<open>Separators and prefixes\<close>

type_synonym path = bytes

abbreviation backslash :: u8 where "backslash \<equiv> 0x5C"
abbreviation slash :: u8 where "slash \<equiv> 0x2F"

definition is_sep :: "u8 \<Rightarrow> bool" where
  "is_sep b \<longleftrightarrow> b = backslash \<or> b = slash"

definition is_verbatim_sep :: "u8 \<Rightarrow> bool" where
  "is_verbatim_sep b \<longleftrightarrow> b = backslash"

definition is_letter :: "u8 \<Rightarrow> bool" where
  "is_letter b \<longleftrightarrow> (0x41 \<le> b \<and> b \<le> 0x5A) \<or> (0x61 \<le> b \<and> b \<le> 0x7A)"

definition ascii_upper :: "u8 \<Rightarrow> u8" where
  "ascii_upper b = (if 0x61 \<le> b \<and> b \<le> 0x7A then b - 0x20 else b)"

definition starts_bytes :: "bytes \<Rightarrow> bytes \<Rightarrow> bool" where
  "starts_bytes p b \<longleftrightarrow> take (length p) b = p"

text \<open>The verbatim and device prefixes, the double backslash and \<open>UNC\<close> with its separator.\<close>

definition verbatim_start :: bytes where "verbatim_start = [0x5C, 0x5C, 0x3F, 0x5C]"
definition device_start :: bytes where "device_start = [0x5C, 0x5C, 0x2E, 0x5C]"
definition double_backslash :: bytes where "double_backslash = [0x5C, 0x5C]"
definition unc_start :: bytes where "unc_start = [0x55, 0x4E, 0x43, 0x5C]"

datatype prefix =
    Verbatim bytes
  | VerbatimUNC bytes bytes
  | VerbatimDisk u8
  | DeviceNS bytes
  | UNC bytes bytes
  | Disk u8

text \<open>The text up to the next separator, and its length with the separator.\<close>

definition next_part :: "(u8 \<Rightarrow> bool) \<Rightarrow> bytes \<Rightarrow> bytes \<times> bytes" where
  "next_part sep b = (takeWhile (\<lambda>c. \<not> sep c) b, drop 1 (dropWhile (\<lambda>c. \<not> sep c) b))"

definition norm8 :: "bytes \<Rightarrow> bytes" where
  "norm8 b = map (\<lambda>c. if c = slash then backslash else c) (take 8 b) @ drop 8 b"

text \<open>\<open>parse_prefix\<close>: the prefix and the number of bytes it takes.\<close>

definition unc_prefix :: "(bytes \<Rightarrow> bytes \<Rightarrow> prefix) \<Rightarrow> nat \<Rightarrow> (u8 \<Rightarrow> bool) \<Rightarrow> bytes \<Rightarrow> prefix \<times> nat" where
  "unc_prefix mk n sep b =
     (let (server, r) = next_part sep b; (share, _) = next_part sep r
      in (mk server share,
          n + length server + (if share = [] then 0 else 1 + length share)))"

definition parse_prefix :: "path \<Rightarrow> (prefix \<times> nat) option" where
  "parse_prefix p =
     (let q = norm8 p in
      if starts_bytes verbatim_start q \<and> slash \<notin> set (take 8 p) then
        (if starts_bytes unc_start (drop 4 q)
         then Some (unc_prefix VerbatimUNC 8 is_verbatim_sep (drop 8 p))
         else let r = drop 4 p in
           if length r \<ge> 2 \<and> is_letter (r ! 0) \<and> r ! 1 = 0x3A
              \<and> (length r = 2 \<or> r ! 2 = backslash)
           then Some (VerbatimDisk (ascii_upper (r ! 0)), 6)
           else let (x, _) = next_part is_verbatim_sep r in Some (Verbatim x, 4 + length x))
      else if starts_bytes device_start q then
        (let (x, _) = next_part is_sep (drop 4 p) in Some (DeviceNS x, 4 + length x))
      else if starts_bytes double_backslash q then
        (let (server, r) = next_part is_sep (drop 2 p); (share, _) = next_part is_sep r
         in if server \<noteq> [] \<and> share \<noteq> [] then Some (unc_prefix UNC 2 is_sep (drop 2 p)) else None)
      else if length p \<ge> 2 \<and> is_letter (p ! 0) \<and> p ! 1 = 0x3A
      then Some (Disk (ascii_upper (p ! 0)), 2)
      else None)"

definition is_verbatim :: "prefix option \<Rightarrow> bool" where
  "is_verbatim pre \<longleftrightarrow> (case pre of
       Some (Verbatim _) \<Rightarrow> True | Some (VerbatimUNC _ _) \<Rightarrow> True | Some (VerbatimDisk _) \<Rightarrow> True
     | _ \<Rightarrow> False)"

definition path_prefix :: "path \<Rightarrow> prefix option" where
  "path_prefix p = map_option fst (parse_prefix p)"

definition prefix_len :: "path \<Rightarrow> nat" where
  "prefix_len p = (case parse_prefix p of None \<Rightarrow> 0 | Some (_, n) \<Rightarrow> n)"

definition path_sep :: "path \<Rightarrow> u8 \<Rightarrow> bool" where
  "path_sep p = (if is_verbatim (path_prefix p) then is_verbatim_sep else is_sep)"

definition physical_root :: "path \<Rightarrow> bool" where
  "physical_root p \<longleftrightarrow> (case drop (prefix_len p) p of [] \<Rightarrow> False | c # _ \<Rightarrow> path_sep p c)"

definition has_root :: "path \<Rightarrow> bool" where
  "has_root p \<longleftrightarrow> physical_root p \<or> (case path_prefix p of None \<Rightarrow> False | Some (Disk _) \<Rightarrow> False | Some _ \<Rightarrow> True)"

definition is_absolute :: "path \<Rightarrow> bool" where
  "is_absolute p \<longleftrightarrow> has_root p \<and> path_prefix p \<noteq> None"

section \<open>Components\<close>

fun pieces :: "(u8 \<Rightarrow> bool) \<Rightarrow> bytes \<Rightarrow> bytes \<Rightarrow> bytes list" where
  "pieces sep acc [] = [rev acc]"
| "pieces sep acc (c # r) = (if sep c then rev acc # pieces sep [] r else pieces sep (c # acc) r)"

datatype component = RootDir | CurDir | ParentDir | Normal bytes

definition body_start :: "path \<Rightarrow> nat" where
  "body_start p = prefix_len p + (if physical_root p then 1 else 0)"

text \<open>
  The pieces of the body with the offset where each ends in the path, without those
  \<open>Components\<close> skips: empty ones, and \<open>.\<close> unless the path is verbatim or the piece is
  first in a path without prefix and root.
\<close>

fun with_ends :: "nat \<Rightarrow> bytes list \<Rightarrow> (bytes \<times> nat) list" where
  "with_ends n [] = []"
| "with_ends n (x # xs) = (x, n + length x) # with_ends (n + length x + 1) xs"

definition body_pieces :: "path \<Rightarrow> (bytes \<times> nat) list" where
  "body_pieces p =
     (let ps = with_ends (body_start p) (pieces (path_sep p) [] (drop (body_start p) p))
      in filter (\<lambda>(x, n). x \<noteq> [] \<and>
           (x = [0x2E] \<longrightarrow> is_verbatim (path_prefix p)
              \<or> (path_prefix p = None \<and> \<not> has_root p \<and> n = 1))) ps)"

definition comp_of :: "bytes \<Rightarrow> component" where
  "comp_of x = (if x = [0x2E] then CurDir else if x = [0x2E, 0x2E] then ParentDir else Normal x)"

definition components :: "path \<Rightarrow> component list" where
  "components p = (if has_root p then [RootDir] else []) @ map (\<lambda>(x, _). comp_of x) (body_pieces p)"

text \<open>What \<open>Eq\<close> and \<open>Hash\<close> of \<open>Path\<close> look at.\<close>

type_synonym path_key = "prefix option \<times> component list"

definition path_key :: "path \<Rightarrow> path_key" where
  "path_key p = (path_prefix p, components p)"

definition path_starts_with :: "path \<Rightarrow> path \<Rightarrow> bool" where
  "path_starts_with p q \<longleftrightarrow> path_prefix p = path_prefix q
     \<and> take (length (components q)) (components p) = components q"

definition path_parent :: "path \<Rightarrow> path option" where
  "path_parent p =
     (case rev (body_pieces p) of
        [] \<Rightarrow> None
      | [_] \<Rightarrow> Some (take (body_start p) p)
      | _ # (_, e) # _ \<Rightarrow> Some (take e p))"

definition path_file_name :: "path \<Rightarrow> bytes option" where
  "path_file_name p =
     (case rev (body_pieces p) of
        [] \<Rightarrow> None
      | (x, _) # _ \<Rightarrow> (case comp_of x of Normal n \<Rightarrow> Some n | _ \<Rightarrow> None))"

section \<open>Joining\<close>

definition last_is_sep :: "path \<Rightarrow> bool" where
  "last_is_sep p \<longleftrightarrow> p \<noteq> [] \<and> is_sep (last p)"

definition is_drive :: "prefix option \<Rightarrow> bool" where
  "is_drive pre \<longleftrightarrow> (case pre of Some (Disk _) \<Rightarrow> True | _ \<Rightarrow> False)"

text \<open>The component list \<open>push\<close> rebuilds for a verbatim path, on the texts of the pieces.\<close>

definition push_comp :: "bytes list \<Rightarrow> bytes \<Rightarrow> bytes list" where
  "push_comp buf x =
     (case comp_of x of
        CurDir \<Rightarrow> buf
      | ParentDir \<Rightarrow>
          (case rev buf of
             [] \<Rightarrow> buf
           | y # _ \<Rightarrow> (case comp_of y of Normal _ \<Rightarrow> butlast buf | _ \<Rightarrow> buf))
      | _ \<Rightarrow> buf @ [x])"

definition render_verbatim :: "path \<Rightarrow> bool \<Rightarrow> bytes list \<Rightarrow> path" where
  "render_verbatim p rooted xs =
     take (prefix_len p) p @ (if rooted then [backslash] else [])
       @ concat (map (\<lambda>(i, x). (if i = 0 then [] else [backslash]) @ x) (zip [0..<length xs] xs))"

text \<open>\<open>Path::join\<close>: \<open>PathBuf::push\<close> on a copy.\<close>

definition path_join :: "path \<Rightarrow> path \<Rightarrow> path" where
  "path_join p q =
     (if is_absolute q \<or> path_prefix q \<noteq> None then q
      else if is_verbatim (path_prefix p) \<and> q \<noteq> [] then
        (let buf = (if has_root q then [] else map fst (body_pieces p))
         in render_verbatim p (has_root p \<or> has_root q)
              (foldl push_comp buf (map fst (body_pieces q))))
      else if has_root q then take (prefix_len p) p @ q
      else if p \<noteq> [] \<and> \<not> last_is_sep p
              \<and> \<not> (prefix_len p > 0 \<and> prefix_len p = length p \<and> is_drive (path_prefix p))
      then p @ [backslash] @ q
      else p @ q)"

section \<open>Extended-length paths\<close>

definition replace_slash :: "bytes \<Rightarrow> bytes" where
  "replace_slash b = map (\<lambda>c. if c = slash then backslash else c) b"

text \<open>\<open>to_extended_path\<close>; \<open>cwd\<close> is \<open>None\<close> when the current directory is unavailable.\<close>

definition to_extended_path :: "path option \<Rightarrow> path \<Rightarrow> path" where
  "to_extended_path cwd path =
     (if starts_bytes verbatim_start path \<or> starts_bytes device_start path then path
      else
        (case (if is_absolute path then Some path
               else (case cwd of Some d \<Rightarrow> Some (path_join d path) | None \<Rightarrow> None)) of
           None \<Rightarrow> path
         | Some abs_str \<Rightarrow>
             (let normalised = replace_slash abs_str in
              if starts_bytes double_backslash normalised
              then verbatim_start @ unc_start @ drop 2 normalised
              else verbatim_start @ normalised)))"

definition extend_path :: "path option \<Rightarrow> path \<Rightarrow> path" where
  "extend_path cwd path = to_extended_path cwd path"

definition strip_extended_prefix :: "path \<Rightarrow> path" where
  "strip_extended_prefix s =
     (if starts_bytes (verbatim_start @ unc_start) s then double_backslash @ drop 8 s
      else if starts_bytes verbatim_start s then drop 4 s
      else s)"

lemmas path_text_defs = verbatim_start_def device_start_def double_backslash_def unc_start_def

lemma starts_bytes_append [simp]: "starts_bytes p (p @ x)"
  by (simp add: starts_bytes_def)

lemma starts_bytes_append2 [simp]: "starts_bytes (p @ q) (p @ x) \<longleftrightarrow> starts_bytes q x"
  by (simp add: starts_bytes_def)

lemma starts_texts:
  "starts_bytes double_backslash b \<longleftrightarrow> take 2 b = double_backslash"
  "starts_bytes verbatim_start b \<longleftrightarrow> take 4 b = verbatim_start"
  "starts_bytes device_start b \<longleftrightarrow> take 4 b = device_start"
  "starts_bytes unc_start b \<longleftrightarrow> take 4 b = unc_start"
proof -
  have n: "(2::nat) = Suc (Suc 0)" "(4::nat) = Suc (Suc (Suc (Suc 0)))" by simp_all
  show "starts_bytes double_backslash b \<longleftrightarrow> take 2 b = double_backslash"
    "starts_bytes verbatim_start b \<longleftrightarrow> take 4 b = verbatim_start"
    "starts_bytes device_start b \<longleftrightarrow> take 4 b = device_start"
    "starts_bytes unc_start b \<longleftrightarrow> take 4 b = unc_start"
    unfolding starts_bytes_def path_text_defs n by simp_all
qed

lemma starts_double_norm8: "starts_bytes double_backslash (norm8 p) = starts_bytes double_backslash (replace_slash p)"
proof -
  have "take 2 (norm8 p) = take 2 (replace_slash p)"
    by (cases "length p \<le> 8") (simp_all add: norm8_def replace_slash_def take_map)
  then show ?thesis by (simp add: starts_texts)
qed

lemma longer_starts_double:
  assumes "starts_bytes verbatim_start p \<or> starts_bytes device_start p"
  shows "starts_bytes double_backslash p"
proof -
  have "take 2 p = take 2 (take 4 p)" by simp
  also have "\<dots> = double_backslash"
    using assms unfolding starts_texts by (elim disjE) (simp_all add: path_text_defs del: take_take)
  finally show ?thesis by (simp add: starts_texts)
qed

text \<open>An absolute path that does not start with two separators has a drive letter.\<close>

lemma absolute_drive:
  assumes "is_absolute p" and "\<not> starts_bytes double_backslash (replace_slash p)"
  shows "length p \<ge> 2 \<and> p ! 1 = 0x3A"
proof (rule ccontr)
  assume n: "\<not> ?thesis"
  have "\<not> starts_bytes double_backslash (norm8 p)" using assms(2) by (simp add: starts_double_norm8)
  moreover from this have "\<not> starts_bytes verbatim_start (norm8 p)" "\<not> starts_bytes device_start (norm8 p)"
    using longer_starts_double by blast+
  ultimately have "parse_prefix p = None" using n by (auto simp: parse_prefix_def Let_def)
  then show False using assms(1) by (simp add: is_absolute_def path_prefix_def)
qed

text \<open>
  For an absolute path that is not extended yet, adding the extended-length prefix and
  stripping it again gives the path with its separators normalised (so no bytes of a
  name are lost, UNC shares and drives included), and a second extension changes nothing.
\<close>

theorem extended_path_roundtrip:
  assumes "is_absolute p" and "\<not> starts_bytes verbatim_start p" and "\<not> starts_bytes device_start p"
  shows "strip_extended_prefix (to_extended_path cwd p) = replace_slash p
    \<and> to_extended_path cwd' (to_extended_path cwd p) = to_extended_path cwd p"
proof (cases "starts_bytes double_backslash (replace_slash p)")
  case True
  then have e: "to_extended_path cwd p = verbatim_start @ unc_start @ drop 2 (replace_slash p)"
    using assms by (simp add: to_extended_path_def)
  have "double_backslash @ drop 2 (replace_slash p) = replace_slash p"
  proof -
    have "take 2 (replace_slash p) = double_backslash"
      using True by (simp add: starts_texts)
    then show ?thesis by (metis append_take_drop_id)
  qed
  then show ?thesis
    unfolding e by (simp add: strip_extended_prefix_def to_extended_path_def starts_bytes_def path_text_defs)
next
  case False
  then have e: "to_extended_path cwd p = verbatim_start @ replace_slash p"
    using assms by (simp add: to_extended_path_def)
  have "length p \<ge> 2 \<and> replace_slash p ! 1 = 0x3A"
    using absolute_drive [OF assms(1) False] by (auto simp: replace_slash_def)
  then have "take 4 (replace_slash p) ! 1 \<noteq> unc_start ! 1"
    by (simp add: unc_start_def)
  then have "take 4 (replace_slash p) \<noteq> unc_start" by metis
  moreover have "length verbatim_start = 4" by (simp add: verbatim_start_def)
  ultimately show ?thesis
    unfolding e by (simp add: strip_extended_prefix_def to_extended_path_def starts_texts(4))
qed

theorem extended_path_roundtrip_witness:
  "strip_extended_prefix (to_extended_path None (bs ''C:/data'')) = replace_slash (bs ''C:/data'')
   \<and> to_extended_path None (bs ''C:/data'') = verbatim_start @ replace_slash (bs ''C:/data'')"
proof -
  have a: "is_absolute (bs ''C:/data'')" "\<not> starts_bytes verbatim_start (bs ''C:/data'')"
    "\<not> starts_bytes device_start (bs ''C:/data'')"
    "to_extended_path None (bs ''C:/data'') = verbatim_start @ replace_slash (bs ''C:/data'')"
    by code_simp+
  show ?thesis using extended_path_roundtrip [OF a(1-3), of None None] a(4) by simp
qed

end
