(* ===== verification/Filesystem.thy ===== *)
theory Filesystem
  imports Paths
begin

text \<open>
  The part of \<open>std::fs\<close> the server calls, on a concrete file system: locations (a volume
  and a list of names) name inodes, so that hard links share their data; inodes are files,
  directories or symbolic links.  Path resolution follows links, with the reparse limit of
  Windows.  What the operating system decides on its own is data of the state: which
  accesses it refuses (\<open>deny\<close>), how it folds the case of names (\<open>fold_name\<close>), the largest
  file (\<open>max_file\<close>) and the current directory.

  Not modelled: alternate data streams (a colon in a name is an invalid name), drive-relative
  paths such as \<open>C:x\<close> (they do not resolve), the length limit of paths without extended
  prefix, and updates of access times by reads.
\<close>

section \<open>State\<close>

type_synonym loc = "bytes \<times> bytes list"

datatype node = File bytes | Dir | Link path

text \<open>Times are nanoseconds since the Unix epoch; a \<open>SystemTime\<close> may lie before it.\<close>

record inode =
  node :: node
  created :: int
  modified :: int
  accessed :: int

datatype access = A_stat | A_read | A_write | A_create | A_delete | A_list | A_times

record fs =
  entries :: "(loc \<times> nat) list"
  inodes :: "nat \<Rightarrow> inode option"
  next_ino :: nat
  cwd :: "path option"
  fold_name :: "bytes \<Rightarrow> bytes"
  max_file :: nat
  deny :: "access \<Rightarrow> loc \<Rightarrow> bool"

datatype io_error = NotFound | AlreadyExists | OtherError

text \<open>The clocks and the process id a call can read.\<close>

record env =
  now :: nat
  wall :: nat
  pid :: u32

definition wall_nanos :: "env \<Rightarrow> u64" where
  "wall_nanos e = of_nat (wall e)"

section \<open>Locations\<close>

definition reserved_char :: "u8 \<Rightarrow> bool" where
  "reserved_char c \<longleftrightarrow> c < 0x20 \<or> c \<in> {0x22, 0x2A, 0x2F, 0x3A, 0x3C, 0x3E, 0x3F, 0x5C, 0x7C}"

definition valid_name :: "bytes \<Rightarrow> bool" where
  "valid_name x \<longleftrightarrow> x \<noteq> [] \<and> x \<noteq> [0x2E] \<and> x \<noteq> [0x2E, 0x2E] \<and> list_all (\<lambda>c. \<not> reserved_char c) x"

definition volume_of :: "prefix \<Rightarrow> bytes" where
  "volume_of pre =
     (case pre of
        Disk d \<Rightarrow> [d, 0x3A]
      | VerbatimDisk d \<Rightarrow> [d, 0x3A]
      | UNC s h \<Rightarrow> unc_start @ s @ [backslash] @ h
      | VerbatimUNC s h \<Rightarrow> unc_start @ s @ [backslash] @ h
      | Verbatim x \<Rightarrow> x
      | DeviceNS x \<Rightarrow> x)"

definition strip_trailing :: "bytes \<Rightarrow> bytes" where
  "strip_trailing x = rev (dropWhile (\<lambda>c. c = 0x2E \<or> c = 0x20) (rev x))"

definition norm_names :: "bytes list \<Rightarrow> bytes list" where
  "norm_names xs = foldl (\<lambda>acc x. case comp_of x of
       CurDir \<Rightarrow> acc | ParentDir \<Rightarrow> butlast acc | _ \<Rightarrow> acc @ [strip_trailing x]) [] xs"

text \<open>
  The location a path text names, before links are followed: a verbatim path is taken
  literally, any other absolute path is normalised as \<open>GetFullPathName\<close> does.
\<close>

definition locate_abs :: "path \<Rightarrow> loc option" where
  "locate_abs p =
     (case path_prefix p of
        None \<Rightarrow> None
      | Some pre \<Rightarrow>
          if \<not> has_root p then None
          else
            (let ps = pieces (path_sep p) [] (drop (body_start p) p);
                 names = (if is_verbatim (Some pre)
                          then (if last ps = [] then butlast ps else ps)
                          else norm_names (filter (\<lambda>x. x \<noteq> []) ps))
             in if list_all valid_name names then Some (volume_of pre, names) else None))"

definition locate :: "fs \<Rightarrow> path \<Rightarrow> loc option" where
  "locate s p =
     (if is_absolute p then locate_abs p
      else (case cwd s of
          None \<Rightarrow> None
        | Some d \<Rightarrow> if path_prefix p \<noteq> None then None else locate_abs (path_join d p)))"

definition loc_key :: "fs \<Rightarrow> loc \<Rightarrow> loc" where
  "loc_key s l = (fst l, map (fold_name s) (snd l))"

definition find_entry :: "fs \<Rightarrow> loc \<Rightarrow> (loc \<times> nat) option" where
  "find_entry s l = find (\<lambda>(k, _). loc_key s k = loc_key s l) (entries s)"

definition node_at :: "fs \<Rightarrow> nat \<Rightarrow> node option" where
  "node_at s i = map_option node (inodes s i)"

text \<open>The text of a location, as \<open>canonicalize\<close> returns it.\<close>

definition loc_text :: "loc \<Rightarrow> path" where
  "loc_text l = verbatim_start @ fst l @
     (if snd l = [] then [backslash] else concat (map (\<lambda>n. backslash # n) (snd l)))"

definition link_target :: "loc \<Rightarrow> path \<Rightarrow> loc option" where
  "link_target dir t = (if is_absolute t then locate_abs t else locate_abs (path_join (loc_text dir) t))"

text \<open>
  Resolution of the names \<open>todo\<close> below the directory \<open>cur\<close>; the last name need not exist.
  \<open>n\<close> is the number of links that may still be followed.
\<close>

function resolve :: "nat \<Rightarrow> fs \<Rightarrow> bool \<Rightarrow> loc \<Rightarrow> bytes list \<Rightarrow> loc option" where
  "resolve n s follow cur [] = Some cur"
| "resolve n s follow cur (x # xs) =
     (case find_entry s (fst cur, snd cur @ [x]) of
        None \<Rightarrow> if xs = [] then Some (fst cur, snd cur @ [x]) else None
      | Some (l, i) \<Rightarrow>
          (case node_at s i of
             Some Dir \<Rightarrow> resolve n s follow l xs
           | Some (File _) \<Rightarrow> if xs = [] then Some l else None
           | Some (Link t) \<Rightarrow>
               if xs = [] \<and> \<not> follow then Some l
               else if n = 0 then None
               else (case link_target cur t of
                   None \<Rightarrow> None
                 | Some (v, ns) \<Rightarrow> resolve (n - 1) s follow (v, []) (ns @ xs))
           | None \<Rightarrow> None))"
  by pat_completeness auto
termination
  by (relation "inv_image (less_than <*lex*> measure length) (\<lambda>(n, s, f, c, t). (n, t))") auto

declare resolve.simps [simp del]

definition reparse_limit :: nat where "reparse_limit = 63"

definition target_of :: "fs \<Rightarrow> bool \<Rightarrow> path \<Rightarrow> loc option" where
  "target_of s follow p =
     (case locate s p of None \<Rightarrow> None | Some (v, ns) \<Rightarrow> resolve reparse_limit s follow (v, []) ns)"

definition lookup_path :: "fs \<Rightarrow> bool \<Rightarrow> path \<Rightarrow> (loc \<times> nat) option" where
  "lookup_path s follow p =
     (case target_of s follow p of None \<Rightarrow> None | Some l \<Rightarrow> find_entry s l)"

section \<open>Queries\<close>

definition metadata :: "fs \<Rightarrow> path \<Rightarrow> inode option" where
  "metadata s p =
     (case lookup_path s True p of
        None \<Rightarrow> None
      | Some (l, i) \<Rightarrow> if deny s A_stat l then None else inodes s i)"

definition path_exists :: "fs \<Rightarrow> path \<Rightarrow> bool" where
  "path_exists s p \<longleftrightarrow> metadata s p \<noteq> None"

definition md_is_dir :: "inode \<Rightarrow> bool" where
  "md_is_dir m \<longleftrightarrow> node m = Dir"

definition md_len :: "inode \<Rightarrow> nat" where
  "md_len m = (case node m of File d \<Rightarrow> length d | _ \<Rightarrow> 0)"

definition path_is_dir :: "fs \<Rightarrow> path \<Rightarrow> bool" where
  "path_is_dir s p \<longleftrightarrow> (case metadata s p of None \<Rightarrow> False | Some m \<Rightarrow> md_is_dir m)"

definition path_is_symlink :: "fs \<Rightarrow> path \<Rightarrow> bool" where
  "path_is_symlink s p \<longleftrightarrow>
     (case lookup_path s False p of
        None \<Rightarrow> False
      | Some (l, i) \<Rightarrow> \<not> deny s A_stat l \<and> (case node_at s i of Some (Link _) \<Rightarrow> True | _ \<Rightarrow> False))"

definition canonicalize :: "fs \<Rightarrow> path \<Rightarrow> path option" where
  "canonicalize s p =
     (case lookup_path s True p of
        None \<Rightarrow> None
      | Some (l, i) \<Rightarrow> if deny s A_stat l \<or> inodes s i = None then None else Some (loc_text l))"

text \<open>\<open>duration_since(UNIX_EPOCH)\<close>, and its parts.\<close>

definition since_epoch :: "int \<Rightarrow> nat option" where
  "since_epoch t = (if t < 0 then None else Some (nat t))"

definition as_secs :: "nat \<Rightarrow> u64" where
  "as_secs d = of_nat (d div 10 ^ 9)"

definition subsec_nanos :: "nat \<Rightarrow> u32" where
  "subsec_nanos d = of_nat (d mod 10 ^ 9)"

definition fs_read :: "fs \<Rightarrow> path \<Rightarrow> io_error + bytes" where
  "fs_read s p =
     (case lookup_path s True p of
        None \<Rightarrow> Inl NotFound
      | Some (l, i) \<Rightarrow>
          (case node_at s i of
             Some (File d) \<Rightarrow> if deny s A_read l then Inl OtherError else Inr d
           | _ \<Rightarrow> Inl OtherError))"

definition child_of :: "fs \<Rightarrow> loc \<Rightarrow> loc \<Rightarrow> bool" where
  "child_of s d l \<longleftrightarrow> snd l \<noteq> [] \<and> loc_key s (fst l, butlast (snd l)) = loc_key s d"

text \<open>\<open>read_dir\<close>: the names with the \<open>path()\<close> of each entry.\<close>

definition fs_read_dir :: "fs \<Rightarrow> path \<Rightarrow> io_error + (bytes \<times> path) list" where
  "fs_read_dir s p =
     (case lookup_path s True p of
        None \<Rightarrow> Inl NotFound
      | Some (l, i) \<Rightarrow>
          if node_at s i \<noteq> Some Dir \<or> deny s A_list l then Inl OtherError
          else Inr (map (\<lambda>(k, _). (last (snd k), path_join p (last (snd k))))
                 (filter (\<lambda>(k, _). child_of s l k) (entries s))))"

section \<open>Changes\<close>

definition put_node :: "nat \<Rightarrow> node \<Rightarrow> int \<Rightarrow> fs \<Rightarrow> fs" where
  "put_node i nd t s =
     (case inodes s i of
        None \<Rightarrow> s
      | Some m \<Rightarrow> s\<lparr>inodes := (inodes s)(i \<mapsto> m\<lparr>node := nd, modified := t\<rparr>)\<rparr>)"

definition parent_ok :: "fs \<Rightarrow> loc \<Rightarrow> bool" where
  "parent_ok s l \<longleftrightarrow> snd l \<noteq> [] \<and>
     (case find_entry s (fst l, butlast (snd l)) of
        None \<Rightarrow> False
      | Some (_, i) \<Rightarrow> node_at s i = Some Dir)"

definition new_node :: "env \<Rightarrow> loc \<Rightarrow> node \<Rightarrow> fs \<Rightarrow> nat \<times> fs" where
  "new_node e l nd s =
     (next_ino s,
      s\<lparr>entries := entries s @ [(l, next_ino s)],
        inodes := (inodes s)(next_ino s \<mapsto>
          \<lparr>node = nd, created = int (wall e), modified = int (wall e), accessed = int (wall e)\<rparr>),
        next_ino := next_ino s + 1\<rparr>)"

text \<open>
  \<open>OpenOptions::open\<close> for an existing file with the given access, and with
  \<open>create(true)\<close>.  The result is the inode of the handle.
\<close>

definition fs_open :: "access \<Rightarrow> fs \<Rightarrow> path \<Rightarrow> io_error + nat" where
  "fs_open a s p =
     (case lookup_path s True p of
        None \<Rightarrow> Inl NotFound
      | Some (l, i) \<Rightarrow>
          (case node_at s i of
             Some (File _) \<Rightarrow> if deny s a l then Inl OtherError else Inr i
           | _ \<Rightarrow> Inl OtherError))"

definition fs_open_create :: "env \<Rightarrow> fs \<Rightarrow> path \<Rightarrow> io_error + nat \<times> fs" where
  "fs_open_create e s p =
     (case target_of s True p of
        None \<Rightarrow> Inl NotFound
      | Some l \<Rightarrow>
          (case find_entry s l of
             Some (k, i) \<Rightarrow>
               (case node_at s i of
                  Some (File _) \<Rightarrow> if deny s A_write k then Inl OtherError else Inr (i, s)
                | _ \<Rightarrow> Inl OtherError)
           | None \<Rightarrow>
               if \<not> parent_ok s l then Inl NotFound
               else if deny s A_create l then Inl OtherError
               else Inr (new_node e l (File []) s)))"

text \<open>\<open>File::create\<close>: create or truncate.\<close>

definition fs_create_file :: "env \<Rightarrow> fs \<Rightarrow> path \<Rightarrow> io_error + fs" where
  "fs_create_file e s p =
     (case fs_open_create e s p of
        Inl x \<Rightarrow> Inl x
      | Inr (i, s') \<Rightarrow> Inr (if node_at s' i = Some (File []) then s'
                            else put_node i (File []) (int (wall e)) s'))"

text \<open>
  \<open>seek(SeekFrom::Start(off))\<close> fails for offsets that are negative as \<open>i64\<close>;
  \<open>write_all\<close> fails beyond the largest file, and fills a gap with zeros.
\<close>

definition seek_ok :: "nat \<Rightarrow> bool" where
  "seek_ok off \<longleftrightarrow> off < 2 ^ 63"

definition splice_bytes :: "bytes \<Rightarrow> nat \<Rightarrow> bytes \<Rightarrow> bytes" where
  "splice_bytes old off dat =
     take off old @ replicate (off - length old) 0 @ dat @ drop (off + length dat) old"

definition fs_write_at :: "env \<Rightarrow> nat \<Rightarrow> nat \<Rightarrow> bytes \<Rightarrow> fs \<Rightarrow> io_error + fs" where
  "fs_write_at e i off dat s =
     (case node_at s i of
        Some (File old) \<Rightarrow>
          if dat = [] then Inr s
          else if off + length dat > max_file s then Inl OtherError
          else Inr (put_node i (File (splice_bytes old off dat)) (int (wall e)) s)
      | _ \<Rightarrow> Inl OtherError)"

definition fs_set_len :: "env \<Rightarrow> nat \<Rightarrow> nat \<Rightarrow> fs \<Rightarrow> io_error + fs" where
  "fs_set_len e i n s =
     (case node_at s i of
        Some (File old) \<Rightarrow>
          if n > max_file s \<or> \<not> seek_ok n then Inl OtherError
          else Inr (put_node i (File (take n old @ replicate (n - length old) 0)) (int (wall e)) s)
      | _ \<Rightarrow> Inl OtherError)"

text \<open>\<open>set_modified\<close> on an open file, which the system may refuse under any of the names of the file.\<close>

definition fs_set_modified :: "nat \<Rightarrow> int \<Rightarrow> fs \<Rightarrow> io_error + fs" where
  "fs_set_modified i t s =
     (case inodes s i of
        None \<Rightarrow> Inl NotFound
      | Some m \<Rightarrow>
          if list_ex (\<lambda>(l, j). j = i \<and> deny s A_times l) (entries s) then Inl OtherError
          else Inr (s\<lparr>inodes := (inodes s)(i \<mapsto> m\<lparr>modified := t\<rparr>)\<rparr>))"

definition fs_create_dir :: "env \<Rightarrow> fs \<Rightarrow> path \<Rightarrow> io_error + fs" where
  "fs_create_dir e s p =
     (case target_of s False p of
        None \<Rightarrow> Inl NotFound
      | Some l \<Rightarrow>
          if find_entry s l \<noteq> None then Inl AlreadyExists
          else if \<not> parent_ok s l then Inl NotFound
          else if deny s A_create l then Inl OtherError
          else Inr (snd (new_node e l Dir s)))"

text \<open>
  \<open>create_dir_all\<close>: create the directory, or its ancestors first when the parent is
  missing; an existing directory is no error, and directories made before an error stay.
  A path has fewer components than bytes, so the bound is never reached.
\<close>

fun create_dir_all_n :: "nat \<Rightarrow> env \<Rightarrow> fs \<Rightarrow> path \<Rightarrow> io_error option \<times> fs" where
  "create_dir_all_n 0 e s p = (Some OtherError, s)"
| "create_dir_all_n (Suc n) e s p =
     (if p = [] then (None, s)
      else case fs_create_dir e s p of
        Inr s' \<Rightarrow> (None, s')
      | Inl x \<Rightarrow>
          if x \<noteq> NotFound then (if path_is_dir s p then None else Some x, s)
          else (case path_parent p of
             None \<Rightarrow> (Some OtherError, s)
           | Some q \<Rightarrow>
               (case create_dir_all_n n e s q of
                  (Some y, s1) \<Rightarrow> (Some y, s1)
                | (None, s1) \<Rightarrow>
                    (case fs_create_dir e s1 p of
                       Inr s2 \<Rightarrow> (None, s2)
                     | Inl y \<Rightarrow> (if path_is_dir s1 p then None else Some y, s1)))))"

definition fs_create_dir_all :: "env \<Rightarrow> fs \<Rightarrow> path \<Rightarrow> io_error option \<times> fs" where
  "fs_create_dir_all e s p = create_dir_all_n (length p + 1) e s p"

definition drop_entry :: "loc \<Rightarrow> fs \<Rightarrow> fs" where
  "drop_entry l s = s\<lparr>entries := filter (\<lambda>(k, _). k \<noteq> l) (entries s)\<rparr>"

definition fs_remove_file :: "fs \<Rightarrow> path \<Rightarrow> io_error + fs" where
  "fs_remove_file s p =
     (case lookup_path s False p of
        None \<Rightarrow> Inl NotFound
      | Some (l, i) \<Rightarrow>
          if node_at s i = Some Dir \<or> deny s A_delete l then Inl OtherError
          else Inr (drop_entry l s))"

definition fs_remove_dir :: "fs \<Rightarrow> path \<Rightarrow> io_error + fs" where
  "fs_remove_dir s p =
     (case lookup_path s False p of
        None \<Rightarrow> Inl NotFound
      | Some (l, i) \<Rightarrow>
          if node_at s i \<noteq> Some Dir \<or> deny s A_delete l
             \<or> list_ex (\<lambda>(k, _). child_of s l k) (entries s) \<or> snd l = []
          then Inl OtherError
          else Inr (drop_entry l s))"

definition move_loc :: "loc \<Rightarrow> loc \<Rightarrow> loc \<Rightarrow> loc" where
  "move_loc src dst k =
     (if fst k = fst src \<and> take (length (snd src)) (snd k) = snd src
      then (fst dst, snd dst @ drop (length (snd src)) (snd k)) else k)"

definition fs_rename :: "fs \<Rightarrow> path \<Rightarrow> path \<Rightarrow> io_error + fs" where
  "fs_rename s p q =
     (case (lookup_path s False p, target_of s False q) of
        (Some (src, i), Some dst) \<Rightarrow>
          if deny s A_delete src \<or> deny s A_create dst \<or> snd src = [] then Inl OtherError
          else if take (length (snd src)) (snd dst) = snd src \<and> fst src = fst dst
                  \<and> length (snd src) < length (snd dst) then Inl OtherError
          else (case find_entry s dst of
              None \<Rightarrow>
                if \<not> parent_ok s dst then Inl NotFound
                else Inr (s\<lparr>entries := map (\<lambda>(k, j). (move_loc src dst k, j)) (entries s)\<rparr>)
            | Some (d, j) \<Rightarrow>
                if d = src then
                  Inr (s\<lparr>entries := map (\<lambda>(k, j). (move_loc src dst k, j)) (entries s)\<rparr>)
                else if node_at s j = Some Dir \<or> node_at s i = Some Dir then Inl OtherError
                else let s1 = drop_entry d s
                     in Inr (s1\<lparr>entries := map (\<lambda>(k, j). (move_loc src dst k, j)) (entries s1)\<rparr>))
      | (None, _) \<Rightarrow> Inl NotFound
      | (_, None) \<Rightarrow> Inl NotFound)"

definition fs_hard_link :: "fs \<Rightarrow> path \<Rightarrow> path \<Rightarrow> io_error + fs" where
  "fs_hard_link s p q =
     (case (lookup_path s False p, target_of s False q) of
        (Some (src, i), Some dst) \<Rightarrow>
          if find_entry s dst \<noteq> None then Inl AlreadyExists
          else if \<not> parent_ok s dst then Inl NotFound
          else (case node_at s i of
              Some Dir \<Rightarrow> Inl OtherError
            | _ \<Rightarrow> if deny s A_create dst \<or> fst src \<noteq> fst dst then Inl OtherError
                   else Inr (s\<lparr>entries := entries s @ [(dst, i)]\<rparr>))
      | _ \<Rightarrow> Inl NotFound)"

section \<open>Writing leaves resolution alone\<close>

fun shape :: "node \<Rightarrow> node" where
  "shape (File _) = File []"
| "shape Dir = Dir"
| "shape (Link t) = Link t"

definition same_shape :: "fs \<Rightarrow> fs \<Rightarrow> bool" where
  "same_shape s t \<longleftrightarrow> entries s = entries t \<and> fold_name s = fold_name t \<and> cwd s = cwd t
     \<and> deny s = deny t \<and> (\<forall>i. map_option shape (node_at s i) = map_option shape (node_at t i))"

lemma same_shape_find: "same_shape s t \<Longrightarrow> find_entry s l = find_entry t l"
  by (simp add: same_shape_def find_entry_def loc_key_def)

lemma shape_eqs [simp]:
  "shape n = File [] \<longleftrightarrow> (\<exists>d. n = File d)" "shape n = Dir \<longleftrightarrow> n = Dir" "shape n = Link t \<longleftrightarrow> n = Link t"
  by (cases n; auto)+

lemma same_shape_cases:
  assumes "same_shape s t"
  shows "(\<exists>d d'. node_at s i = Some (File d) \<and> node_at t i = Some (File d'))
    \<or> (node_at s i = node_at t i \<and> (\<forall>d. node_at s i \<noteq> Some (File d)))"
proof -
  have e: "map_option shape (node_at s i) = map_option shape (node_at t i)"
    using assms by (simp add: same_shape_def)
  show ?thesis
  proof (cases "node_at s i")
    case None
    with e show ?thesis by simp
  next
    case (Some nd)
    with e obtain nd' where "node_at t i = Some nd'" "shape nd = shape nd'"
      by (cases "node_at t i") auto
    with Some show ?thesis by (cases nd; cases nd') simp_all
  qed
qed

lemma resolve_same_shape:
  "same_shape s t \<Longrightarrow> resolve n s f c xs = resolve n t f c xs"
proof (induction n s f c xs rule: resolve.induct)
  case (1 n s f c)
  then show ?case by (simp add: resolve.simps)
next
  case (2 n s f c x xs)
  note f = same_shape_find [OF "2.prems", of "(fst c, snd c @ [x])"]
  show ?case
  proof (cases "find_entry s (fst c, snd c @ [x])")
    case None
    then show ?thesis using f by (simp add: resolve.simps(2))
  next
    case (Some li)
    obtain l i where li: "li = (l, i)" by (cases li)
    note e = Some [unfolded li] f [symmetric, unfolded Some li]
    from same_shape_cases [OF "2.prems", of i] show ?thesis
    proof
      assume "\<exists>d d'. node_at s i = Some (File d) \<and> node_at t i = Some (File d')"
      then show ?thesis using e by (auto simp: resolve.simps(2))
    next
      assume o: "node_at s i = node_at t i \<and> (\<forall>d. node_at s i \<noteq> Some (File d))"
      show ?thesis
      proof (cases "node_at t i")
        case None
        then show ?thesis using e o by (simp add: resolve.simps(2))
      next
        case n: (Some nd)
        then show ?thesis
          using e o "2.IH"(1) [OF Some li [symmetric]] "2.IH"(2) [OF Some li [symmetric]] "2.prems"
          by (cases nd) (auto simp: resolve.simps(2) split: option.splits)
      qed
    qed
  qed
qed

lemma lookup_same_shape: "same_shape s t \<Longrightarrow> lookup_path s f p = lookup_path t f p"
proof -
  assume sh: "same_shape s t"
  have "locate s p = locate t p" using sh by (simp add: locate_def same_shape_def)
  then show ?thesis
    by (simp add: lookup_path_def target_of_def resolve_same_shape [OF sh] same_shape_find [OF sh]
        split: option.splits)
qed

lemma put_file_same_shape:
  "node_at s i = Some (File d) \<Longrightarrow> same_shape s (put_node i (File d') t s)"
  by (auto simp: same_shape_def put_node_def node_at_def split: option.splits)

lemma node_at_put_node: "node_at s i \<noteq> None \<Longrightarrow> node_at (put_node i nd t s) i = Some nd"
  by (auto simp: node_at_def put_node_def)

lemma fs_write_at_read:
  assumes "fs_open A_write s p = Inr i" and "fs_write_at e i off dat s = Inr s'" and "dat \<noteq> []"
    and "fs_read s p = Inr old"
  shows "fs_read s' p = Inr (splice_bytes old off dat)"
proof -
  obtain l where l: "lookup_path s True p = Some (l, i)" and d: "\<not> deny s A_read l"
    and n: "node_at s i = Some (File old)"
    using assms(1,4) by (auto simp: fs_open_def fs_read_def split: option.splits prod.splits node.splits if_splits)
  have s': "s' = put_node i (File (splice_bytes old off dat)) (int (wall e)) s"
    using assms(2,3) n by (simp add: fs_write_at_def split: if_splits)
  have sh: "same_shape s s'" unfolding s' by (rule put_file_same_shape [OF n])
  have "lookup_path s' True p = Some (l, i)" using l lookup_same_shape [OF sh] by simp
  moreover have "node_at s' i = Some (File (splice_bytes old off dat))"
    unfolding s' using n by (intro node_at_put_node) simp
  moreover have "\<not> deny s' A_read l" using sh d by (simp add: same_shape_def)
  ultimately show ?thesis by (simp add: fs_read_def)
qed

lemma length_splice_bytes: "length (splice_bytes old off dat) = max (length old) (off + length dat)"
  by (auto simp: splice_bytes_def)

lemma splice_bytes_read: "take (length dat) (drop off (splice_bytes old off dat)) = dat"
  by (auto simp: splice_bytes_def min_def)

end
