(* ===== verification/Rpc.thy ===== *)
theory Rpc
  imports Prelude
begin

text \<open>
  The ONC RPC layer the protocol servers share: reply builders, the credential header of a
  call and the \<open>AUTH_SYS\<close> uid (\<open>exports.rs\<close>), and the conversion of wire bytes
  into strings.  \<open>from_utf8_lossy\<close> is the standard library's; it is modelled by its
  decoding automaton.
\<close>

section \<open>A fixed-width codec and what its clients rely on\<close>

text \<open>
  The contract between the writers of a reply and the readers of a request: an encoder of
  fixed width and a decoder that reads it back at any offset of a larger buffer.
\<close>

locale codec =
  fixes enc :: "'a \<Rightarrow> bytes" and dec :: "bytes \<Rightarrow> nat \<Rightarrow> 'a option" and width :: nat
  assumes enc_width: "length (enc x) = width"
    and dec_enc: "dec (enc x @ r) 0 = Some x"
    and dec_shift: "dec (xs @ ys) (length xs + n) = dec ys n"
    and dec_bound: "dec b n = Some x \<Longrightarrow> n + width \<le> length b"
begin

lemma dec_at: "n = length xs \<Longrightarrow> dec (xs @ enc x @ ys) n = Some x"
  using dec_shift [of xs "enc x @ ys" 0] by (simp add: dec_enc)

lemma dec_second: "n = width \<Longrightarrow> dec (enc x @ enc y @ ys) n = Some y"
  using dec_at [of n "enc x" y ys] by (simp add: enc_width)

lemma enc_inj: "enc x = enc y \<Longrightarrow> x = y"
  using dec_enc [of x "[]"] dec_enc [of y "[]"] by simp

end

interpretation u32: codec be32 rd32 4
  by unfold_locales (auto simp: rd32_def split: if_splits)

interpretation u64: codec be64 rd64 8
  by unfold_locales (auto simp: rd64_def split: if_splits)

section \<open>RPC constants and replies\<close>

definition RPC_CALL :: u32 where "RPC_CALL = 0"
definition RPC_REPLY :: u32 where "RPC_REPLY = 1"
definition RPC_MSG_ACCEPTED :: u32 where "RPC_MSG_ACCEPTED = 0"
definition ACC_SUCCESS :: u32 where "ACC_SUCCESS = 0"
definition ACC_PROC_UNAVAIL :: u32 where "ACC_PROC_UNAVAIL = 3"
definition ACC_GARBAGE_ARGS :: u32 where "ACC_GARBAGE_ARGS = 4"

lemmas rpc_const_defs = RPC_CALL_def RPC_REPLY_def RPC_MSG_ACCEPTED_def ACC_SUCCESS_def
  ACC_PROC_UNAVAIL_def ACC_GARBAGE_ARGS_def

text \<open>\<open>make_accept_reply\<close> of the MOUNT server.\<close>

definition mount_accept_reply :: "u32 \<Rightarrow> u32 \<Rightarrow> bytes \<Rightarrow> bytes" where
  "mount_accept_reply xid accept_stat body =
     be32 xid @ be32 RPC_REPLY @ be32 RPC_MSG_ACCEPTED @ be32 0 @ be32 0
       @ be32 accept_stat @ body"

text \<open>\<open>make_accept_reply\<close> of the PORTMAP server.\<close>

definition portmap_accept_reply :: "u32 \<Rightarrow> u32 \<Rightarrow> bytes \<Rightarrow> bytes" where
  "portmap_accept_reply xid accept_stat body =
     be32 xid @ be32 RPC_REPLY @ be32 RPC_MSG_ACCEPTED @ be32 0 @ be32 0
       @ be32 accept_stat @ body"

text \<open>\<open>make_rpc_accepted_reply\<close> of the NFSv4 server.\<close>

definition make_rpc_accepted_reply :: "u32 \<Rightarrow> u32 \<Rightarrow> bytes \<Rightarrow> bytes" where
  "make_rpc_accepted_reply xid accept_stat body =
     be32 xid @ be32 RPC_REPLY @ be32 RPC_MSG_ACCEPTED @ be32 0 @ be32 0
       @ be32 accept_stat @ body"

text \<open>\<open>make_rpc_reply\<close> of the NFSv3 server: the transaction id is copied as bytes.\<close>

definition make_rpc_reply :: "bytes \<Rightarrow> bytes" where
  "make_rpc_reply xid = take 4 xid @ [0, 0, 0, 1] @ [0, 0, 0, 0]
     @ [0, 0, 0, 0, 0, 0, 0, 0] @ [0, 0, 0, 0]"

text \<open>
  \<open>make_rpc_error_reply\<close> of \<open>mod.rs\<close>, used for the NFS ACL program.  The code writes
  \<open>0\<close> into the message type.
\<close>

definition make_rpc_error_reply :: "bytes \<Rightarrow> u32 \<Rightarrow> bytes option" where
  "make_rpc_error_reply request error_code =
     (if length request < 20 then None
      else Some (take 4 request @ be32 0 @ be32 0 @ be32 0 @ be32 0 @ be32 error_code))"

text \<open>The fields of a reply a client reads back.\<close>

lemma accepted_reply_fields:
  "rd32 (make_rpc_accepted_reply xid st body) 0 = Some xid"
  "rd32 (make_rpc_accepted_reply xid st body) 4 = Some RPC_REPLY"
  "rd32 (make_rpc_accepted_reply xid st body) 20 = Some st"
  "drop 24 (make_rpc_accepted_reply xid st body) = body"
  by (simp_all add: make_rpc_accepted_reply_def rd32_def)

lemma mount_reply_fields:
  "rd32 (mount_accept_reply xid st body) 0 = Some xid"
  "rd32 (mount_accept_reply xid st body) 20 = Some st"
  "drop 24 (mount_accept_reply xid st body) = body"
  by (simp_all add: mount_accept_reply_def rd32_def)

lemma portmap_reply_fields:
  "rd32 (portmap_accept_reply xid st body) 0 = Some xid"
  "rd32 (portmap_accept_reply xid st body) 20 = Some st"
  "drop 24 (portmap_accept_reply xid st body) = body"
  by (simp_all add: portmap_accept_reply_def rd32_def)

section \<open>AUTH\_SYS credentials\<close>

text \<open>
  \<open>parse_auth_sys_uid\<close>: the inner \<open>None\<close> is the function's own \<open>None\<close>, the
  outer one a panic.
\<close>

definition parse_auth_sys_uid :: "u32 \<Rightarrow> bytes \<Rightarrow> u32 option option" where
  "parse_auth_sys_uid cred_flavor cred_data =
     (if cred_flavor \<noteq> 1 then Some None
      else if length cred_data < 12 then Some None
      else do {
        nl \<leftarrow> rd32 cred_data 4;
        let name_len = unat nl;
        let name_padded = pad4 name_len;
        let uid_offset = 8 + name_padded;
        if uid_offset + 4 > length cred_data then Some None
        else do {
          uid \<leftarrow> rd32 cred_data uid_offset;
          Some (Some uid)
        }
      })"

lemma parse_auth_sys_uid_no_panic: "parse_auth_sys_uid f d \<noteq> None"
  by (auto simp: parse_auth_sys_uid_def Let_def rd_simps)

text \<open>The body of an \<open>AUTH_SYS\<close> credential as a client encodes it.\<close>

definition auth_sys_body :: "u32 \<Rightarrow> bytes \<Rightarrow> u32 \<Rightarrow> bytes \<Rightarrow> bytes" where
  "auth_sys_body stamp name uid rest = be32 stamp @ xdr_opaque name @ be32 uid @ rest"

lemma parse_auth_sys_body:
  assumes "length name < 2 ^ 32"
  shows "parse_auth_sys_uid 1 (auth_sys_body stamp name uid rest) = Some (Some uid)"
proof -
  let ?b = "auth_sys_body stamp name uid rest"
  have n: "unat (of_nat (length name) :: u32) = length name"
    using assms by (simp add: unat_of_nat)
  have l: "length ?b = 12 + pad4 (length name) + length rest"
    by (simp add: auth_sys_body_def)
  have r1: "rd32 ?b 4 = Some (of_nat (length name))"
    unfolding auth_sys_body_def xdr_opaque_def
    using u32.dec_at [of 4 "be32 stamp"] by simp
  have r2: "rd32 ?b (8 + pad4 (length name)) = Some uid"
    unfolding auth_sys_body_def
    using u32.dec_at [of "8 + pad4 (length name)" "be32 stamp @ xdr_opaque name" uid rest] by simp
  show ?thesis
    by (simp add: parse_auth_sys_uid_def r1 r2 l n Let_def)
qed

section \<open>UTF-8\<close>

definition is_cont :: "u8 \<Rightarrow> bool" where
  "is_cont b \<longleftrightarrow> 0x80 \<le> b \<and> b \<le> 0xBF"

text \<open>
  One step of \<open>String::from_utf8_lossy\<close> on the bytes after a first byte \<open>b\<close>: how many
  of them belong to the sequence, and whether the sequence is well formed.
\<close>

definition utf8_second_ok :: "u8 \<Rightarrow> u8 \<Rightarrow> bool" where
  "utf8_second_ok b c \<longleftrightarrow>
     (if b = 0xE0 then 0xA0 \<le> c \<and> c \<le> 0xBF
      else if b = 0xED then 0x80 \<le> c \<and> c \<le> 0x9F
      else if b = 0xF0 then 0x90 \<le> c \<and> c \<le> 0xBF
      else if b = 0xF4 then 0x80 \<le> c \<and> c \<le> 0x8F
      else is_cont c)"

definition utf8_width :: "u8 \<Rightarrow> nat" where
  "utf8_width b =
     (if b < 0x80 then 1
      else if 0xC2 \<le> b \<and> b \<le> 0xDF then 2
      else if 0xE0 \<le> b \<and> b \<le> 0xEF then 3
      else if 0xF0 \<le> b \<and> b \<le> 0xF4 then 4
      else 0)"

fun utf8_step :: "u8 \<Rightarrow> bytes \<Rightarrow> nat \<times> bool" where
  "utf8_step b r =
     (if utf8_width b = 0 then (0, False)
      else if utf8_width b = 1 then (0, True)
      else case r of
        [] \<Rightarrow> (0, False)
      | c # r2 \<Rightarrow>
          if \<not> utf8_second_ok b c then (0, False)
          else if utf8_width b = 2 then (1, True)
          else (case r2 of
            [] \<Rightarrow> (1, False)
          | d # r3 \<Rightarrow>
              if \<not> is_cont d then (1, False)
              else if utf8_width b = 3 then (2, True)
              else (case r3 of
                [] \<Rightarrow> (2, False)
              | e # _ \<Rightarrow> if is_cont e then (3, True) else (2, False))))"

function utf8_lossy :: "bytes \<Rightarrow> bytes" where
  "utf8_lossy [] = []"
| "utf8_lossy (b # r) =
     (let (k, ok) = utf8_step b r
      in (if ok then b # take k r else [0xEF, 0xBF, 0xBD]) @ utf8_lossy (drop k r))"
  by pat_completeness auto
termination
  by (relation "measure length") auto

lemma utf8_lossy_ascii: "\<forall>b \<in> set s. b < 0x80 \<Longrightarrow> utf8_lossy s = s"
  by (induction s) (auto simp: utf8_width_def)

lemma utf8_lossy_length: "length (utf8_lossy s) \<le> 3 * length s"
proof (induction s rule: utf8_lossy.induct)
  case 1
  then show ?case by simp
next
  case (2 b r)
  obtain k ok where s: "utf8_step b r = (k, ok)" by fastforce
  have "length (utf8_lossy (drop k r)) \<le> 3 * length (drop k r)"
    using "2.IH" s by simp
  then show ?case using s by (auto simp del: utf8_step.simps)
qed

section \<open>A call as a client sends it\<close>

definition rpc_call_header :: "u32 \<Rightarrow> u32 \<Rightarrow> u32 \<Rightarrow> u32 \<Rightarrow> u32 \<Rightarrow> bytes \<Rightarrow> u32 \<Rightarrow> bytes \<Rightarrow> bytes" where
  "rpc_call_header xid prog ver proc flavor cred vflavor verif =
     be32 xid @ be32 RPC_CALL @ be32 2 @ be32 prog @ be32 ver @ be32 proc
       @ be32 flavor @ xdr_opaque cred @ be32 vflavor @ xdr_opaque verif"

lemma unat_of_nat_u32: "n < 2 ^ 32 \<Longrightarrow> unat (of_nat n :: u32) = n"
  by (simp add: unat_of_nat)

lemma rpc_call_header_reads:
  fixes b cred verif rest :: bytes and xid prog ver proc fl vfl :: u32
  defines "b \<equiv> rpc_call_header xid prog ver proc fl cred vfl verif @ rest"
  shows "rd32 b 0 = Some xid" "rd32 b 4 = Some RPC_CALL" "rd32 b 12 = Some prog"
    "rd32 b 16 = Some ver" "rd32 b 20 = Some proc" "rd32 b 28 = Some (of_nat (length cred))"
    "rd32 b (36 + pad4 (length cred)) = Some (of_nat (length verif))"
    "length b = 40 + pad4 (length cred) + pad4 (length verif) + length rest"
proof -
  show "rd32 b (36 + pad4 (length cred)) = Some (of_nat (length verif))"
    using u32.dec_at [of "36 + pad4 (length cred)"
      "be32 xid @ be32 RPC_CALL @ be32 2 @ be32 prog @ be32 ver @ be32 proc
       @ be32 fl @ xdr_opaque cred @ be32 vfl" "of_nat (length verif)"
      "verif @ replicate (pad4 (length verif) - length verif) 0 @ rest"]
    by (simp add: b_def rpc_call_header_def xdr_opaque_def [of verif])
  show "rd32 b 28 = Some (of_nat (length cred))"
    using u32.dec_at [of 28 "be32 xid @ be32 RPC_CALL @ be32 2 @ be32 prog @ be32 ver @ be32 proc
       @ be32 fl" "of_nat (length cred)"]
    by (simp add: b_def rpc_call_header_def xdr_opaque_def [of cred])
qed (simp_all add: b_def rpc_call_header_def rd32_def)

end
