(* ===== verification/Exports.thy ===== *)
theory Exports
  imports Filesystem Rpc
begin

text \<open>
  \<open>ExportsManager\<close> of \<open>src/exports.rs\<close>: the exports and who may mount them, and the
  signed file handles.  The handle store is the pair of maps \<open>fh_map\<close> and
  \<open>path_to_fhid\<close> with the counter that allocates ids; the second map is keyed by what
  \<open>Path\<close> equality looks at.  The table of exports is an association list in the iteration
  order of the \<open>HashMap\<close>, which is unspecified: the lemmas hold for every order.

  Functions of crates and of the standard library whose result is not specified are fields of
  \<open>deps\<close>.
\<close>

section \<open>What the environment provides\<close>

datatype ip_net = IpNet ip_addr nat

record deps =
  hmac_sha256 :: "bytes \<Rightarrow> bytes \<Rightarrow> bytes"
  net_parse :: "bytes \<Rightarrow> ip_net option"
  ip_parse :: "bytes \<Rightarrow> ip_addr option"
  net_contains :: "ip_net \<Rightarrow> ip_addr \<Rightarrow> bool"
  hash_path :: "path_key \<Rightarrow> u64"
  hash_str :: "bytes \<Rightarrow> u64"

section \<open>Exports\<close>

record export_options =
  read_only :: bool
  sync :: bool
  no_subtree_check :: bool
  root_squash :: bool
  secure :: bool
  nohide :: bool

record export =
  exp_path :: path
  exp_alias :: "bytes option"
  allowed_clients :: "ip_net list"
  options :: export_options

record export_entry =
  entry_path :: bytes
  entry_alias :: "bytes option"
  entry_clients :: "bytes list"
  entry_options :: "bytes list"

record fh_entry =
  real_path :: path
  export_root :: path
  fh_inode :: u64
  fh_gen :: u32

record exports_manager =
  conf_entries :: "export_entry list"
  exports :: "(bytes \<times> export) list"
  fh_map :: "u64 \<Rightarrow> fh_entry option"
  path_to_fhid :: "path_key \<Rightarrow> u64 option"
  fh_counter :: u64
  fh_hmac_key :: bytes

definition default_options :: export_options where
  "default_options =
     \<lparr>read_only = False, sync = True, no_subtree_check = True, root_squash = True,
      secure = False, nohide = False\<rparr>"

text \<open>The xorshift generator the server draws its keys, salts and verifiers from.\<close>

definition xorshift64 :: "u64 \<Rightarrow> u64" where
  "xorshift64 x =
     (let x1 = x XOR push_bit 13 x; x2 = x1 XOR drop_bit 7 x1 in x2 XOR push_bit 17 x2)"

fun xorshift_bytes :: "nat \<Rightarrow> u64 \<Rightarrow> bytes" where
  "xorshift_bytes 0 seed = []"
| "xorshift_bytes (Suc n) seed =
     (let seed' = xorshift64 seed in ucast (seed' AND 0xFF) # xorshift_bytes n seed')"

lemma length_xorshift_bytes [simp, len_simps]: "length (xorshift_bytes n s) = n"
  by (induction n arbitrary: s) (simp_all add: Let_def)

definition em_new :: "env \<Rightarrow> export_entry list \<Rightarrow> exports_manager" where
  "em_new e conf =
     \<lparr>conf_entries = conf, exports = [], fh_map = Map.empty, path_to_fhid = Map.empty,
      fh_counter = 1,
      fh_hmac_key = xorshift_bytes 32 (wall_nanos e XOR ucast (pid e) XOR 0xDEADBEEFCAFEBABE)\<rparr>"

definition apply_option :: "export_options \<Rightarrow> bytes \<Rightarrow> export_options" where
  "apply_option o' opt =
     (if opt = bs ''ro'' \<or> opt = bs ''read-only'' then o'\<lparr>read_only := True\<rparr>
      else if opt = bs ''rw'' \<or> opt = bs ''read-write'' then o'\<lparr>read_only := False\<rparr>
      else if opt = bs ''sync'' then o'\<lparr>sync := True\<rparr>
      else if opt = bs ''async'' then o'\<lparr>sync := False\<rparr>
      else if opt = bs ''no_subtree_check'' then o'\<lparr>no_subtree_check := True\<rparr>
      else if opt = bs ''subtree_check'' then o'\<lparr>no_subtree_check := False\<rparr>
      else if opt = bs ''no_root_squash'' then o'\<lparr>root_squash := False\<rparr>
      else if opt = bs ''root_squash'' then o'\<lparr>root_squash := True\<rparr>
      else if opt = bs ''secure'' then o'\<lparr>secure := True\<rparr>
      else if opt = bs ''insecure'' then o'\<lparr>secure := False\<rparr>
      else if opt = bs ''nohide'' then o'\<lparr>nohide := True\<rparr>
      else if opt = bs ''hide'' then o'\<lparr>nohide := False\<rparr>
      else o')"

text \<open>
  One entry of \<open>allowed_clients\<close>: the networks it adds, or \<open>None\<close> when the parse of the
  wildcard networks fails (\<open>?\<close>).
\<close>

definition client_nets :: "deps \<Rightarrow> bytes \<Rightarrow> ip_net list option" where
  "client_nets d client =
     (if client = bs ''*'' then do {
        v4 \<leftarrow> net_parse d (bs ''0.0.0.0/0'');
        v6 \<leftarrow> net_parse d (bs ''::/0'');
        Some [v4, v6]
      }
      else Some (case net_parse d client of
          Some net \<Rightarrow> [net]
        | None \<Rightarrow> (case ip_parse d client of
              Some (IpV4 v4) \<Rightarrow> [IpNet (IpV4 v4) 32]
            | Some (IpV6 v6) \<Rightarrow> [IpNet (IpV6 v6) 128]
            | None \<Rightarrow> [])))"

fun collect_nets :: "deps \<Rightarrow> bytes list \<Rightarrow> ip_net list option" where
  "collect_nets d [] = Some []"
| "collect_nets d (c # cs) = do {
     ns \<leftarrow> client_nets d c;
     rest \<leftarrow> collect_nets d cs;
     Some (ns @ rest)
   }"

definition parse_export_entry :: "deps \<Rightarrow> export_entry \<Rightarrow> export option" where
  "parse_export_entry d entry = do {
     nets \<leftarrow> collect_nets d (entry_clients entry);
     Some \<lparr>exp_path = entry_path entry, exp_alias = entry_alias entry,
           allowed_clients = nets,
           options = foldl apply_option default_options (entry_options entry)\<rparr>
   }"

fun load_entries :: "deps \<Rightarrow> fs \<Rightarrow> export_entry list \<Rightarrow> (bytes \<times> export) list \<Rightarrow> (bytes \<times> export) list option" where
  "load_entries d s [] acc = Some acc"
| "load_entries d s (entry # rest) acc = do {
     ex \<leftarrow> parse_export_entry d entry;
     let check_path = to_extended_path (cwd s) (exp_path ex);
     if \<not> path_exists s check_path then load_entries d s rest acc
     else if \<not> path_is_dir s check_path then load_entries d s rest acc
     else load_entries d s rest (AList.update (exp_path ex) ex acc)
   }"

text \<open>\<open>reload_exports_async\<close>: on an error the old exports stay.\<close>

definition reload_exports_async :: "deps \<Rightarrow> fs \<Rightarrow> exports_manager \<Rightarrow> bool \<times> exports_manager" where
  "reload_exports_async d s m =
     (case load_entries d s (conf_entries m) [] of
        None \<Rightarrow> (False, m)
      | Some new_exports \<Rightarrow> (True, m\<lparr>exports := new_exports\<rparr>))"

definition alias_match :: "bytes \<Rightarrow> export \<Rightarrow> bool" where
  "alias_match nfs_path ex \<longleftrightarrow>
     (case exp_alias ex of None \<Rightarrow> False
      | Some a \<Rightarrow> a = nfs_path \<or> slash # a = nfs_path)"

definition dir_name_of :: "export \<Rightarrow> bytes" where
  "dir_name_of ex = (case path_file_name (exp_path ex) of Some n \<Rightarrow> n | None \<Rightarrow> [])"

definition leading_match :: "bytes \<Rightarrow> export \<Rightarrow> bool" where
  "leading_match stripped ex \<longleftrightarrow> dir_name_of ex = stripped \<or> exp_alias ex = Some stripped"

definition resolve_export_path :: "exports_manager \<Rightarrow> bytes \<Rightarrow> export option" where
  "resolve_export_path m nfs_path =
     (let values = map snd (exports m);
          stripped = dropWhile (\<lambda>c. c = slash) nfs_path
      in case find (alias_match nfs_path) values of
           Some ex \<Rightarrow> Some ex
         | None \<Rightarrow>
             (case find (leading_match stripped) values of
                Some ex \<Rightarrow> Some ex
              | None \<Rightarrow> map_of (exports m) nfs_path))"

definition is_client_allowed :: "deps \<Rightarrow> exports_manager \<Rightarrow> ip_addr \<Rightarrow> bytes \<Rightarrow> bool" where
  "is_client_allowed d m client_ip export_path =
     (case resolve_export_path m export_path of
        Some ex \<Rightarrow> list_ex (\<lambda>net. net_contains d net client_ip) (allowed_clients ex)
      | None \<Rightarrow> False)"

definition get_export :: "exports_manager \<Rightarrow> bytes \<Rightarrow> export option" where
  "get_export m p = resolve_export_path m p"

definition list_exports_with_aliases :: "exports_manager \<Rightarrow> (bytes \<times> bytes option) list" where
  "list_exports_with_aliases m = map (\<lambda>(_, ex). (exp_path ex, exp_alias ex)) (exports m)"

definition get_first_export_root :: "exports_manager \<Rightarrow> path option" where
  "get_first_export_root m = (case exports m of [] \<Rightarrow> None | (_, ex) # _ \<Rightarrow> Some (exp_path ex))"

lemma resolve_export_in: "resolve_export_path m p = Some ex \<Longrightarrow> \<exists>k. (k, ex) \<in> set (exports m)"
  by (auto simp: resolve_export_path_def Let_def split: option.splits
      dest!: find_Some_in map_of_SomeD)
    (metis image_eqI range_composition image_iff snd_conv)+

section \<open>File handles on the wire\<close>

definition FH_SIZE :: nat where "FH_SIZE = 40"

definition compute_fh_mac :: "deps \<Rightarrow> exports_manager \<Rightarrow> u64 \<Rightarrow> u64 \<Rightarrow> u32 \<Rightarrow> u32 \<Rightarrow> bytes" where
  "compute_fh_mac d m fhid inode gen salt =
     take 16 (hmac_sha256 d (fh_hmac_key m) (be64 fhid @ be64 inode @ be32 gen @ be32 salt))"

definition fh_salt :: "env \<Rightarrow> u64 \<Rightarrow> u32" where
  "fh_salt e fhid = ucast (xorshift64 (wall_nanos e XOR push_bit 32 (ucast (pid e)) XOR fhid))"

definition encode_handle :: "deps \<Rightarrow> env \<Rightarrow> exports_manager \<Rightarrow> u64 \<Rightarrow> u64 \<Rightarrow> u32 \<Rightarrow> bytes" where
  "encode_handle d e m fhid inode gen =
     (let salt = fh_salt e fhid
      in be64 fhid @ be64 inode @ be32 gen @ be32 salt @ compute_fh_mac d m fhid inode gen salt)"

definition verify_fh_mac :: "deps \<Rightarrow> exports_manager \<Rightarrow> bytes \<Rightarrow> u64 option" where
  "verify_fh_mac d m handle =
     (if length handle < FH_SIZE then None
      else let fhid = u64_at handle 0; inode = u64_at handle 8;
               gen = u32_at handle 16; salt = u32_at handle 20;
               stored_mac = take 16 (drop 24 handle)
           in if stored_mac = compute_fh_mac d m fhid inode gen salt then Some fhid else None)"

definition FNV_OFFSET :: u64 where "FNV_OFFSET = 0xcbf29ce484222325"
definition FNV_PRIME :: u64 where "FNV_PRIME = 0x100000001b3"

definition fnv1a :: "bytes \<Rightarrow> u64" where
  "fnv1a b = foldl (\<lambda>hash c. (hash XOR ucast c) * FNV_PRIME) FNV_OFFSET b"

definition get_inode :: "path \<Rightarrow> u64" where
  "get_inode p = fnv1a p"

definition alloc_synthetic_handle :: "deps \<Rightarrow> env \<Rightarrow> bytes \<Rightarrow> exports_manager \<Rightarrow> bytes \<times> exports_manager" where
  "alloc_synthetic_handle d e p m =
     (let inode = fnv1a p; fhid = fh_counter m; m' = m\<lparr>fh_counter := fhid + 1\<rparr>
      in (encode_handle d e m' fhid inode 1, m'))"

definition decode_fhid :: "bytes \<Rightarrow> u64 option" where
  "decode_fhid handle = (if length handle < 8 then None else Some (u64_at handle 0))"

definition verify_and_decode_fhid :: "deps \<Rightarrow> exports_manager \<Rightarrow> bytes \<Rightarrow> u64 option" where
  "verify_and_decode_fhid d m handle =
     (if list_all (\<lambda>b. b = 0) handle then Some 0 else verify_fh_mac d m handle)"

section \<open>The handle store\<close>

definition get_or_create_fh :: "deps \<Rightarrow> env \<Rightarrow> path \<Rightarrow> path \<Rightarrow> exports_manager \<Rightarrow> bytes \<times> exports_manager" where
  "get_or_create_fh d e p root m =
     (case Option.bind (path_to_fhid m (path_key p)) (\<lambda>i. map_option (Pair i) (fh_map m i)) of
        Some (fhid, entry) \<Rightarrow> (encode_handle d e m fhid (fh_inode entry) (fh_gen entry), m)
      | None \<Rightarrow>
          (let inode = get_inode p; gen = 1; fhid = fh_counter m;
               m' = m\<lparr>fh_counter := fhid + 1,
                      fh_map := (fh_map m)(fhid \<mapsto>
                        \<lparr>real_path = p, export_root = root, fh_inode = inode, fh_gen = gen\<rparr>),
                      path_to_fhid := (path_to_fhid m)(path_key p \<mapsto> fhid)\<rparr>
           in (encode_handle d e m' fhid inode gen, m')))"

definition create_file_handle :: "deps \<Rightarrow> env \<Rightarrow> bytes \<Rightarrow> exports_manager \<Rightarrow> bytes \<times> exports_manager" where
  "create_file_handle d e export_path m =
     (case resolve_export_path m export_path of
        Some ex \<Rightarrow> get_or_create_fh d e (exp_path ex) (exp_path ex) m
      | None \<Rightarrow> alloc_synthetic_handle d e export_path m)"

definition resolve_fh :: "deps \<Rightarrow> fs \<Rightarrow> exports_manager \<Rightarrow> bytes \<Rightarrow> path option" where
  "resolve_fh d s m handle =
     (case verify_and_decode_fhid d m handle of
        None \<Rightarrow> None
      | Some fhid \<Rightarrow>
          if fhid = 0 then None
          else (case fh_map m fhid of
              None \<Rightarrow> None
            | Some en \<Rightarrow>
                if path_exists s (real_path en) \<and> path_is_symlink s (real_path en) then
                  (case canonicalize s (to_extended_path (cwd s) (real_path en)) of
                     None \<Rightarrow> Some (real_path en)
                   | Some canonical \<Rightarrow>
                       (case canonicalize s (to_extended_path (cwd s) (export_root en)) of
                          None \<Rightarrow> Some (real_path en)
                        | Some canonical_root \<Rightarrow>
                            if \<not> path_starts_with canonical canonical_root then None
                            else Some (real_path en)))
                else Some (real_path en)))"

definition get_fh_export_root :: "deps \<Rightarrow> exports_manager \<Rightarrow> bytes \<Rightarrow> path option" where
  "get_fh_export_root d m handle =
     (case verify_and_decode_fhid d m handle of
        None \<Rightarrow> None
      | Some fhid \<Rightarrow> if fhid = 0 then None else map_option export_root (fh_map m fhid))"

definition validate_file_handle :: "deps \<Rightarrow> exports_manager \<Rightarrow> bytes \<Rightarrow> bool" where
  "validate_file_handle d m handle =
     (if handle = [] then False
      else if list_all (\<lambda>b. b = 0) handle then True
      else (case verify_and_decode_fhid d m handle of
          None \<Rightarrow> False
        | Some fhid \<Rightarrow> if fhid = - 1 then True else fh_map m fhid \<noteq> None))"

definition is_read_only :: "deps \<Rightarrow> exports_manager \<Rightarrow> bytes \<Rightarrow> bool" where
  "is_read_only d m fh =
     (case get_fh_export_root d m fh of
        None \<Rightarrow> False
      | Some root \<Rightarrow>
          (case resolve_export_path m root of
             Some ex \<Rightarrow> read_only (options ex)
           | None \<Rightarrow> False))"

definition should_squash_root :: "deps \<Rightarrow> exports_manager \<Rightarrow> bytes \<Rightarrow> u32 \<Rightarrow> bool" where
  "should_squash_root d m fh uid =
     (if uid \<noteq> 0 then False
      else case get_fh_export_root d m fh of
        None \<Rightarrow> False
      | Some root \<Rightarrow>
          (case resolve_export_path m root of
             Some ex \<Rightarrow> root_squash (options ex)
           | None \<Rightarrow> False))"

fun first_some :: "('a \<Rightarrow> 'b option) \<Rightarrow> 'a list \<Rightarrow> 'b option" where
  "first_some f [] = None"
| "first_some f (x # xs) = (case f x of Some y \<Rightarrow> Some y | None \<Rightarrow> first_some f xs)"

text \<open>The first argument is \<open>max_depth - depth\<close>.\<close>

primrec find_path_by_inode :: "nat \<Rightarrow> fs \<Rightarrow> u64 \<Rightarrow> path \<Rightarrow> path option" where
  "find_path_by_inode 0 s target_inode dir = (if fnv1a dir = target_inode then Some dir else None)"
| "find_path_by_inode (Suc n) s target_inode dir =
     (if fnv1a dir = target_inode then Some dir
      else case fs_read_dir s (to_extended_path (cwd s) dir) of
        Inl _ \<Rightarrow> None
      | Inr es \<Rightarrow> first_some (\<lambda>(_, p).
          if fnv1a p = target_inode then Some p
          else if path_is_dir s p then find_path_by_inode n s target_inode p
          else None) es)"

definition try_rebuild_fh :: "fs \<Rightarrow> bytes \<Rightarrow> exports_manager \<Rightarrow> exports_manager" where
  "try_rebuild_fh s handle m =
     (case decode_fhid handle of
        None \<Rightarrow> m
      | Some fhid \<Rightarrow>
          if fhid = - 1 \<or> fhid = 0 then m
          else if fh_map m fhid \<noteq> None then m
          else if length handle < 16 then m
          else
            (let stored_inode = u64_at handle 8 in
             case first_some (\<lambda>(_, ex).
                 map_option (Pair (exp_path ex)) (find_path_by_inode 8 s stored_inode (exp_path ex)))
                 (exports m) of
               None \<Rightarrow> m
             | Some (root, found_path) \<Rightarrow>
                 m\<lparr>fh_counter := (if fhid \<ge> fh_counter m then fhid + 1 else fh_counter m),
                   fh_map := (fh_map m)(fhid \<mapsto>
                     \<lparr>real_path = found_path, export_root = root, fh_inode = stored_inode, fh_gen = 1\<rparr>),
                   path_to_fhid := (path_to_fhid m)(path_key found_path \<mapsto> fhid)\<rparr>))"

definition unsafe_name :: "bytes \<Rightarrow> bool" where
  "unsafe_name name \<longleftrightarrow> name = [] \<or> name = [0x2E, 0x2E] \<or> name = [0x2E]
     \<or> list_ex (\<lambda>c. c = slash) name \<or> list_ex (\<lambda>c. c = backslash) name"

definition lookup_child :: "deps \<Rightarrow> env \<Rightarrow> fs \<Rightarrow> bytes \<Rightarrow> bytes \<Rightarrow> exports_manager
    \<Rightarrow> (bytes \<times> path) option \<times> exports_manager" where
  "lookup_child d e s dir_fh name m =
     (if unsafe_name name then (None, m)
      else case resolve_fh d s m dir_fh of
        None \<Rightarrow> (None, m)
      | Some dir_path \<Rightarrow>
          (let child_path = path_join dir_path name;
               root = (case get_fh_export_root d m dir_fh of Some r \<Rightarrow> r | None \<Rightarrow> dir_path);
               allowed =
                 (if path_exists s child_path then
                    (case canonicalize s (to_extended_path (cwd s) child_path) of
                       None \<Rightarrow> False
                     | Some canonical_child \<Rightarrow>
                         path_starts_with canonical_child
                           (case canonicalize s (to_extended_path (cwd s) root) of
                              Some c \<Rightarrow> c | None \<Rightarrow> root))
                  else starts_bytes root child_path)
           in if allowed
              then (let (fh, m') = get_or_create_fh d e child_path root m in (Some (fh, child_path), m'))
              else (None, m)))"

section \<open>Signed handles\<close>

text \<open>What the code relies on of HMAC-SHA256: the digest has 32 bytes.\<close>

definition mac_ok :: "deps \<Rightarrow> bool" where
  "mac_ok d \<longleftrightarrow> (\<forall>k x. length (hmac_sha256 d k x) = 32)"

definition fh_header :: "u64 \<Rightarrow> u64 \<Rightarrow> u32 \<Rightarrow> u32 \<Rightarrow> bytes" where
  "fh_header fhid inode gen salt = be64 fhid @ be64 inode @ be32 gen @ be32 salt"

lemma length_fh_header [simp, len_simps]: "length (fh_header i n g s) = 24"
  by (simp add: fh_header_def)

lemma length_compute_fh_mac: "mac_ok d \<Longrightarrow> length (compute_fh_mac d m i n g s) = 16"
  by (simp add: mac_ok_def compute_fh_mac_def)

lemma encode_handle_header:
  "encode_handle d e m i n g = fh_header i n g (fh_salt e i) @ compute_fh_mac d m i n g (fh_salt e i)"
  by (simp add: encode_handle_def fh_header_def Let_def)

lemma length_encode_handle: "mac_ok d \<Longrightarrow> length (encode_handle d e m i n g) = FH_SIZE"
  by (simp add: encode_handle_header length_compute_fh_mac FH_SIZE_def)

lemma fh_header_reads:
  "u64_at (fh_header i n g s @ r) 0 = i" "u64_at (fh_header i n g s @ r) 8 = n"
  "u32_at (fh_header i n g s @ r) 16 = g" "u32_at (fh_header i n g s @ r) 20 = s"
  by (simp_all add: fh_header_def u64_at_append u32_at_append)

lemma decode_encode_handle: "decode_fhid (encode_handle d e m i n g) = Some i"
  by (simp add: decode_fhid_def encode_handle_header fh_header_reads)

lemma verify_encode:
  assumes "mac_ok d" and "fh_hmac_key m' = fh_hmac_key m"
  shows "verify_fh_mac d m' (encode_handle d e m i n g) = Some i"
proof -
  have k: "compute_fh_mac d m' i n g s = compute_fh_mac d m i n g s" for s
    by (simp add: compute_fh_mac_def assms(2))
  have l: "length (encode_handle d e m i n g) = FH_SIZE" using assms(1) by (rule length_encode_handle)
  show ?thesis
    unfolding verify_fh_mac_def l
    by (simp add: encode_handle_header fh_header_reads k length_compute_fh_mac [OF assms(1)] Let_def)
qed

lemma be64_nonzero: "i \<noteq> 0 \<Longrightarrow> \<not> list_all (\<lambda>b. b = 0) (be64 i)"
proof
  assume "i \<noteq> 0" and z: "list_all (\<lambda>b. b = 0) (be64 i)"
  then have "be64 i = replicate 8 0"
    by (auto intro: nth_equalityI simp: list_all_length)
  also have "\<dots> = be64 0" by (simp add: be64_def numeral_eq_Suc)
  finally show False using \<open>i \<noteq> 0\<close> by simp
qed

lemma encode_handle_nonzero: "i \<noteq> 0 \<Longrightarrow> \<not> list_all (\<lambda>b. b = 0) (encode_handle d e m i n g)"
  using be64_nonzero [of i] by (simp add: encode_handle_def Let_def)

text \<open>
  A handle the server issued is accepted by every later state with the same key and
  gives back the id it was issued for, whatever the inode, generation and salt.
\<close>

theorem issued_handle_accepted:
  assumes "mac_ok d" and "fh_hmac_key m' = fh_hmac_key m" and "fhid \<noteq> 0"
  shows "verify_and_decode_fhid d m' (encode_handle d e m fhid inode gen) = Some fhid
    \<and> length (encode_handle d e m fhid inode gen) = FH_SIZE"
  using assms by (simp add: verify_and_decode_fhid_def encode_handle_nonzero verify_encode length_encode_handle)

text \<open>
  A digest function and networks for the examples: the message cut to 32 bytes.
\<close>

definition sample_deps :: deps where
  "sample_deps =
     \<lparr>hmac_sha256 = (\<lambda>k x. take 32 (x @ replicate 32 0)),
      net_parse = (\<lambda>b. if b = bs ''10.0.0.0/8'' then Some (IpNet (IpV4 0x0A000000) 8) else None),
      ip_parse = (\<lambda>b. None),
      net_contains = (\<lambda>n a. case (n, a) of
        (IpNet (IpV4 x) p, IpV4 y) \<Rightarrow> drop_bit (32 - p) x = drop_bit (32 - p) y | _ \<Rightarrow> False),
      hash_path = (\<lambda>k. 0), hash_str = (\<lambda>b. 0)\<rparr>"

definition sample_env :: env where
  "sample_env = \<lparr>now = 5, wall = 1700000000000000000, pid = 7\<rparr>"

lemma sample_mac_ok: "mac_ok sample_deps"
  by (simp add: mac_ok_def sample_deps_def min_def)

theorem issued_handle_accepted_witness:
  "verify_and_decode_fhid sample_deps (em_new sample_env [])
     (encode_handle sample_deps sample_env (em_new sample_env []) 1 9 1) = Some 1"
  using issued_handle_accepted [OF sample_mac_ok, of "em_new sample_env []" "em_new sample_env []" 1]
  by simp

text \<open>Altered handles: when the truncated HMAC separates two headers.\<close>

definition mac_separates :: "deps \<Rightarrow> exports_manager \<Rightarrow> bytes \<Rightarrow> bytes \<Rightarrow> bool" where
  "mac_separates d m x y \<longleftrightarrow>
     take 16 (hmac_sha256 d (fh_hmac_key m) x) \<noteq> take 16 (hmac_sha256 d (fh_hmac_key m) y)"

lemma take_parts:
  "take 24 h = take 8 h @ take 8 (drop 8 h) @ take 4 (drop 16 h) @ take 4 (drop 20 h)"
proof -
  have "take 24 h = take (8 + (8 + (4 + 4))) h" by simp
  then show ?thesis unfolding take_add by simp
qed

lemma verify_fh_mac_iff:
  "verify_fh_mac d m h = Some i \<longleftrightarrow>
     FH_SIZE \<le> length h \<and> u64_at h 0 = i
       \<and> take 16 (drop 24 h) = take 16 (hmac_sha256 d (fh_hmac_key m) (take 24 h))"
proof (cases "FH_SIZE \<le> length h")
  case True
  then have "be64 (u64_at h 0) @ be64 (u64_at h 8) @ be32 (u32_at h 16) @ be32 (u32_at h 20) = take 24 h"
    unfolding take_parts by (simp add: u64_at_def u32_at_def be64_of_be be32_of_be FH_SIZE_def)
  then show ?thesis using True by (auto simp: verify_fh_mac_def Let_def compute_fh_mac_def)
next
  case False
  then show ?thesis by (auto simp: verify_fh_mac_def)
qed

text \<open>
  C9: handles cannot be altered.  If the truncated HMAC separates two different 24-byte
  headers (no collision), then a handle that carries the MAC of an accepted handle under
  any other header is rejected.
\<close>

theorem altered_handle_rejected:
  assumes "verify_fh_mac d m h = Some fhid"
    and "length h' = length h" and "take 24 h' \<noteq> take 24 h" and "drop 24 h' = drop 24 h"
    and "mac_separates d m (take 24 h') (take 24 h)"
    and "\<not> list_all (\<lambda>b. b = 0) h'"
  shows "verify_and_decode_fhid d m h' = None \<and> resolve_fh d s m h' = None
    \<and> get_fh_export_root d m h' = None"
proof -
  have "verify_fh_mac d m h' = None"
    by (rule ccontr) (use assms in \<open>auto simp: verify_fh_mac_iff mac_separates_def\<close>)
  then have "verify_and_decode_fhid d m h' = None"
    using assms(6) by (simp add: verify_and_decode_fhid_def)
  then show ?thesis by (simp add: resolve_fh_def get_fh_export_root_def)
qed

definition sample_em :: exports_manager where
  "sample_em =
     \<lparr>conf_entries = [],
      exports = [(bs ''D:/share'',
        \<lparr>exp_path = bs ''D:/share'', exp_alias = Some (bs ''share''),
         allowed_clients = [IpNet (IpV4 0x0A000000) 8], options = default_options\<rparr>)],
      fh_map = Map.empty, path_to_fhid = Map.empty, fh_counter = 1, fh_hmac_key = replicate 32 7\<rparr>"

theorem altered_handle_rejected_witness:
  "let h = encode_handle sample_deps sample_env sample_em 1 9 1
   in verify_fh_mac sample_deps sample_em h = Some 1
      \<and> verify_and_decode_fhid sample_deps sample_em (h[7 := 2]) = None"
proof -
  let ?h = "encode_handle sample_deps sample_env sample_em 1 9 1"
  have v: "verify_fh_mac sample_deps sample_em ?h = Some 1"
    using verify_encode [OF sample_mac_ok, of sample_em sample_em] by simp
  have h: "take 24 (?h[7 := 2]) \<noteq> take 24 ?h" "drop 24 (?h[7 := 2]) = drop 24 ?h"
    "mac_separates sample_deps sample_em (take 24 (?h[7 := 2])) (take 24 ?h)"
    "\<not> list_all (\<lambda>b. b = 0) (?h[7 := 2])"
    by (simp_all add: encode_handle_def compute_fh_mac_def mac_separates_def sample_deps_def
        sample_em_def be64_def be32_def Let_def)
  show ?thesis
    using altered_handle_rejected [OF v _ h(1,2,3,4)] v by (simp add: Let_def)
qed

section \<open>The contract of the handle store\<close>

text \<open>
  What the protocol servers rely on: \<open>issue\<close> gives a handle that denotes the object it was
  asked for, later states keep the meaning of every handle, and the store can go on as long
  as it has room for new ids.
\<close>

locale handle_store =
  fixes good :: "'m \<Rightarrow> bool" and room :: "'m \<Rightarrow> nat"
    and issue :: "'e \<Rightarrow> 'p \<Rightarrow> 'm \<Rightarrow> 'h \<times> 'm"
    and denotes :: "'m \<Rightarrow> 'h \<Rightarrow> 'k option"
    and key :: "'p \<Rightarrow> 'k"
  assumes issue_denotes: "good m \<Longrightarrow> 0 < room m \<Longrightarrow> issue e p m = (h, m') \<Longrightarrow> denotes m' h = Some (key p)"
    and issue_keeps: "good m \<Longrightarrow> 0 < room m \<Longrightarrow> issue e p m = (h, m') \<Longrightarrow> denotes m h' = Some k
      \<Longrightarrow> denotes m' h' = Some k"
    and issue_good: "good m \<Longrightarrow> 0 < room m \<Longrightarrow> issue e p m = (h, m') \<Longrightarrow> good m' \<and> room m \<le> room m' + 1"
begin

fun issue_all :: "('e \<times> 'p) list \<Rightarrow> 'm \<Rightarrow> 'h list \<times> 'm" where
  "issue_all [] m = ([], m)"
| "issue_all ((e, p) # ps) m =
     (let (h, m1) = issue e p m; (hs, m2) = issue_all ps m1 in (h # hs, m2))"

lemma issue_all_keeps:
  "good m \<Longrightarrow> length ps \<le> room m \<Longrightarrow> issue_all ps m = (hs, m') \<Longrightarrow> denotes m h' = Some k
    \<Longrightarrow> denotes m' h' = Some k"
proof (induction ps arbitrary: m hs)
  case Nil
  then show ?case by simp
next
  case (Cons ep ps)
  obtain e p where ep: "ep = (e, p)" by (cases ep)
  obtain h m1 where i: "issue e p m = (h, m1)" by (cases "issue e p m")
  obtain hs1 where r: "issue_all ps m1 = (hs1, m')"
    using Cons.prems(3) by (auto simp: ep i split: prod.splits)
  have room: "0 < room m" using Cons.prems(2) by simp
  have g: "good m1" "room m \<le> room m1 + 1" using issue_good [OF Cons.prems(1) room i] by simp_all
  have "length ps \<le> room m1" using g(2) Cons.prems(2) by simp
  from Cons.IH [OF g(1) this r issue_keeps [OF Cons.prems(1) room i Cons.prems(4)]] show ?case .
qed

lemma issue_all_denotes:
  "good m \<Longrightarrow> length ps \<le> room m \<Longrightarrow> issue_all ps m = (hs, m')
    \<Longrightarrow> map (denotes m') hs = map (Some \<circ> key \<circ> snd) ps"
proof (induction ps arbitrary: m hs)
  case Nil
  then show ?case by simp
next
  case (Cons ep ps)
  obtain e p where ep: "ep = (e, p)" by (cases ep)
  obtain h m1 where i: "issue e p m = (h, m1)" by (cases "issue e p m")
  obtain hs1 where r: "issue_all ps m1 = (hs1, m')" "hs = h # hs1"
    using Cons.prems(3) by (auto simp: ep i split: prod.splits)
  have room: "0 < room m" using Cons.prems(2) by simp
  have g: "good m1" "room m \<le> room m1 + 1" using issue_good [OF Cons.prems(1) room i] by simp_all
  have l: "length ps \<le> room m1" using g(2) Cons.prems(2) by simp
  show ?case
    using Cons.IH [OF g(1) l r(1)] issue_all_keeps [OF g(1) l r(1) issue_denotes [OF Cons.prems(1) room i]]
    by (simp add: r ep)
qed

end

section \<open>The server's store meets it\<close>

definition em_inv :: "exports_manager \<Rightarrow> bool" where
  "em_inv m \<longleftrightarrow> fh_counter m \<noteq> 0
     \<and> (\<forall>i en. fh_map m i = Some en \<longrightarrow> i \<noteq> 0 \<and> i < fh_counter m \<and> fh_gen en = 1
          \<and> fh_inode en = fnv1a (real_path en))
     \<and> (\<forall>k i. path_to_fhid m k = Some i \<longrightarrow> (\<exists>en. fh_map m i = Some en \<and> path_key (real_path en) = k))"

definition em_room :: "exports_manager \<Rightarrow> nat" where
  "em_room m = 2 ^ 64 - 1 - unat (fh_counter m)"

definition fh_denotes :: "deps \<Rightarrow> exports_manager \<Rightarrow> bytes \<Rightarrow> path_key option" where
  "fh_denotes d m h =
     (case verify_and_decode_fhid d m h of
        None \<Rightarrow> None
      | Some i \<Rightarrow> if i = 0 then None else map_option (path_key \<circ> real_path) (fh_map m i))"

definition issue_fh :: "deps \<Rightarrow> env \<times> path \<Rightarrow> path \<Rightarrow> exports_manager \<Rightarrow> bytes \<times> exports_manager" where
  "issue_fh d er p m = get_or_create_fh d (fst er) p (snd er) m"

lemma em_room_less:
  assumes "0 < em_room m"
  shows "fh_counter m < fh_counter m + 1" and "fh_counter m + 1 \<noteq> 0"
    and "unat (fh_counter m + 1) = unat (fh_counter m) + 1"
proof -
  have "unat (fh_counter m) + 1 < 2 ^ 64" using assms by (simp add: em_room_def)
  then show u: "unat (fh_counter m + 1) = unat (fh_counter m) + 1"
    by (simp add: unat_word_ariths)
  then show "fh_counter m < fh_counter m + 1" by (simp add: word_less_nat_alt)
  show "fh_counter m + 1 \<noteq> 0" using u by (metis unat_0 add_is_0 one_neq_zero)
qed

lemma em_inv_new [simp]: "em_inv (em_new e conf)"
  by (simp add: em_inv_def em_new_def)

lemma get_or_create_cases:
  assumes "em_inv m"
  obtains (old) i en where "path_to_fhid m (path_key p) = Some i" "fh_map m i = Some en"
      "path_key (real_path en) = path_key p"
      "get_or_create_fh d e p root m = (encode_handle d e m i (fh_inode en) (fh_gen en), m)"
  | (fresh) "path_to_fhid m (path_key p) = None"
proof (cases "path_to_fhid m (path_key p)")
  case None
  then show ?thesis by (rule fresh)
next
  case (Some i)
  then obtain en where "fh_map m i = Some en" "path_key (real_path en) = path_key p"
    using assms unfolding em_inv_def by blast
  with Some show ?thesis by (intro old) (auto simp: get_or_create_fh_def)
qed

lemma get_or_create_fresh:
  assumes "path_to_fhid m (path_key p) = None"
    and "get_or_create_fh d e p root m = (h, m')"
  shows "m' = m\<lparr>fh_counter := fh_counter m + 1,
      fh_map := (fh_map m)(fh_counter m \<mapsto>
        \<lparr>real_path = p, export_root = root, fh_inode = fnv1a p, fh_gen = 1\<rparr>),
      path_to_fhid := (path_to_fhid m)(path_key p \<mapsto> fh_counter m)\<rparr>"
    and "h = encode_handle d e m' (fh_counter m) (fnv1a p) 1"
  using assms by (auto simp: get_or_create_fh_def get_inode_def Let_def)

lemma em_inv_fresh_id: "em_inv m \<Longrightarrow> fh_map m (fh_counter m) = None"
  by (cases "fh_map m (fh_counter m)") (auto simp: em_inv_def)

lemma get_or_create_keeps:
  assumes "em_inv m" and "get_or_create_fh d e p root m = (h, m')"
  shows "fh_map m \<subseteq>\<^sub>m fh_map m'" and "fh_hmac_key m' = fh_hmac_key m" and "exports m' = exports m"
    and "conf_entries m' = conf_entries m"
proof -
  have "fh_map m \<subseteq>\<^sub>m fh_map m' \<and> fh_hmac_key m' = fh_hmac_key m \<and> exports m' = exports m
      \<and> conf_entries m' = conf_entries m"
    using assms(1)
  proof (cases rule: get_or_create_cases [of m p d e root])
    case (old i en)
    with assms(2) show ?thesis by simp
  next
    case fresh
    with get_or_create_fresh [OF fresh assms(2)] em_inv_fresh_id [OF assms(1)] show ?thesis
      by (auto simp: map_le_def dom_def)
  qed
  then show "fh_map m \<subseteq>\<^sub>m fh_map m'" "fh_hmac_key m' = fh_hmac_key m" "exports m' = exports m"
    "conf_entries m' = conf_entries m" by simp_all
qed

definition add_handle :: "u64 \<Rightarrow> u64 \<Rightarrow> path \<Rightarrow> path \<Rightarrow> exports_manager \<Rightarrow> exports_manager" where
  "add_handle c i p root m =
     m\<lparr>fh_counter := c,
       fh_map := (fh_map m)(i \<mapsto>
         \<lparr>real_path = p, export_root = root, fh_inode = fnv1a p, fh_gen = 1\<rparr>),
       path_to_fhid := (path_to_fhid m)(path_key p \<mapsto> i)\<rparr>"

lemma em_inv_add_handle:
  assumes inv: "em_inv m" and new: "fh_map m i = None" and i: "i \<noteq> 0" "i < c" and c: "fh_counter m \<le> c"
  shows "em_inv (add_handle c i p root m)"
proof -
  have c0: "c \<noteq> 0" using i(2) by (metis word_not_simps(1))
  have lt: "j < c" if "j < fh_counter m" for j using that c by simp
  have e: "j \<noteq> 0 \<and> j < c \<and> fh_gen en = 1 \<and> fh_inode en = fnv1a (real_path en)"
    if "fh_map (add_handle c i p root m) j = Some en" for j en
    using that inv i lt by (auto simp: em_inv_def add_handle_def split: if_splits)
  have k: "\<exists>en. fh_map (add_handle c i p root m) j = Some en \<and> path_key (real_path en) = q"
    if j: "path_to_fhid (add_handle c i p root m) q = Some j" for q j
  proof (cases "q = path_key p")
    case True
    then show ?thesis using j by (simp add: add_handle_def)
  next
    case False
    then have "path_to_fhid m q = Some j" using j by (simp add: add_handle_def)
    then obtain en where "fh_map m j = Some en" "path_key (real_path en) = q"
      using inv unfolding em_inv_def by blast
    then show ?thesis using new by (auto simp: add_handle_def)
  qed
  show ?thesis unfolding em_inv_def using e k c0 by (auto simp: add_handle_def)
qed

lemma add_handle_keeps: "fh_map m i = None \<Longrightarrow> fh_map m \<subseteq>\<^sub>m fh_map (add_handle c i p root m)"
  by (auto simp: add_handle_def map_le_def dom_def)

lemma get_or_create_add:
  assumes "path_to_fhid m (path_key p) = None" and "get_or_create_fh d e p root m = (h, m')"
  shows "m' = add_handle (fh_counter m + 1) (fh_counter m) p root m"
    and "h = encode_handle d e m' (fh_counter m) (fnv1a p) 1"
  using get_or_create_fresh [OF assms] by (simp_all add: add_handle_def)

lemma get_or_create_inv:
  assumes "em_inv m" and "0 < em_room m" and "get_or_create_fh d e p root m = (h, m')"
  shows "em_inv m' \<and> em_room m \<le> em_room m' + 1"
  using assms(1)
proof (cases rule: get_or_create_cases [of m p d e root])
  case (old i en)
  with assms show ?thesis by simp
next
  case fresh
  note m' = get_or_create_add(1) [OF fresh assms(3)]
  note c = em_room_less [OF assms(2)]
  have "em_inv m'"
    unfolding m' using assms(1) em_inv_fresh_id [OF assms(1)] c
    by (intro em_inv_add_handle) (auto simp: em_inv_def)
  moreover have "em_room m \<le> em_room m' + 1"
    using c(3) assms(2) by (simp add: m' add_handle_def em_room_def)
  ultimately show ?thesis by simp
qed

lemma verify_issued:
  assumes "mac_ok d" and "fh_hmac_key m' = fh_hmac_key m" and "i \<noteq> 0"
  shows "verify_and_decode_fhid d m' (encode_handle d e m i n g) = Some i"
  using assms by (simp add: verify_and_decode_fhid_def encode_handle_nonzero verify_encode)

lemma get_or_create_denotes:
  assumes "mac_ok d" and "em_inv m" and "get_or_create_fh d e p root m = (h, m')"
  shows "fh_denotes d m' h = Some (path_key p)"
  using assms(2)
proof (cases rule: get_or_create_cases [of m p d e root])
  case (old i en)
  then have "i \<noteq> 0" using assms(2) by (auto simp: em_inv_def)
  with old assms show ?thesis by (auto simp: fh_denotes_def verify_issued)
next
  case fresh
  note m' = get_or_create_add [OF fresh assms(3)]
  have "fh_counter m \<noteq> 0" using assms(2) by (simp add: em_inv_def)
  then have "verify_and_decode_fhid d m' h = Some (fh_counter m)"
    using m'(2) verify_issued [OF assms(1) refl] by simp
  with \<open>fh_counter m \<noteq> 0\<close> show ?thesis by (simp add: fh_denotes_def m'(1) add_handle_def)
qed

lemma fh_denotes_mono:
  assumes "fh_map m \<subseteq>\<^sub>m fh_map m'" and "fh_hmac_key m' = fh_hmac_key m" and "fh_denotes d m h = Some k"
  shows "fh_denotes d m' h = Some k"
proof -
  have v: "verify_and_decode_fhid d m' h = verify_and_decode_fhid d m h"
    by (simp add: verify_and_decode_fhid_def verify_fh_mac_def compute_fh_mac_def assms(2))
  from assms(3) obtain i en where "verify_and_decode_fhid d m h = Some i" "i \<noteq> 0"
    "fh_map m i = Some en" "path_key (real_path en) = k"
    by (auto simp: fh_denotes_def split: option.splits if_splits)
  moreover from this(3) have "fh_map m' i = Some en"
    using assms(1) by (auto simp: map_le_def dom_def)
  ultimately show ?thesis by (simp add: fh_denotes_def v)
qed

interpretation fh: handle_store "\<lambda>m. mac_ok d \<and> em_inv m" em_room "issue_fh d" "fh_denotes d" path_key
  for d
proof unfold_locales
  fix m e p h m' h' k
  assume g: "mac_ok d \<and> em_inv m" "0 < em_room m" and i: "issue_fh d e p m = (h, m')"
  have i': "get_or_create_fh d (fst e) p (snd e) m = (h, m')" using i by (simp add: issue_fh_def)
  show "fh_denotes d m' h = Some (path_key p)" using get_or_create_denotes i' g by blast
  show "(mac_ok d \<and> em_inv m') \<and> em_room m \<le> em_room m' + 1" using get_or_create_inv i' g by blast
  show "fh_denotes d m' h' = Some k" if "fh_denotes d m h' = Some k"
    using fh_denotes_mono [OF get_or_create_keeps(1,2) [OF _ i'] that] g by blast
qed

fun register_all :: "deps \<Rightarrow> (env \<times> path \<times> path) list \<Rightarrow> exports_manager \<Rightarrow> bytes list \<times> exports_manager" where
  "register_all d [] m = ([], m)"
| "register_all d ((e, p, root) # ps) m =
     (let (h, m1) = get_or_create_fh d e p root m; (hs, m2) = register_all d ps m1 in (h # hs, m2))"

lemma register_all_issue:
  "register_all d ps m = fh.issue_all d (map (\<lambda>(e, p, r). ((e, r), p)) ps) m"
  by (induction ps arbitrary: m) (auto simp: issue_fh_def split: prod.splits)

text \<open>
  C4: handles are stable and denote what they were issued for.  However many objects the
  server registers, in whatever order, every handle it issues denotes (the components of)
  its path afterwards and every handle that was valid before keeps its meaning, as long as the
  64-bit counter does not run out.
\<close>

theorem issued_handles_stay_valid:
  assumes "mac_ok d" and "em_inv m" and "length ps \<le> em_room m"
    and "register_all d ps m = (hs, m')"
  shows "map (fh_denotes d m') hs = map (\<lambda>(e, p, r). Some (path_key p)) ps
    \<and> (\<forall>h k. fh_denotes d m h = Some k \<longrightarrow> fh_denotes d m' h = Some k)"
proof -
  let ?ps = "map (\<lambda>(e, p, r). ((e, r), p)) ps"
  have l: "length ?ps \<le> em_room m" and i: "fh.issue_all d ?ps m = (hs, m')"
    using assms(3,4) by (simp_all add: register_all_issue)
  have "map (fh_denotes d m') hs = map (Some \<circ> path_key \<circ> snd) ?ps"
    using fh.issue_all_denotes [OF _ l i] assms(1,2) by blast
  moreover have "fh_denotes d m' h = Some k" if "fh_denotes d m h = Some k" for h k
    using fh.issue_all_keeps [OF _ l i that] assms(1,2) by blast
  ultimately show ?thesis by (auto simp: case_prod_unfold)
qed

theorem issued_handles_stay_valid_witness:
  "let (hs, m') = register_all sample_deps
       [(sample_env, bs ''D:/a'', bs ''D:''), (sample_env, bs ''D:/b'', bs ''D:'')] (em_new sample_env [])
   in map (fh_denotes sample_deps m') hs = [Some (path_key (bs ''D:/a'')), Some (path_key (bs ''D:/b''))]"
  using issued_handles_stay_valid [OF sample_mac_ok em_inv_new [of sample_env "[]"],
      of "[(sample_env, bs ''D:/a'', bs ''D:''), (sample_env, bs ''D:/b'', bs ''D:'')]"]
  by (simp add: em_room_def em_new_def case_prod_unfold)

section \<open>Rebuilding handles\<close>

lemma first_some_in: "first_some f xs = Some y \<Longrightarrow> \<exists>x \<in> set xs. f x = Some y"
  by (induction xs) (auto split: option.splits)

lemma find_path_by_inode_hash: "find_path_by_inode n s t dir = Some p \<Longrightarrow> fnv1a p = t"
proof (induction n arbitrary: dir p)
  case 0
  then show ?case by (simp split: if_splits)
next
  case (Suc n)
  then show ?case
    by (auto split: if_splits sum.splits dest!: first_some_in)
qed

lemma try_rebuild_cases:
  obtains "try_rebuild_fh s h m = m"
  | i p root where "decode_fhid h = Some i" "i \<noteq> 0" "i \<noteq> - 1" "fh_map m i = None"
      "try_rebuild_fh s h m = add_handle (if i \<ge> fh_counter m then i + 1 else fh_counter m) i p root m"
proof (cases "try_rebuild_fh s h m = m")
  case False
  then obtain i where i: "decode_fhid h = Some i" "i \<noteq> 0" "i \<noteq> - 1" "fh_map m i = None"
    by (cases "decode_fhid h") (auto simp: try_rebuild_fh_def split: if_splits)
  from False i obtain root p where "first_some (\<lambda>(_, ex). map_option (Pair (exp_path ex))
      (find_path_by_inode 8 s (u64_at h 8) (exp_path ex))) (exports m) = Some (root, p)"
    and l: "\<not> length h < 16"
    by (auto simp: try_rebuild_fh_def Let_def split: if_splits option.splits)
  moreover from this(1) have "fnv1a p = u64_at h 8"
    by (auto dest!: first_some_in find_path_by_inode_hash)
  ultimately have "try_rebuild_fh s h m
      = add_handle (if i \<ge> fh_counter m then i + 1 else fh_counter m) i p root m"
    using i by (simp add: try_rebuild_fh_def add_handle_def Let_def)
  with i that(2) show ?thesis by blast
qed (use that(1) in blast)

text \<open>
  \<open>PUTFH\<close> runs \<open>try_rebuild_fh\<close> on unverified bytes.  It keeps the store's invariant
  and the meaning of every valid handle; and it never makes a handle usable: a handle
  whose MAC the server does not accept (one from before a restart, which the comment says it
  is for, or a forged one) still resolves to nothing afterwards.
\<close>

theorem rebuild_is_safe:
  assumes "em_inv m"
  shows "em_inv (try_rebuild_fh s h m)
    \<and> (\<forall>h' k. fh_denotes d m h' = Some k \<longrightarrow> fh_denotes d (try_rebuild_fh s h m) h' = Some k)
    \<and> (verify_and_decode_fhid d m h = None \<longrightarrow> resolve_fh d s' (try_rebuild_fh s h m) h = None)"
proof -
  have key: "fh_hmac_key (try_rebuild_fh s h m) = fh_hmac_key m"
    by (cases rule: try_rebuild_cases [of s h m]) (simp_all add: add_handle_def)
  have "em_inv (try_rebuild_fh s h m) \<and> fh_map m \<subseteq>\<^sub>m fh_map (try_rebuild_fh s h m)"
  proof (cases rule: try_rebuild_cases [of s h m])
    case 1
    with assms show ?thesis by simp
  next
    case (2 i p root)
    have s: "i < i + 1"
      using 2(3) by (rule u64_less_succ)
    have "em_inv (try_rebuild_fh s h m)"
      unfolding 2(5) using assms 2 s
      by (intro em_inv_add_handle) (auto simp: not_le intro: less_le_trans less_imp_le)
    then show ?thesis using add_handle_keeps [OF 2(4)] by (simp add: 2(5))
  qed
  then have inv: "em_inv (try_rebuild_fh s h m)" and le: "fh_map m \<subseteq>\<^sub>m fh_map (try_rebuild_fh s h m)"
    by simp_all
  have v: "verify_and_decode_fhid d (try_rebuild_fh s h m) h = verify_and_decode_fhid d m h"
    by (simp add: verify_and_decode_fhid_def verify_fh_mac_def compute_fh_mac_def key)
  show ?thesis
    using inv fh_denotes_mono [OF le key] v by (simp add: resolve_fh_def)
qed

theorem rebuild_is_safe_witness:
  "\<forall>s. let m = try_rebuild_fh s (be64 5 @ be64 (fnv1a (bs ''D:/share''))) sample_em
   in em_inv m \<and> fh_counter m = 6
      \<and> resolve_fh sample_deps s m (be64 5 @ be64 (fnv1a (bs ''D:/share''))) = None"
proof
  fix s :: fs
  let ?h = "be64 5 @ be64 (fnv1a (bs ''D:/share''))"
  have i: "em_inv sample_em" by (simp add: em_inv_def sample_em_def)
  have "length ?h = 16" by simp
  then have "verify_fh_mac sample_deps sample_em ?h = None"
    unfolding verify_fh_mac_def FH_SIZE_def by simp
  then have v: "verify_and_decode_fhid sample_deps sample_em ?h = None"
    by (simp add: verify_and_decode_fhid_def be64_nonzero)
  have "find_path_by_inode 8 s (fnv1a (bs ''D:/share'')) (bs ''D:/share'') = Some (bs ''D:/share'')"
    by (simp add: numeral_eq_Suc)
  then have "fh_counter (try_rebuild_fh s ?h sample_em) = 6"
    by (simp add: try_rebuild_fh_def decode_fhid_def sample_em_def u64_at_append)
  then show "let m = try_rebuild_fh s ?h sample_em in em_inv m \<and> fh_counter m = 6
      \<and> resolve_fh sample_deps s m ?h = None"
    using rebuild_is_safe [OF i, of s ?h sample_deps s] v by (simp add: Let_def)
qed

text \<open>
  A forged \<open>PUTFH\<close> moves the handle counter.  \<open>try_rebuild_fh\<close> takes the id of an
  unverified handle as a lower bound for new ids: a handle with id \<open>2^64 - 2\<close> and the
  hash of an export's path (both known to any client) leaves the counter at \<open>2^64 - 1\<close>,
  so that the next object registered gets the id the server itself uses for the root of the
  pseudo file system, and the counter wraps to the id 0 that never resolves.
\<close>

theorem forged_handle_hijacks_counter:
  assumes "exports m = (name, ex) # rest"
    and "fh_map m (- 2) = None" and "fh_counter m \<le> - 2"
    and "path_to_fhid m (path_key p) = None" and "path_key p \<noteq> path_key (exp_path ex)"
    and "h = be64 (- 2) @ be64 (fnv1a (exp_path ex)) @ tail"
    and "get_or_create_fh d e p root (try_rebuild_fh s h m) = (h', m')"
  shows "fh_counter (try_rebuild_fh s h m) = - 1 \<and> decode_fhid h' = Some (- 1) \<and> fh_counter m' = 0"
proof -
  have f: "find_path_by_inode 8 s (fnv1a (exp_path ex)) (exp_path ex) = Some (exp_path ex)"
    by (simp add: numeral_eq_Suc)
  have r: "try_rebuild_fh s h m = add_handle (- 1) (- 2) (exp_path ex) (exp_path ex) m"
    using assms(1,2,3) f
    by (simp add: try_rebuild_fh_def assms(6) decode_fhid_def u64_at_append add_handle_def)
  have n: "path_to_fhid (try_rebuild_fh s h m) (path_key p) = None"
    using assms(4,5) by (simp add: r add_handle_def)
  show ?thesis
    using get_or_create_add [OF n assms(7)] by (simp add: r add_handle_def decode_encode_handle)
qed

theorem forged_handle_hijacks_counter_witness:
  "\<forall>s. let m = try_rebuild_fh s (be64 (- 2) @ be64 (fnv1a (bs ''D:/share''))) sample_em;
       (h', m') = get_or_create_fh sample_deps sample_env (bs ''D:/share/x'') (bs ''D:/share'') m
   in fh_counter m = - 1 \<and> decode_fhid h' = Some (- 1) \<and> fh_counter m' = 0"
proof
  fix s :: fs
  have k: "path_key (bs ''D:/share/x'') \<noteq> path_key (bs ''D:/share'')" by code_simp
  have c: "(1 :: u64) \<le> - 2" by code_simp
  obtain h' m' where g: "get_or_create_fh sample_deps sample_env (bs ''D:/share/x'') (bs ''D:/share'')
      (try_rebuild_fh s (be64 (- 2) @ be64 (fnv1a (bs ''D:/share''))) sample_em) = (h', m')" by fastforce
  show "let m = try_rebuild_fh s (be64 (- 2) @ be64 (fnv1a (bs ''D:/share''))) sample_em;
      (h', m') = get_or_create_fh sample_deps sample_env (bs ''D:/share/x'') (bs ''D:/share'') m
    in fh_counter m = - 1 \<and> decode_fhid h' = Some (- 1) \<and> fh_counter m' = 0"
    using forged_handle_hijacks_counter [of sample_em "bs ''D:/share''" _ "[]" "bs ''D:/share/x''" _ "[]",
        OF _ _ _ _ _ _ g] k g c
    by (simp add: sample_em_def Let_def)
qed

section \<open>Looking up a child stays inside the export\<close>

text \<open>
  File systems whose volumes are drives: mapped and local drives, which is what an export
  path names.
\<close>

definition drive_volume :: "bytes \<Rightarrow> bool" where
  "drive_volume v \<longleftrightarrow> (\<exists>c. v = [c, 0x3A] \<and> is_letter c)"

definition loc_wf :: "loc \<Rightarrow> bool" where
  "loc_wf l \<longleftrightarrow> drive_volume (fst l) \<and> list_all valid_name (snd l)"

definition drive_fs :: "fs \<Rightarrow> bool" where
  "drive_fs s \<longleftrightarrow> list_all (\<lambda>(l, i). loc_wf l) (entries s)"

lemma find_entry_in: "find_entry s l = Some (k, i) \<Longrightarrow> (k, i) \<in> set (entries s)"
  by (auto simp: find_entry_def find_Some_iff) (metis nth_mem)

lemma lookup_path_wf: "drive_fs s \<Longrightarrow> lookup_path s f p = Some (l, i) \<Longrightarrow> loc_wf l"
  by (auto simp: lookup_path_def drive_fs_def list_all_iff dest!: find_entry_in split: option.splits)

lemma pieces_no_sep:
  "list_all (\<lambda>c. \<not> sep c) n \<Longrightarrow> pieces sep acc n = [rev acc @ n]"
  "list_all (\<lambda>c. \<not> sep c) n \<Longrightarrow> sep c \<Longrightarrow> pieces sep acc (n @ c # r) = (rev acc @ n) # pieces sep [] r"
  by (induction n arbitrary: acc) simp_all

lemma pieces_join:
  assumes "list_all (\<lambda>n. list_all (\<lambda>c. \<not> sep c) n) (n # ns)" and "sep x"
  shows "pieces sep [] (n @ concat (map (\<lambda>m. x # m) ns)) = n # ns"
  using assms
proof (induction ns arbitrary: n)
  case Nil
  then show ?case by (simp add: pieces_no_sep)
next
  case (Cons m ns)
  then show ?case by (simp add: pieces_no_sep(2))
qed

lemma with_ends_fst: "map fst (with_ends n xs) = xs"
  by (induction xs arbitrary: n) simp_all

lemma valid_name_facts:
  assumes "valid_name n"
  shows "n \<noteq> []" "comp_of n = Normal n" "list_all (\<lambda>c. \<not> is_verbatim_sep c) n" "slash \<notin> set n"
  using assms by (auto simp: valid_name_def comp_of_def is_verbatim_sep_def reserved_char_def list_all_iff)

lemma parse_verbatim_disk:
  assumes "is_letter c" and "slash \<notin> set (take 1 body)"
  shows "parse_prefix ([0x5C, 0x5C, 0x3F, 0x5C, c, 0x3A, 0x5C] @ body) = Some (VerbatimDisk (ascii_upper c), 6)"
    (is "parse_prefix ?p = _")
proof -
  have c: "c \<noteq> slash" using assms(1) by (auto simp: is_letter_def)
  have t8: "take 8 ?p = [0x5C, 0x5C, 0x3F, 0x5C, c, 0x3A, 0x5C] @ take 1 body" by simp
  have n: "norm8 ?p = [0x5C, 0x5C, 0x3F, 0x5C, c, 0x3A, 0x5C]
      @ map (\<lambda>c. if c = slash then backslash else c) (take 1 body) @ drop 8 ?p"
    unfolding norm8_def t8 using c by simp
  have s: "starts_bytes verbatim_start (norm8 ?p)"
    unfolding n by (simp add: starts_bytes_def verbatim_start_def)
  have u: "\<not> starts_bytes unc_start (drop 4 (norm8 ?p))"
    unfolding n by (simp add: starts_bytes_def unc_start_def)
  have nos: "slash \<notin> set (take 8 ?p)" unfolding t8 using assms(2) c by simp
  have d: "drop 4 ?p = [c, 0x3A, 0x5C] @ body" by simp
  show ?thesis
    unfolding parse_prefix_def Let_def d using s u nos assms(1) by simp
qed

lemma loc_text_drive:
  assumes "loc_wf (v, ns)"
  shows "\<exists>c. v = [c, 0x3A] \<and> is_letter c \<and>
    parse_prefix (loc_text (v, ns)) = Some (VerbatimDisk (ascii_upper c), 6)
    \<and> components (loc_text (v, ns)) = RootDir # map Normal ns"
proof -
  obtain c where v: "v = [c, 0x3A]" "is_letter c" and ns: "list_all valid_name ns"
    using assms by (auto simp: loc_wf_def drive_volume_def)
  define body where "body = (case ns of [] \<Rightarrow> [] | n # r \<Rightarrow> n @ concat (map (\<lambda>m. backslash # m) r))"
  have t: "loc_text (v, ns) = [0x5C, 0x5C, 0x3F, 0x5C, c, 0x3A, 0x5C] @ body"
    by (simp add: loc_text_def v verbatim_start_def body_def split: list.splits)
  have "slash \<notin> set body"
    using ns by (auto simp: body_def list_all_iff dest: valid_name_facts(4) split: list.splits if_splits)
  then have b1: "slash \<notin> set (take 1 body)" by (blast dest: in_set_takeD)
  have pre: "parse_prefix (loc_text (v, ns)) = Some (VerbatimDisk (ascii_upper c), 6)"
    unfolding t using v(2) b1 by (rule parse_verbatim_disk)
  have verb: "path_prefix (loc_text (v, ns)) = Some (VerbatimDisk (ascii_upper c))"
    "prefix_len (loc_text (v, ns)) = 6"
    by (simp_all add: path_prefix_def prefix_len_def pre)
  have sep: "path_sep (loc_text (v, ns)) = is_verbatim_sep"
    by (simp add: path_sep_def verb is_verbatim_def)
  have root: "physical_root (loc_text (v, ns))"
    unfolding physical_root_def verb sep by (simp add: t is_verbatim_sep_def)
  have start: "body_start (loc_text (v, ns)) = 7" by (simp add: body_start_def verb root)
  have pcs: "pieces is_verbatim_sep [] body = (if ns = [] then [[]] else ns)"
  proof (cases ns)
    case Nil
    then show ?thesis by (simp add: body_def)
  next
    case (Cons n r)
    have "list_all (\<lambda>n. list_all (\<lambda>c. \<not> is_verbatim_sep c) n) (n # r)"
      using ns [unfolded Cons] by (rule list.pred_mono_strong) (rule valid_name_facts(3))
    then show ?thesis
      using pieces_join [of is_verbatim_sep n r backslash] by (simp add: body_def Cons is_verbatim_sep_def)
  qed
  have "map (\<lambda>(x, _). comp_of x) (body_pieces (loc_text (v, ns)))
      = map comp_of (filter (\<lambda>x. x \<noteq> []) (if ns = [] then [[]] else ns))"
  proof -
    have "drop 7 (loc_text (v, ns)) = body" by (simp add: t)
    then have "body_pieces (loc_text (v, ns))
        = filter (\<lambda>(x, n). x \<noteq> []) (with_ends 7 (if ns = [] then [[]] else ns))"
      by (simp add: body_pieces_def start sep pcs verb is_verbatim_def Let_def)
    moreover have "map (\<lambda>(x, _). comp_of x) (filter (\<lambda>(x, n). x \<noteq> []) (with_ends k xs))
        = map comp_of (filter (\<lambda>x. x \<noteq> []) xs)" for k and xs :: "bytes list"
      by (induction xs arbitrary: k) simp_all
    ultimately show ?thesis by simp
  qed
  also have "\<dots> = map Normal ns"
    using ns by (auto simp: list_all_iff valid_name_facts filter_id_conv intro!: map_cong)
  finally have "components (loc_text (v, ns)) = RootDir # map Normal ns"
    by (simp add: components_def has_root_def root)
  with v pre show ?thesis by blast
qed

lemma loc_text_starts_with:
  assumes "loc_wf (v, ns)" and "loc_wf (v', ns')"
    and "path_starts_with (loc_text (v, ns)) (loc_text (v', ns'))"
  shows "ascii_upper (v ! 0) = ascii_upper (v' ! 0) \<and> take (length ns') ns = ns'"
proof -
  obtain c where c: "v = [c, 0x3A]" "path_prefix (loc_text (v, ns)) = Some (VerbatimDisk (ascii_upper c))"
    "components (loc_text (v, ns)) = RootDir # map Normal ns"
    using loc_text_drive [OF assms(1)] by (auto simp: path_prefix_def)
  obtain c' where c': "v' = [c', 0x3A]" "path_prefix (loc_text (v', ns')) = Some (VerbatimDisk (ascii_upper c'))"
    "components (loc_text (v', ns')) = RootDir # map Normal ns'"
    using loc_text_drive [OF assms(2)] by (auto simp: path_prefix_def)
  have "map Normal (take (length ns') ns) = map Normal ns'"
    using assms(3) unfolding path_starts_with_def c(2,3) c'(2,3) by (simp add: take_map)
  then have "take (length ns') ns = ns'" by (rule map_injective) (simp add: inj_def)
  moreover have "ascii_upper c = ascii_upper c'"
    using assms(3) by (simp add: path_starts_with_def c(2) c'(2))
  ultimately show ?thesis by (simp add: c(1) c'(1))
qed

lemma canonicalize_loc:
  assumes "canonicalize s p = Some t"
  obtains l i where "lookup_path s True p = Some (l, i)" "t = loc_text l"
  using assms by (auto simp: canonicalize_def split: option.splits if_splits)

lemma lookup_child_Some:
  assumes "lookup_child d e s dir_fh name m = (Some (h, child), m')"
  obtains dir root where "\<not> unsafe_name name" "resolve_fh d s m dir_fh = Some dir"
    "child = path_join dir name"
    "root = (case get_fh_export_root d m dir_fh of Some r \<Rightarrow> r | None \<Rightarrow> dir)"
    "get_or_create_fh d e child root m = (h, m')"
    "path_exists s child \<Longrightarrow> \<exists>c. canonicalize s (to_extended_path (cwd s) child) = Some c
       \<and> path_starts_with c (case canonicalize s (to_extended_path (cwd s) root) of Some r \<Rightarrow> r | None \<Rightarrow> root)"
  using assms
  by (auto simp: lookup_child_def Let_def split: if_splits option.splits prod.splits)

text \<open>
  C10: LOOKUP cannot leave the export.  When \<open>lookup_child\<close> returns a handle for an
  existing child of an object below the export root \<open>root\<close>, then the location its path leads to,
  every symbolic link on the way followed, lies at or below the location of the export root;
  the new handle denotes the child and all earlier handles keep their meaning.
\<close>

theorem lookup_child_confined:
  assumes "lookup_child d e s dir_fh name m = (Some (h, child), m')"
    and "drive_fs s" and "mac_ok d" and "em_inv m" and "path_exists s child"
    and "get_fh_export_root d m dir_fh = Some root"
    and "canonicalize s (to_extended_path (cwd s) root) \<noteq> None"
  shows "(\<exists>v ns i v' ns' i'.
       lookup_path s True (to_extended_path (cwd s) child) = Some ((v, ns), i)
       \<and> lookup_path s True (to_extended_path (cwd s) root) = Some ((v', ns'), i')
       \<and> ascii_upper (v ! 0) = ascii_upper (v' ! 0) \<and> take (length ns') ns = ns')
    \<and> fh_denotes d m' h = Some (path_key child)
    \<and> (\<forall>h' k. fh_denotes d m h' = Some k \<longrightarrow> fh_denotes d m' h' = Some k)"
proof -
  from lookup_child_Some [OF assms(1)] obtain dir where
    g: "get_or_create_fh d e child root m = (h, m')"
    and c: "\<exists>c. canonicalize s (to_extended_path (cwd s) child) = Some c
       \<and> path_starts_with c (case canonicalize s (to_extended_path (cwd s) root) of Some r \<Rightarrow> r | None \<Rightarrow> root)"
    using assms(5,6) by (metis option.simps(5))
  obtain r where r: "canonicalize s (to_extended_path (cwd s) root) = Some r" using assms(7) by blast
  obtain c where c: "canonicalize s (to_extended_path (cwd s) child) = Some c" "path_starts_with c r"
    using c r by auto
  obtain v' ns' i' where r': "lookup_path s True (to_extended_path (cwd s) root) = Some ((v', ns'), i')"
    "r = loc_text (v', ns')" using canonicalize_loc [OF r] by (metis surj_pair)
  obtain v ns i where c': "lookup_path s True (to_extended_path (cwd s) child) = Some ((v, ns), i)"
    "c = loc_text (v, ns)" using canonicalize_loc [OF c(1)] by (metis surj_pair)
  have "ascii_upper (v ! 0) = ascii_upper (v' ! 0) \<and> take (length ns') ns = ns'"
    using lookup_path_wf [OF assms(2) c'(1)] lookup_path_wf [OF assms(2) r'(1)] c(2)
    by (intro loc_text_starts_with) (simp_all add: c'(2) r'(2))
  with c' r' show ?thesis
    using get_or_create_denotes [OF assms(3,4) g]
      fh_denotes_mono [OF get_or_create_keeps(1,2) [OF assms(4) g]] by blast
qed

text \<open>A drive with the directory \<open>share\<close> and the file \<open>f\<close> in it.\<close>

definition sample_fs :: fs where
  "sample_fs =
     \<lparr>entries = [((bs ''D:'', []), 0), ((bs ''D:'', [bs ''share'']), 1),
                 ((bs ''D:'', [bs ''share'', bs ''f'']), 2)],
      inodes = map_of [(0, \<lparr>node = Dir, created = 1, modified = 1, accessed = 1\<rparr>),
                       (1, \<lparr>node = Dir, created = 2, modified = 2, accessed = 2\<rparr>),
                       (2, \<lparr>node = File [65, 66, 67], created = 3, modified = 1500000000, accessed = 3\<rparr>)],
      next_ino = 3, cwd = None, fold_name = (\<lambda>x. x), max_file = 100, deny = (\<lambda>_ _. False)\<rparr>"

definition sample_root_fh :: bytes where
  "sample_root_fh = fst (get_or_create_fh sample_deps sample_env (bs ''D:/share'') (bs ''D:/share'') sample_em)"

definition sample_em1 :: exports_manager where
  "sample_em1 = snd (get_or_create_fh sample_deps sample_env (bs ''D:/share'') (bs ''D:/share'') sample_em)"

lemma sample_em_inv: "em_inv sample_em"
  by (simp add: em_inv_def sample_em_def)

lemma sample_em1_eq:
  "sample_em1 = add_handle 2 1 (bs ''D:/share'') (bs ''D:/share'') sample_em"
  "sample_root_fh = encode_handle sample_deps sample_env sample_em1 1 (fnv1a (bs ''D:/share'')) 1"
proof -
  have g: "get_or_create_fh sample_deps sample_env (bs ''D:/share'') (bs ''D:/share'') sample_em
      = (sample_root_fh, sample_em1)" by (simp add: sample_root_fh_def sample_em1_def)
  have n: "path_to_fhid sample_em (path_key (bs ''D:/share'')) = None" by (simp add: sample_em_def)
  show "sample_em1 = add_handle 2 1 (bs ''D:/share'') (bs ''D:/share'') sample_em"
    "sample_root_fh = encode_handle sample_deps sample_env sample_em1 1 (fnv1a (bs ''D:/share'')) 1"
    using get_or_create_add [OF n g] by (simp_all add: sample_em_def)
qed

lemma sample_em1_inv: "em_inv sample_em1"
  unfolding sample_em1_eq(1)
  by (rule em_inv_add_handle [OF sample_em_inv]) (simp_all add: sample_em_def)

lemma sample_fs_facts:
  "path_exists sample_fs (bs ''D:/share'')" "\<not> path_is_symlink sample_fs (bs ''D:/share'')"
  "path_exists sample_fs (path_join (bs ''D:/share'') (bs ''f''))"
  "canonicalize sample_fs (to_extended_path (cwd sample_fs) (path_join (bs ''D:/share'') (bs ''f'')))
     = Some (verbatim_start @ bs ''D:'' @ [backslash] @ bs ''share'' @ [backslash] @ bs ''f'')"
  "canonicalize sample_fs (to_extended_path (cwd sample_fs) (bs ''D:/share''))
     = Some (verbatim_start @ bs ''D:'' @ [backslash] @ bs ''share'')"
  "path_starts_with (verbatim_start @ bs ''D:'' @ [backslash] @ bs ''share'' @ [backslash] @ bs ''f'')
     (verbatim_start @ bs ''D:'' @ [backslash] @ bs ''share'')"
  by code_simp+

lemma sample_resolve:
  "verify_and_decode_fhid sample_deps sample_em1 sample_root_fh = Some 1"
  "resolve_fh sample_deps sample_fs sample_em1 sample_root_fh = Some (bs ''D:/share'')"
  "get_fh_export_root sample_deps sample_em1 sample_root_fh = Some (bs ''D:/share'')"
proof -
  show v: "verify_and_decode_fhid sample_deps sample_em1 sample_root_fh = Some 1"
    unfolding sample_em1_eq(2) by (rule verify_issued [OF sample_mac_ok]) simp_all
  show "resolve_fh sample_deps sample_fs sample_em1 sample_root_fh = Some (bs ''D:/share'')"
    "get_fh_export_root sample_deps sample_em1 sample_root_fh = Some (bs ''D:/share'')"
    using v sample_fs_facts(1,2)
    by (simp_all add: resolve_fh_def get_fh_export_root_def sample_em1_eq(1) add_handle_def)
qed

theorem lookup_child_confined_witness:
  "\<exists>h m'. lookup_child sample_deps sample_env sample_fs sample_root_fh (bs ''f'') sample_em1
        = (Some (h, path_join (bs ''D:/share'') (bs ''f'')), m')
     \<and> fh_denotes sample_deps m' h = Some (path_key (path_join (bs ''D:/share'') (bs ''f'')))"
proof -
  let ?child = "path_join (bs ''D:/share'') (bs ''f'')"
  obtain h m' where g: "get_or_create_fh sample_deps sample_env ?child (bs ''D:/share'') sample_em1 = (h, m')"
    by fastforce
  have u: "\<not> unsafe_name (bs ''f'')" by code_simp
  have l: "lookup_child sample_deps sample_env sample_fs sample_root_fh (bs ''f'') sample_em1
      = (Some (h, ?child), m')"
    using u g sample_fs_facts(3-6) by (simp add: lookup_child_def sample_resolve Let_def)
  have d: "drive_fs sample_fs" by code_simp
  show ?thesis
    using lookup_child_confined [OF l d sample_mac_ok sample_em1_inv sample_fs_facts(3) sample_resolve(3)]
      sample_fs_facts(5) l by blast
qed

end
