(* ===== verification/Nfs3.thy ===== *)
theory Nfs3
  imports Exports
begin

text \<open>
  The NFSv3 server of \<open>src/nfs/protocol.rs\<close>: the dispatcher \<open>handle_request\<close> and every
  procedure handler.  A handler takes the shared state (the file system and the exports
  manager) and returns the optional reply with the new state, or \<open>None\<close> when it panics;
  the inner \<open>None\<close> is a request the server does not answer.  One reading of the clock
  serves a whole request.
\<close>

section \<open>Shared state and reply helpers\<close>

record shared =
  the_fs :: fs
  em :: exports_manager

type_synonym 'a v3_result = "(bytes option \<times> 'a shared_scheme) option"

definition MAX_XDR_OPAQUE :: nat where "MAX_XDR_OPAQUE = 4 * 1024 * 1024"

definition NFS3_OK :: u32 where "NFS3_OK = 0"
definition NFS3ERR_NOENT :: u32 where "NFS3ERR_NOENT = 2"
definition NFS3ERR_IO :: u32 where "NFS3ERR_IO = 5"
definition NFS3ERR_ROFS :: u32 where "NFS3ERR_ROFS = 30"
definition NFS3ERR_NOTEMPTY :: u32 where "NFS3ERR_NOTEMPTY = 66"
definition NFS3ERR_STALE :: u32 where "NFS3ERR_STALE = 70"
definition NFS3ERR_NOTSUPP :: u32 where "NFS3ERR_NOTSUPP = 10004"
definition NF3REG :: u32 where "NF3REG = 1"
definition NF3DIR :: u32 where "NF3DIR = 2"

definition ext :: "'a shared_scheme \<Rightarrow> path \<Rightarrow> path" where
  "ext st p = to_extended_path (cwd (the_fs st)) p"

definition make_error_reply :: "bytes \<Rightarrow> u32 \<Rightarrow> bytes" where
  "make_error_reply xid nfs_status = make_rpc_reply xid @ be32 nfs_status @ [0, 0, 0, 0]"

definition v3_parse_fh :: "bytes \<Rightarrow> nat \<Rightarrow> (bytes \<times> nat) option option" where
  "v3_parse_fh request off =
     (if off + 4 > length request then Some None
      else do {
        fl \<leftarrow> rd32 request off;
        let fh_len = unat fl;
        if off + 4 + fh_len > length request then Some None
        else do {
          fh \<leftarrow> slice request (off + 4) (off + 4 + fh_len);
          Some (Some (fh, 4 + pad4 fh_len))
        }
      })"

text \<open>The handle at the start of the arguments, or no reply.\<close>

definition with_fh :: "bytes \<Rightarrow> nat \<Rightarrow> 'a shared_scheme \<Rightarrow> (bytes \<Rightarrow> nat \<Rightarrow> 'a v3_result) \<Rightarrow> 'a v3_result" where
  "with_fh request off st k = do {
     r \<leftarrow> v3_parse_fh request off;
     (case r of None \<Rightarrow> Some (None, st) | Some (fh_data, fh_consumed) \<Rightarrow> k fh_data fh_consumed)
   }"

text \<open>A name with its length, checked against the end of the request.\<close>

definition with_name :: "bytes \<Rightarrow> nat \<Rightarrow> 'a shared_scheme \<Rightarrow> (bytes \<Rightarrow> 'a v3_result) \<Rightarrow> 'a v3_result" where
  "with_name request name_off st k =
     (if name_off + 4 > length request then Some (None, st)
      else do {
        nl \<leftarrow> rd32 request name_off;
        let name_len = unat nl;
        if name_off + 4 + name_len > length request then Some (None, st)
        else do {
          raw \<leftarrow> slice request (name_off + 4) (name_off + 4 + name_len);
          k (utf8_lossy raw)
        }
      })"

definition mtime_secs :: "inode option \<Rightarrow> u64" where
  "mtime_secs meta =
     (case meta of None \<Rightarrow> 0
      | Some md \<Rightarrow> (case since_epoch (modified md) of None \<Rightarrow> 0 | Some t \<Rightarrow> as_secs t))"

definition build_fattr3 :: "deps \<Rightarrow> 'a shared_scheme \<Rightarrow> path \<Rightarrow> bytes" where
  "build_fattr3 d st p =
     (let meta = metadata (the_fs st) (ext st p);
          is_dir = (case meta of Some md \<Rightarrow> md_is_dir md | None \<Rightarrow> False);
          size = (case meta of Some md \<Rightarrow> of_nat (md_len md) | None \<Rightarrow> 0) :: u64;
          secs = (ucast (mtime_secs meta)) :: u32;
          fileid = hash_path d (path_key p);
          ftype = (if is_dir then NF3DIR else NF3REG);
          mode = (if is_dir then 0x1ED else 0x1A4)
      in be32 ftype @ be32 mode @ be32 1 @ be32 0 @ be32 0
         @ be64 size @ be64 size @ replicate 8 0 @ be64 1 @ be64 fileid
         @ be32 secs @ be32 0 @ be32 secs @ be32 0 @ be32 secs @ be32 0)"

definition make_post_op_attr :: "deps \<Rightarrow> 'a shared_scheme \<Rightarrow> path option \<Rightarrow> bytes" where
  "make_post_op_attr d st p =
     (case p of None \<Rightarrow> [0, 0, 0, 0] | Some q \<Rightarrow> [0, 0, 0, 1] @ build_fattr3 d st q)"

definition make_wcc_data :: bytes where
  "make_wcc_data = [0, 0, 0, 0] @ [0, 0, 0, 0]"

abbreviation resolve_st :: "deps \<Rightarrow> 'a shared_scheme \<Rightarrow> bytes \<Rightarrow> path option" where
  "resolve_st d st fh \<equiv> resolve_fh d (the_fs st) (em st) fh"

definition root_or :: "deps \<Rightarrow> 'a shared_scheme \<Rightarrow> bytes \<Rightarrow> path \<Rightarrow> path" where
  "root_or d st fh dflt = (case get_fh_export_root d (em st) fh of Some r \<Rightarrow> r | None \<Rightarrow> dflt)"

text \<open>Registers a path in the handle store of the state.\<close>

definition new_fh_st :: "deps \<Rightarrow> env \<Rightarrow> path \<Rightarrow> path \<Rightarrow> 'a shared_scheme \<Rightarrow> bytes \<times> 'a shared_scheme" where
  "new_fh_st d e p root st =
     (let (fh, m) = get_or_create_fh d e p root (em st) in (fh, st\<lparr>em := m\<rparr>))"

section \<open>Procedures without side effects\<close>

definition v3_null :: "bytes \<Rightarrow> bytes" where
  "v3_null xid = make_rpc_reply xid"

definition v3_getattr :: "deps \<Rightarrow> bytes \<Rightarrow> bytes \<Rightarrow> nat \<Rightarrow> 'a shared_scheme \<Rightarrow> 'a v3_result" where
  "v3_getattr d xid request off st =
     with_fh request off st (\<lambda>fh_data _.
       let p = (case resolve_st d st fh_data of Some p \<Rightarrow> p | None \<Rightarrow> [0x2E])
       in Some (Some (make_rpc_reply xid @ be32 NFS3_OK @ build_fattr3 d st p), st))"

definition v3_setattr :: "deps \<Rightarrow> bytes \<Rightarrow> bytes \<Rightarrow> nat \<Rightarrow> 'a shared_scheme \<Rightarrow> 'a v3_result" where
  "v3_setattr d xid request off st =
     with_fh request off st (\<lambda>fh_data _.
       if is_read_only d (em st) fh_data
       then Some (Some (make_rpc_reply xid @ be32 NFS3ERR_ROFS @ make_wcc_data), st)
       else Some (Some (make_rpc_reply xid @ be32 NFS3_OK @ make_wcc_data), st))"

definition v3_lookup :: "deps \<Rightarrow> env \<Rightarrow> bytes \<Rightarrow> bytes \<Rightarrow> nat \<Rightarrow> 'a shared_scheme \<Rightarrow> 'a v3_result" where
  "v3_lookup d e xid request off st =
     with_fh request off st (\<lambda>dir_fh fh_consumed.
       with_name request (off + fh_consumed) st (\<lambda>name.
         case lookup_child d e (the_fs st) dir_fh name (em st) of
           (None, m) \<Rightarrow>
             Some (Some (make_rpc_reply xid @ be32 NFS3ERR_NOENT @ [0, 0, 0, 0]), st\<lparr>em := m\<rparr>)
         | (Some (child_fh, child_path), m) \<Rightarrow>
             (let st' = st\<lparr>em := m\<rparr>
              in Some (Some (make_rpc_reply xid @ be32 NFS3_OK
                   @ be32 (of_nat (length child_fh)) @ child_fh
                   @ make_post_op_attr d st' (Some child_path)
                   @ make_post_op_attr d st' (resolve_st d st' dir_fh)), st'))))"

definition v3_access :: "deps \<Rightarrow> bytes \<Rightarrow> bytes \<Rightarrow> nat \<Rightarrow> 'a shared_scheme \<Rightarrow> 'a v3_result" where
  "v3_access d xid request off st =
     with_fh request off st (\<lambda>fh_data _.
       Some (Some (make_rpc_reply xid @ be32 NFS3_OK
         @ make_post_op_attr d st (resolve_st d st fh_data) @ be32 0x3F), st))"

definition v3_readlink :: "deps \<Rightarrow> bytes \<Rightarrow> bytes \<Rightarrow> nat \<Rightarrow> 'a shared_scheme \<Rightarrow> 'a v3_result" where
  "v3_readlink d xid request off st =
     with_fh request off st (\<lambda>fh_data _.
       Some (Some (make_rpc_reply xid @ be32 NFS3_OK
         @ make_post_op_attr d st (resolve_st d st fh_data) @ be32 0), st))"

text \<open>The bytes of a file from \<open>off\<close>, at most \<open>count\<close>, and whether they reach its end.\<close>

definition read_window :: "bytes \<Rightarrow> nat \<Rightarrow> nat \<Rightarrow> (bytes \<times> bool) option" where
  "read_window file_data off count =
     (let start = min off (length file_data); fin = min (start + count) (length file_data)
      in do {
        dat \<leftarrow> slice file_data start fin;
        Some (dat, fin \<ge> length file_data)
      })"

definition v3_read :: "deps \<Rightarrow> bytes \<Rightarrow> bytes \<Rightarrow> nat \<Rightarrow> 'a shared_scheme \<Rightarrow> 'a v3_result" where
  "v3_read d xid request off st =
     with_fh request off st (\<lambda>fh_data fh_consumed.
       let args_off = off + fh_consumed in
       if args_off + 12 > length request then Some (None, st)
       else do {
         file_offset \<leftarrow> rd64 request args_off;
         count \<leftarrow> rd32 request (args_off + 8);
         let p = resolve_st d st fh_data;
         (dat, eof) \<leftarrow>
           (case p of
              None \<Rightarrow> Some ([], True)
            | Some q \<Rightarrow>
                (case fs_read (the_fs st) (ext st q) of
                   Inl _ \<Rightarrow> Some ([], True)
                 | Inr file_data \<Rightarrow> read_window file_data (unat file_offset) (unat count)));
         Some (Some (make_rpc_reply xid @ be32 NFS3_OK @ make_post_op_attr d st p
           @ be32 (of_nat (length dat)) @ be32 (u32_bool eof) @ xdr_opaque dat), st)
       })"

definition v3_fsstat :: "deps \<Rightarrow> bytes \<Rightarrow> bytes \<Rightarrow> nat \<Rightarrow> 'a shared_scheme \<Rightarrow> 'a v3_result" where
  "v3_fsstat d xid request off st =
     with_fh request off st (\<lambda>fh_data _.
       Some (Some (make_rpc_reply xid @ be32 NFS3_OK
         @ make_post_op_attr d st (resolve_st d st fh_data)
         @ be64 (100 * 1024 * 1024 * 1024) @ be64 (50 * 1024 * 1024 * 1024)
         @ be64 (50 * 1024 * 1024 * 1024) @ be64 1000000 @ be64 500000 @ be32 0), st))"

definition v3_fsinfo :: "deps \<Rightarrow> bytes \<Rightarrow> bytes \<Rightarrow> nat \<Rightarrow> 'a shared_scheme \<Rightarrow> 'a v3_result" where
  "v3_fsinfo d xid request off st =
     with_fh request off st (\<lambda>fh_data _.
       Some (Some (make_rpc_reply xid @ be32 NFS3_OK
         @ make_post_op_attr d st (resolve_st d st fh_data)
         @ be32 65536 @ be32 65536 @ be32 4096 @ be32 65536 @ be32 65536 @ be32 4096 @ be32 65536
         @ be64 (- 1) @ be32 0 @ be32 1 @ be32 0x1B), st))"

definition v3_pathconf :: "deps \<Rightarrow> bytes \<Rightarrow> bytes \<Rightarrow> nat \<Rightarrow> 'a shared_scheme \<Rightarrow> 'a v3_result" where
  "v3_pathconf d xid request off st =
     with_fh request off st (\<lambda>fh_data _.
       Some (Some (make_rpc_reply xid @ be32 NFS3_OK
         @ make_post_op_attr d st (resolve_st d st fh_data)
         @ be32 1024 @ be32 255 @ be32 0 @ be32 0 @ be32 1 @ be32 1), st))"

definition v3_commit :: "bytes \<Rightarrow> 'a shared_scheme \<Rightarrow> 'a v3_result" where
  "v3_commit xid st =
     Some (Some (make_rpc_reply xid @ be32 NFS3_OK @ make_wcc_data @ replicate 8 0), st)"

section \<open>Procedures that change files\<close>

text \<open>
  Seek and write on an open file, as WRITE does; the count is 0 when a step fails.  A file
  that \<open>create(true)\<close> made stays when the seek or the write fails.
\<close>

definition v3_write_file :: "env \<Rightarrow> fs \<Rightarrow> path \<Rightarrow> nat \<Rightarrow> bytes \<Rightarrow> nat \<times> fs" where
  "v3_write_file e s p file_offset write_data =
     (case fs_open_create e s p of
        Inl _ \<Rightarrow> (0, s)
      | Inr (i, s1) \<Rightarrow>
          if \<not> seek_ok file_offset then (0, s1)
          else (case fs_write_at e i file_offset write_data s1 of
              Inl _ \<Rightarrow> (0, s1)
            | Inr s2 \<Rightarrow> (length write_data, s2)))"

definition v3_write_reply :: "bytes \<Rightarrow> u32 \<Rightarrow> nat \<Rightarrow> bytes" where
  "v3_write_reply xid st written =
     make_rpc_reply xid @ be32 st @ make_wcc_data @ be32 (of_nat written) @ be32 2 @ replicate 8 0"

definition v3_write :: "deps \<Rightarrow> env \<Rightarrow> bytes \<Rightarrow> bytes \<Rightarrow> nat \<Rightarrow> 'a shared_scheme \<Rightarrow> 'a v3_result" where
  "v3_write d e xid request off st =
     with_fh request off st (\<lambda>fh_data fh_consumed.
       if is_read_only d (em st) fh_data then Some (Some (v3_write_reply xid NFS3ERR_ROFS 0), st)
       else let args_off = off + fh_consumed in
       if args_off + 20 > length request then Some (None, st)
       else do {
         file_offset \<leftarrow> rd64 request args_off;
         count \<leftarrow> rd32 request (args_off + 8);
         let data_off = args_off + 16;
         if data_off + 4 > length request then Some (None, st)
         else do {
           dl \<leftarrow> rd32 request data_off;
           let data_len = unat dl;
           if data_off + 4 + data_len > length request then Some (None, st)
           else do {
             write_data \<leftarrow> slice request (data_off + 4) (data_off + 4 + data_len);
             Some (case resolve_st d st fh_data of
                 None \<Rightarrow> (Some (v3_write_reply xid NFS3_OK 0), st)
               | Some p \<Rightarrow>
                   (let (written, s') = v3_write_file e (the_fs st) (ext st p) (unat file_offset) write_data
                    in (Some (v3_write_reply xid NFS3_OK written), st\<lparr>the_fs := s'\<rparr>)))
           }
         }
       })"

definition v3_rofs :: "bytes \<Rightarrow> 'a shared_scheme \<Rightarrow> 'a v3_result" where
  "v3_rofs xid st = Some (Some (make_rpc_reply xid @ be32 NFS3ERR_ROFS @ make_wcc_data), st)"

text \<open>The reply of CREATE and MKDIR for the object at \<open>p\<close>.\<close>

definition v3_made :: "deps \<Rightarrow> env \<Rightarrow> bytes \<Rightarrow> bytes \<Rightarrow> path \<Rightarrow> path \<Rightarrow> 'a shared_scheme \<Rightarrow> 'a v3_result" where
  "v3_made d e xid dir_fh dp p st =
     (let root = root_or d st dir_fh dp;
          (new_fh, st') = new_fh_st d e p root st
      in Some (Some (make_rpc_reply xid @ be32 NFS3_OK @ [0, 0, 0, 1]
           @ be32 (of_nat (length new_fh)) @ new_fh @ make_post_op_attr d st' (Some p)
           @ make_wcc_data), st'))"

definition v3_create :: "deps \<Rightarrow> env \<Rightarrow> bytes \<Rightarrow> bytes \<Rightarrow> nat \<Rightarrow> 'a shared_scheme \<Rightarrow> 'a v3_result" where
  "v3_create d e xid request off st =
     with_fh request off st (\<lambda>dir_fh fh_consumed.
       if is_read_only d (em st) dir_fh then v3_rofs xid st
       else with_name request (off + fh_consumed) st (\<lambda>name.
         case resolve_st d st dir_fh of
           None \<Rightarrow> Some (Some (make_rpc_reply xid @ be32 NFS3ERR_STALE @ make_wcc_data), st)
         | Some dp \<Rightarrow>
             (let new_file = path_join dp name;
                  s' = (case fs_create_file e (the_fs st) (ext st new_file) of
                          Inl _ \<Rightarrow> the_fs st | Inr s1 \<Rightarrow> s1)
              in v3_made d e xid dir_fh dp new_file (st\<lparr>the_fs := s'\<rparr>))))"

definition v3_mkdir :: "deps \<Rightarrow> env \<Rightarrow> bytes \<Rightarrow> bytes \<Rightarrow> nat \<Rightarrow> 'a shared_scheme \<Rightarrow> 'a v3_result" where
  "v3_mkdir d e xid request off st =
     with_fh request off st (\<lambda>dir_fh fh_consumed.
       if is_read_only d (em st) dir_fh then v3_rofs xid st
       else with_name request (off + fh_consumed) st (\<lambda>name.
         case resolve_st d st dir_fh of
           None \<Rightarrow> Some (Some (make_rpc_reply xid @ be32 NFS3ERR_STALE @ make_wcc_data), st)
         | Some dp \<Rightarrow>
             (let new_dir = path_join dp name;
                  s' = snd (fs_create_dir_all e (the_fs st) (ext st new_dir))
              in v3_made d e xid dir_fh dp new_dir (st\<lparr>the_fs := s'\<rparr>))))"

definition v3_remove :: "deps \<Rightarrow> bytes \<Rightarrow> bytes \<Rightarrow> nat \<Rightarrow> 'a shared_scheme \<Rightarrow> 'a v3_result" where
  "v3_remove d xid request off st =
     with_fh request off st (\<lambda>dir_fh fh_consumed.
       if is_read_only d (em st) dir_fh then v3_rofs xid st
       else with_name request (off + fh_consumed) st (\<lambda>name.
         let (status, s') =
           (case resolve_st d st dir_fh of
              None \<Rightarrow> (NFS3ERR_STALE, the_fs st)
            | Some dp \<Rightarrow>
                (let target = path_join dp name in
                 if path_exists (the_fs st) target then
                   (case fs_remove_file (the_fs st) (ext st target) of
                      Inr s1 \<Rightarrow> (NFS3_OK, s1) | Inl _ \<Rightarrow> (NFS3ERR_IO, the_fs st))
                 else (NFS3ERR_NOENT, the_fs st)))
         in Some (Some (make_rpc_reply xid @ be32 status @ make_wcc_data), st\<lparr>the_fs := s'\<rparr>)))"

definition v3_rmdir :: "deps \<Rightarrow> bytes \<Rightarrow> bytes \<Rightarrow> nat \<Rightarrow> 'a shared_scheme \<Rightarrow> 'a v3_result" where
  "v3_rmdir d xid request off st =
     with_fh request off st (\<lambda>dir_fh fh_consumed.
       if is_read_only d (em st) dir_fh
       then Some (Some (make_rpc_reply xid @ be32 NFS3ERR_ROFS @ make_wcc_data @ make_wcc_data), st)
       else with_name request (off + fh_consumed) st (\<lambda>name.
         let (status, s') =
           (case resolve_st d st dir_fh of
              None \<Rightarrow> (NFS3ERR_STALE, the_fs st)
            | Some dp \<Rightarrow>
                (let target = path_join dp name in
                 if path_exists (the_fs st) target then
                   (case fs_remove_dir (the_fs st) (ext st target) of
                      Inr s1 \<Rightarrow> (NFS3_OK, s1) | Inl _ \<Rightarrow> (NFS3ERR_NOTEMPTY, the_fs st))
                 else (NFS3ERR_NOENT, the_fs st)))
         in Some (Some (make_rpc_reply xid @ be32 status @ make_wcc_data @ make_wcc_data),
                  st\<lparr>the_fs := s'\<rparr>)))"

text \<open>RENAME slices both names without checking them against the end of the request.\<close>

definition v3_rename :: "deps \<Rightarrow> bytes \<Rightarrow> bytes \<Rightarrow> nat \<Rightarrow> 'a shared_scheme \<Rightarrow> 'a v3_result" where
  "v3_rename d xid request off st =
     with_fh request off st (\<lambda>from_fh fh1_consumed.
       if is_read_only d (em st) from_fh
       then Some (Some (make_rpc_reply xid @ be32 NFS3ERR_ROFS @ make_wcc_data @ make_wcc_data), st)
       else let from_name_off = off + fh1_consumed in
       if from_name_off + 4 > length request then Some (None, st)
       else do {
         fl \<leftarrow> rd32 request from_name_off;
         let from_name_len = unat fl;
         from_raw \<leftarrow> slice request (from_name_off + 4) (from_name_off + 4 + from_name_len);
         let to_off = from_name_off + 4 + pad4 from_name_len;
         with_fh request to_off st (\<lambda>to_fh fh2_consumed.
           let to_name_off = to_off + fh2_consumed in
           if to_name_off + 4 > length request then Some (None, st)
           else do {
             tl \<leftarrow> rd32 request to_name_off;
             let to_name_len = unat tl;
             to_raw \<leftarrow> slice request (to_name_off + 4) (to_name_off + 4 + to_name_len);
             let (status, s') =
               (case (resolve_st d st from_fh, resolve_st d st to_fh) of
                  (Some fd, Some td) \<Rightarrow>
                    (case fs_rename (the_fs st) (ext st (path_join fd (utf8_lossy from_raw)))
                            (ext st (path_join td (utf8_lossy to_raw))) of
                       Inr s1 \<Rightarrow> (NFS3_OK, s1) | Inl _ \<Rightarrow> (NFS3ERR_IO, the_fs st))
                | _ \<Rightarrow> (NFS3ERR_STALE, the_fs st));
             Some (Some (make_rpc_reply xid @ be32 status @ make_wcc_data @ make_wcc_data),
                   st\<lparr>the_fs := s'\<rparr>)
           })
       })"

text \<open>READDIR registers a handle for every entry and lists them all.\<close>

fun v3_entries :: "deps \<Rightarrow> env \<Rightarrow> path \<Rightarrow> nat \<Rightarrow> (bytes \<times> path) list \<Rightarrow> exports_manager \<Rightarrow> bytes \<times> exports_manager" where
  "v3_entries d e root idx [] m = ([], m)"
| "v3_entries d e root idx ((name, epath) # rest) m =
     (let (child_fh, m1) = get_or_create_fh d e epath root m;
          (more, m2) = v3_entries d e root (idx + 1) rest m1
      in ([0, 0, 0, 1] @ be64 (hash_str d name) @ xdr_opaque name @ be64 (of_nat (idx + 1)) @ more, m2))"

definition v3_readdir :: "deps \<Rightarrow> env \<Rightarrow> bytes \<Rightarrow> bytes \<Rightarrow> nat \<Rightarrow> 'a shared_scheme \<Rightarrow> 'a v3_result" where
  "v3_readdir d e xid request off st =
     with_fh request off st (\<lambda>fh_data _.
       let p = resolve_st d st fh_data;
           start = make_rpc_reply xid @ be32 NFS3_OK @ make_post_op_attr d st p @ replicate 8 0;
           (listing, m) =
             (case p of
                None \<Rightarrow> ([], em st)
              | Some dir_path \<Rightarrow>
                  (case fs_read_dir (the_fs st) (ext st dir_path) of
                     Inl _ \<Rightarrow> ([], em st)
                   | Inr es \<Rightarrow> v3_entries d e (root_or d st fh_data dir_path) 0 es (em st)))
       in Some (Some (start @ listing @ [0, 0, 0, 0] @ [0, 0, 0, 1]), st\<lparr>em := m\<rparr>))"

definition v3_readdirplus :: "deps \<Rightarrow> env \<Rightarrow> bytes \<Rightarrow> bytes \<Rightarrow> nat \<Rightarrow> 'a shared_scheme \<Rightarrow> 'a v3_result" where
  "v3_readdirplus d e xid request off st = v3_readdir d e xid request off st"

section \<open>Dispatch\<close>

definition v3_dispatch :: "deps \<Rightarrow> env \<Rightarrow> u32 \<Rightarrow> bytes \<Rightarrow> bytes \<Rightarrow> nat \<Rightarrow> 'a shared_scheme \<Rightarrow> 'a v3_result" where
  "v3_dispatch d e procedure xid request args_off st =
     (if procedure = 0 then Some (Some (v3_null xid), st)
      else if procedure = 1 then v3_getattr d xid request args_off st
      else if procedure = 2 then v3_setattr d xid request args_off st
      else if procedure = 3 then v3_lookup d e xid request args_off st
      else if procedure = 4 then v3_access d xid request args_off st
      else if procedure = 5 then v3_readlink d xid request args_off st
      else if procedure = 6 then v3_read d xid request args_off st
      else if procedure = 7 then v3_write d e xid request args_off st
      else if procedure = 8 then v3_create d e xid request args_off st
      else if procedure = 9 then v3_mkdir d e xid request args_off st
      else if procedure = 10 \<or> procedure = 11 then Some (Some (make_error_reply xid NFS3ERR_NOTSUPP), st)
      else if procedure = 12 then v3_remove d xid request args_off st
      else if procedure = 13 then v3_rmdir d xid request args_off st
      else if procedure = 14 then v3_rename d xid request args_off st
      else if procedure = 15 then Some (Some (make_error_reply xid NFS3ERR_NOTSUPP), st)
      else if procedure = 16 then v3_readdir d e xid request args_off st
      else if procedure = 17 then v3_readdirplus d e xid request args_off st
      else if procedure = 18 then v3_fsstat d xid request args_off st
      else if procedure = 19 then v3_fsinfo d xid request args_off st
      else if procedure = 20 then v3_pathconf d xid request args_off st
      else if procedure = 21 then v3_commit xid st
      else Some (None, st))"

text \<open>
  The offset of the arguments: the inner \<open>None\<close> is the refusal of an oversized field.  The
  overflow checks of the source cannot fail on a 64-bit \<open>usize\<close> with lengths up to
  \<open>MAX_XDR_OPAQUE\<close>.
\<close>

definition v3_args_off :: "bytes \<Rightarrow> nat option option" where
  "v3_args_off request =
     (if length request > 32 then do {
        cl \<leftarrow> rd32 request 28;
        if unat cl > MAX_XDR_OPAQUE then Some None
        else let args_off = 24 + 8 + pad4 (unat cl) in
        if length request > args_off + 8 then do {
          vl \<leftarrow> rd32 request (args_off + 4);
          if unat vl > MAX_XDR_OPAQUE then Some None
          else Some (Some (args_off + 8 + pad4 (unat vl)))
        }
        else Some (Some args_off)
      }
      else Some (Some 24))"

text \<open>\<open>caller_uid\<close>, which the code computes and does not use.\<close>

definition v3_caller_uid :: "bytes \<Rightarrow> u32 option" where
  "v3_caller_uid request =
     (if length request > 32 then do {
        cred_flavor \<leftarrow> rd32 request 24;
        cl \<leftarrow> rd32 request 28;
        if unat cl \<le> MAX_XDR_OPAQUE \<and> 32 + unat cl \<le> length request then do {
          cred \<leftarrow> slice request 32 (32 + unat cl);
          uid \<leftarrow> parse_auth_sys_uid cred_flavor cred;
          Some (case uid of Some u \<Rightarrow> u | None \<Rightarrow> - 1)
        }
        else Some (- 1)
      }
      else Some (- 1))"

definition v3_handle_request :: "deps \<Rightarrow> env \<Rightarrow> bytes \<Rightarrow> 'a shared_scheme \<Rightarrow> 'a v3_result" where
  "v3_handle_request d e request st =
     (if length request < 24 then Some (None, st)
      else do {
        xid \<leftarrow> slice request 0 4;
        msg_type \<leftarrow> rd32 request 4;
        if msg_type \<noteq> 0 then Some (None, st)
        else do {
          procedure \<leftarrow> rd32 request 20;
          caller_uid \<leftarrow> v3_caller_uid request;
          off \<leftarrow> v3_args_off request;
          (case off of
             None \<Rightarrow> Some (None, st)
           | Some args_off \<Rightarrow> v3_dispatch d e procedure xid request args_off st)
        }
      })"

section \<open>Panics\<close>

declare not_None_eq [iff del]

lemma v3_parse_fh_total: "\<exists>r. v3_parse_fh request off = Some r"
  by (simp add: v3_parse_fh_def rd_simps Let_def)

lemma with_fh_None: "with_fh request off st k = None \<Longrightarrow> \<exists>fh n. k fh n = None"
  using v3_parse_fh_total [of request off] by (auto simp: with_fh_def split: option.splits) blast

lemma with_name_None: "with_name request off st k = None \<Longrightarrow> \<exists>n. k n = None"
  by (auto simp: with_name_def rd_simps Let_def split: if_splits)

lemma read_window_not_None: "read_window f off n = None \<Longrightarrow> False"
  by (simp add: read_window_def rd_simps Let_def)

lemmas v3_None_dests = with_fh_None with_name_None

lemma v3_total:
  "v3_getattr d xid request off st \<noteq> None" "v3_setattr d xid request off st \<noteq> None"
  "v3_lookup d e xid request off st \<noteq> None" "v3_access d xid request off st \<noteq> None"
  "v3_readlink d xid request off st \<noteq> None" "v3_read d xid request off st \<noteq> None"
  "v3_write d e xid request off st \<noteq> None" "v3_create d e xid request off st \<noteq> None"
  "v3_mkdir d e xid request off st \<noteq> None" "v3_remove d xid request off st \<noteq> None"
  "v3_rmdir d xid request off st \<noteq> None" "v3_readdir d e xid request off st \<noteq> None"
  "v3_readdirplus d e xid request off st \<noteq> None"
  "v3_fsstat d xid request off st \<noteq> None" "v3_fsinfo d xid request off st \<noteq> None"
  "v3_pathconf d xid request off st \<noteq> None" "v3_commit xid st \<noteq> None"
  unfolding v3_getattr_def v3_setattr_def v3_lookup_def v3_access_def v3_readlink_def v3_read_def
    v3_write_def v3_create_def v3_mkdir_def v3_remove_def v3_rmdir_def v3_readdir_def v3_readdirplus_def
    v3_fsstat_def v3_fsinfo_def v3_pathconf_def v3_commit_def v3_made_def v3_rofs_def
  by (auto dest!: v3_None_dests read_window_not_None simp: Let_def rd_simps Option.bind_eq_None_conv
      split: option.splits prod.splits sum.splits if_splits)

lemma v3_caller_uid_total: "\<exists>u. v3_caller_uid request = Some u"
proof -
  have "\<exists>u. parse_auth_sys_uid f c = Some u" for f c
    using parse_auth_sys_uid_no_panic [of f c] by (cases "parse_auth_sys_uid f c") auto
  then show ?thesis by (auto simp: v3_caller_uid_def rd_simps Option.bind_eq_Some_conv)
qed

lemma v3_args_off_total: "\<exists>o'. v3_args_off request = Some o'"
  by (auto simp: v3_args_off_def rd_simps Let_def)

lemma v3_dispatch_total: "procedure \<noteq> 14 \<Longrightarrow> v3_dispatch d e procedure xid request off st \<noteq> None"
  unfolding v3_dispatch_def by (simp add: v3_total)

lemma v3_handle_request_total:
  assumes "rd32 request 20 \<noteq> Some 14"
  shows "v3_handle_request d e request st \<noteq> None"
proof
  assume n: "v3_handle_request d e request st = None"
  obtain u where u: "v3_caller_uid request = Some u" using v3_caller_uid_total by blast
  obtain o' where o: "v3_args_off request = Some o'" using v3_args_off_total by blast
  show False
  proof (cases "length request < 24")
    case True
    with n show False by (simp add: v3_handle_request_def)
  next
    case False
    then have p: "u32_at request 20 \<noteq> 14" using assms by (auto simp: rd_simps)
    from n False have "\<exists>xid off. v3_dispatch d e (u32_at request 20) xid request off st = None"
      by (auto simp: v3_handle_request_def u o rd_simps split: if_splits option.splits)
    with v3_dispatch_total [OF p] show False by blast
  qed
qed

text \<open>
  C17: no NFSv3 request but RENAME can make the server panic, whatever its bytes and
  whatever the state of the server and of the file system.
\<close>

theorem v3_panics_only_in_rename:
  assumes "v3_handle_request d e request st = None"
  shows "24 \<le> length request \<and> rd32 request 20 = Some 14"
proof -
  have r: "rd32 request 20 = Some 14" using v3_handle_request_total assms by blast
  then show ?thesis by (auto simp: rd32_def split: if_splits)
qed

text \<open>
  A RENAME call whose first name claims one byte more than the request has.  The empty file
  handle needs no earlier contact with the server.
\<close>

definition rename_attack :: "u32 \<Rightarrow> bytes" where
  "rename_attack xid = rpc_call_header xid 100003 3 14 0 [] 0 [] @ be32 0 @ be32 1"

lemma rename_attack_facts:
  "v3_handle_request d e (rename_attack xid) st = None \<and> length (rename_attack xid) = 48"
proof -
  let ?r = "rename_attack xid"
  note r = rpc_call_header_reads [of xid 100003 3 14 0 "[]" 0 "[]" "be32 0 @ be32 1", folded rename_attack_def]
  have len: "length ?r = 48" using r(8) by simp
  have u: "v3_caller_uid ?r = Some (- 1)"
  proof -
    have "rd32 ?r 24 = Some 0"
      using u32.dec_at [of 24 "be32 xid @ be32 RPC_CALL @ be32 2 @ be32 100003 @ be32 3 @ be32 14" 0]
      by (simp add: rename_attack_def rpc_call_header_def)
    then show ?thesis
      using r(6) len by (simp add: v3_caller_uid_def rd_simps parse_auth_sys_uid_def)
  qed
  have o: "v3_args_off ?r = Some (Some 40)"
    using r(6,7) len by (simp add: v3_args_off_def)
  have fh: "v3_parse_fh ?r 40 = Some (Some ([], 4))"
  proof -
    have "rd32 ?r 40 = Some 0"
      using u32.dec_at [of 40 "rpc_call_header xid 100003 3 14 0 [] 0 []" 0 "be32 1"]
      by (simp add: rename_attack_def rpc_call_header_def)
    then show ?thesis using len by (simp add: v3_parse_fh_def rd_simps)
  qed
  have nl: "rd32 ?r 44 = Some 1"
    using u32.dec_at [of 44 "rpc_call_header xid 100003 3 14 0 [] 0 [] @ be32 0" 1 "[]"]
    by (simp add: rename_attack_def rpc_call_header_def)
  have ro: "\<not> is_read_only d (em st) []"
    by (simp add: is_read_only_def get_fh_export_root_def verify_and_decode_fhid_def)
  have "v3_rename d (take 4 ?r) ?r 40 st = None"
    using len nl by (simp add: v3_rename_def with_fh_def fh ro slice_def Let_def)
  then show ?thesis
    using len r(2,5) by (simp add: v3_handle_request_def u o rd_simps v3_dispatch_def RPC_CALL_def)
qed

text \<open>
  RENAME slices the names without checking their length.  One unauthenticated 48-byte
  datagram makes every server panic, whatever its state, exports and file system.
\<close>

theorem v3_rename_panics:
  "v3_handle_request d e (rename_attack xid) st = None \<and> length (rename_attack xid) = 48"
  by (rule rename_attack_facts)

section \<open>Read-only exports\<close>

text \<open>
  Every handle the server knows belongs to an export that is configured read-only.
\<close>

definition ro_root :: "exports_manager \<Rightarrow> path \<Rightarrow> bool" where
  "ro_root m root \<longleftrightarrow> (\<exists>ex. resolve_export_path m root = Some ex \<and> read_only (options ex))"

definition all_read_only :: "exports_manager \<Rightarrow> bool" where
  "all_read_only m \<longleftrightarrow> (\<forall>i en. fh_map m i = Some en \<longrightarrow> ro_root m (export_root en))"

lemma resolve_export_path_cong: "exports m' = exports m \<Longrightarrow> resolve_export_path m' p = resolve_export_path m p"
  by (simp add: resolve_export_path_def Let_def split: option.splits)

lemma resolve_fh_entry:
  assumes "resolve_fh d s m h = Some p"
  obtains i en where "verify_and_decode_fhid d m h = Some i" "i \<noteq> 0" "fh_map m i = Some en" "p = real_path en"
  using assms by (auto simp: resolve_fh_def split: option.splits if_splits)

lemma ro_resolved:
  assumes "all_read_only m" and "resolve_fh d s m h = Some p"
  shows "is_read_only d m h" and "\<exists>r. get_fh_export_root d m h = Some r \<and> ro_root m r"
proof -
  obtain i en where i: "verify_and_decode_fhid d m h = Some i" "i \<noteq> 0" "fh_map m i = Some en"
    using resolve_fh_entry [OF assms(2)] by metis
  then have "get_fh_export_root d m h = Some (export_root en)" "ro_root m (export_root en)"
    using assms(1) by (auto simp: get_fh_export_root_def all_read_only_def)
  then show "is_read_only d m h" "\<exists>r. get_fh_export_root d m h = Some r \<and> ro_root m r"
    by (auto simp: is_read_only_def ro_root_def)
qed

lemma get_or_create_exports: "get_or_create_fh d e p root m = (h, m') \<Longrightarrow> exports m' = exports m"
  by (auto simp: get_or_create_fh_def Let_def split: option.splits)

lemma ro_get_or_create:
  assumes "all_read_only m" and "ro_root m root" and "get_or_create_fh d e p root m = (h, m')"
  shows "all_read_only m'"
proof -
  have "fh_map m i = Some en \<or> export_root en = root"
    if "fh_map m' i = Some en" for i en
    using assms(3) that by (auto simp: get_or_create_fh_def Let_def split: option.splits if_splits)
  then show ?thesis
    using assms(1,2) resolve_export_path_cong [OF get_or_create_exports [OF assms(3)]]
    by (fastforce simp: all_read_only_def ro_root_def)
qed

lemma ro_lookup_child:
  assumes "all_read_only m" and "lookup_child d e s h name m = (x, m')"
  shows "all_read_only m'"
proof (cases "m' = m")
  case False
  then obtain fh child where x: "x = Some (fh, child)"
    using assms(2) by (auto simp: lookup_child_def Let_def split: if_splits option.splits prod.splits)
  from lookup_child_Some [OF assms(2) [unfolded x]] obtain dir root where
    "resolve_fh d s m h = Some dir"
    and root: "root = (case get_fh_export_root d m h of Some r \<Rightarrow> r | None \<Rightarrow> dir)"
    and g: "get_or_create_fh d e child root m = (fh, m')" by metis
  with ro_resolved(2) [OF assms(1)] have "ro_root m root" by fastforce
  from ro_get_or_create [OF assms(1) this g] show ?thesis .
qed (use assms(1) in simp)

text \<open>What a handler may do to a server all of whose handles are read-only.\<close>

definition v3_safe :: "'a shared_scheme \<Rightarrow> 'a v3_result \<Rightarrow> bool" where
  "v3_safe st x \<longleftrightarrow>
     (case x of None \<Rightarrow> True | Some (r, st') \<Rightarrow> the_fs st' = the_fs st \<and> all_read_only (em st'))"

lemma v3_safe_Some [simp]: "v3_safe st (Some (r, st')) \<longleftrightarrow> the_fs st' = the_fs st \<and> all_read_only (em st')"
  by (simp add: v3_safe_def)

lemma v3_safe_None [simp]: "v3_safe st None"
  by (simp add: v3_safe_def)

lemma v3_safe_bind: "(\<And>y. x = Some y \<Longrightarrow> v3_safe st (f y)) \<Longrightarrow> v3_safe st (Option.bind x f)"
  by (cases x) auto

lemma v3_safe_with_fh:
  "all_read_only (em st) \<Longrightarrow> (\<And>fh n. v3_safe st (k fh n)) \<Longrightarrow> v3_safe st (with_fh request off st k)"
  unfolding with_fh_def by (rule v3_safe_bind) (auto split: option.splits)

lemma v3_safe_with_name:
  "all_read_only (em st) \<Longrightarrow> (\<And>n. v3_safe st (k n)) \<Longrightarrow> v3_safe st (with_name request off st k)"
  unfolding with_name_def by (auto simp: Let_def intro!: v3_safe_bind)

lemma v3_entries_ro:
  "all_read_only m \<Longrightarrow> ro_root m root \<Longrightarrow> v3_entries d e root idx es m = (x, m')
    \<Longrightarrow> all_read_only m'"
proof (induction es arbitrary: idx m x)
  case Nil
  then show ?case by simp
next
  case (Cons ne es)
  obtain name ep where ne: "ne = (name, ep)" by (cases ne)
  obtain h m1 where g: "get_or_create_fh d e ep root m = (h, m1)" by fastforce
  obtain y where v: "v3_entries d e root (idx + 1) es m1 = (y, m')"
    using Cons.prems(3) by (auto simp: ne g split: prod.splits)
  have "ro_root m1 root"
    using Cons.prems(2)
    unfolding ro_root_def resolve_export_path_cong [OF get_or_create_exports [OF g]] .
  from Cons.IH [OF ro_get_or_create [OF Cons.prems(1,2) g] this v] show ?case .
qed

lemma v3_readdir_safe:
  assumes "all_read_only (em st)"
  shows "v3_safe st (v3_readdir d e xid request off st)"
proof -
  have "all_read_only m" if "resolve_st d st fh = Some p"
    "v3_entries d e (root_or d st fh p) 0 es (em st) = (x, m)" for fh p es x m
  proof -
    have "ro_root (em st) (root_or d st fh p)"
      using ro_resolved(2) [OF assms that(1)] by (auto simp: root_or_def)
    from v3_entries_ro [OF assms this that(2)] show ?thesis .
  qed
  note entries = this
  show ?thesis
    unfolding v3_readdir_def Let_def
  proof (rule v3_safe_with_fh [OF assms], goal_cases)
    case (1 fh n)
    show ?case
    proof (cases "resolve_st d st fh")
      case None
      then show ?thesis using assms by simp
    next
      case (Some p)
      show ?thesis
      proof (cases "fs_read_dir (the_fs st) (ext st p)")
        case (Inl x)
        then show ?thesis using assms Some by simp
      next
        case (Inr es)
        obtain y m where "v3_entries d e (root_or d st fh p) 0 es (em st) = (y, m)" by fastforce
        with entries [OF Some this] Some Inr show ?thesis by simp
      qed
    qed
  qed
qed

lemmas v3_safe_intros = v3_safe_with_fh v3_safe_with_name v3_safe_bind

lemma v3_queries_safe:
  assumes "all_read_only (em st)"
  shows "v3_safe st (v3_getattr d xid request off st)" "v3_safe st (v3_setattr d xid request off st)"
    "v3_safe st (v3_access d xid request off st)" "v3_safe st (v3_readlink d xid request off st)"
    "v3_safe st (v3_fsstat d xid request off st)" "v3_safe st (v3_fsinfo d xid request off st)"
    "v3_safe st (v3_pathconf d xid request off st)" "v3_safe st (v3_commit xid st)"
  unfolding v3_getattr_def v3_setattr_def v3_access_def v3_readlink_def v3_fsstat_def v3_fsinfo_def
    v3_pathconf_def v3_commit_def
  using assms by (auto simp: Let_def intro!: v3_safe_with_fh)

lemma v3_lookup_safe:
  assumes "all_read_only (em st)"
  shows "v3_safe st (v3_lookup d e xid request off st)"
  unfolding v3_lookup_def using assms ro_lookup_child [OF assms]
  by (auto simp: Let_def intro!: v3_safe_with_fh v3_safe_with_name split: option.splits prod.splits)

lemma v3_read_safe:
  assumes "all_read_only (em st)"
  shows "v3_safe st (v3_read d xid request off st)"
  unfolding v3_read_def Let_def using assms
  by (intro v3_safe_with_fh) (auto intro!: v3_safe_bind)

text \<open>The changing procedures: a handle that resolves is refused, any other has no path.\<close>

lemma ro_unresolved:
  assumes "all_read_only (em st)" and "\<not> is_read_only d (em st) fh"
  shows "resolve_st d st fh = None"
  using ro_resolved(1) [OF assms(1), of d "the_fs st" fh] assms(2)
  by (cases "resolve_st d st fh") auto

lemma v3_write_safe:
  assumes "all_read_only (em st)"
  shows "v3_safe st (v3_write d e xid request off st)"
  unfolding v3_write_def Let_def using assms
  by (intro v3_safe_with_fh) (auto simp: ro_unresolved intro!: v3_safe_bind)

lemma v3_make_safe:
  assumes "all_read_only (em st)"
  shows "v3_safe st (v3_create d e xid request off st)" "v3_safe st (v3_mkdir d e xid request off st)"
  unfolding v3_create_def v3_mkdir_def v3_rofs_def using assms
  by (auto simp: ro_unresolved intro!: v3_safe_with_fh v3_safe_with_name)

lemma v3_delete_safe:
  assumes "all_read_only (em st)"
  shows "v3_safe st (v3_remove d xid request off st)" "v3_safe st (v3_rmdir d xid request off st)"
  unfolding v3_remove_def v3_rmdir_def v3_rofs_def using assms
  by (auto simp: ro_unresolved intro!: v3_safe_with_fh v3_safe_with_name)

lemma v3_rename_safe:
  assumes "all_read_only (em st)"
  shows "v3_safe st (v3_rename d xid request off st)"
  unfolding v3_rename_def Let_def using assms
  by (intro v3_safe_with_fh) (auto simp: ro_unresolved intro!: v3_safe_bind v3_safe_with_fh)

text \<open>
  C12: a server all of whose handles belong to read-only exports never changes a byte, a
  name or a time of the file system, whatever NFSv3 request arrives; and its handles stay
  so, so this holds for any sequence of requests.
\<close>

theorem v3_read_only_exports_immutable:
  assumes "all_read_only (em st)" and "v3_handle_request d e request st = Some (r, st')"
  shows "the_fs st' = the_fs st \<and> all_read_only (em st')"
proof -
  have "v3_safe st (v3_dispatch d e procedure xid request off st)" for procedure xid off
    unfolding v3_dispatch_def v3_readdirplus_def
    using assms(1) v3_queries_safe [OF assms(1)] v3_lookup_safe [OF assms(1)] v3_read_safe [OF assms(1)]
      v3_write_safe [OF assms(1)] v3_make_safe [OF assms(1)] v3_delete_safe [OF assms(1)]
      v3_rename_safe [OF assms(1)] v3_readdir_safe [OF assms(1)] by simp
  then have "v3_safe st (v3_handle_request d e request st)"
    unfolding v3_handle_request_def using assms(1)
    by (auto intro!: v3_safe_bind split: option.splits)
  then show ?thesis using assms(2) by simp
qed

definition sample_ro_em :: exports_manager where
  "sample_ro_em = sample_em1\<lparr>exports := [(bs ''D:/share'',
     \<lparr>exp_path = bs ''D:/share'', exp_alias = Some (bs ''share''), allowed_clients = [],
      options = default_options\<lparr>read_only := True\<rparr>\<rparr>)]\<rparr>"

definition sample_ro_state :: shared where
  "sample_ro_state = \<lparr>the_fs = sample_fs, em = sample_ro_em\<rparr>"

lemma sample_all_read_only: "all_read_only sample_ro_em"
proof -
  have "resolve_export_path sample_ro_em (bs ''D:/share'') = Some
     \<lparr>exp_path = bs ''D:/share'', exp_alias = Some (bs ''share''), allowed_clients = [],
      options = default_options\<lparr>read_only := True\<rparr>\<rparr>"
  proof -
    have "\<not> alias_match (bs ''D:/share'') x \<and> \<not> leading_match (bs ''D:/share'') x"
      if "exp_alias x = Some (bs ''share'')" "exp_path x = bs ''D:/share''" for x
    proof -
      have "bs ''share'' \<noteq> bs ''D:/share''" "slash # bs ''share'' \<noteq> bs ''D:/share''"
        "path_file_name (bs ''D:/share'') = Some (bs ''share'')" by code_simp+
      with that show ?thesis by (simp add: alias_match_def leading_match_def dir_name_of_def)
    qed
    moreover have "dropWhile (\<lambda>c. c = slash) (bs ''D:/share'') = bs ''D:/share''" by code_simp
    ultimately show ?thesis by (simp add: resolve_export_path_def sample_ro_em_def Let_def)
  qed
  then show ?thesis
    by (simp add: all_read_only_def ro_root_def sample_ro_em_def [of ] sample_em1_eq(1) add_handle_def
        sample_em_def resolve_export_path_cong [of sample_ro_em])
qed

theorem v3_panics_only_in_rename_witness:
  "v3_handle_request sample_deps sample_env (rename_attack 1) sample_ro_state = None \<and>
   rd32 (rename_attack 1) 20 = Some 14"
  using v3_panics_only_in_rename [of sample_deps sample_env "rename_attack 1" sample_ro_state]
    rename_attack_facts by blast

text \<open>A REMOVE of \<open>f\<close> below the root handle.\<close>

definition sample_remove :: bytes where
  "sample_remove = rpc_call_header 1 100003 3 12 0 [] 0 [] @ xdr_opaque sample_root_fh @ xdr_opaque (bs ''f'')"

theorem v3_read_only_exports_immutable_witness:
  "\<exists>r st'. v3_handle_request sample_deps sample_env sample_remove sample_ro_state = Some (r, st')
     \<and> the_fs st' = sample_fs"
proof -
  have "rd32 sample_remove 20 = Some 12"
    unfolding sample_remove_def by (rule rpc_call_header_reads)
  then obtain r st' where "v3_handle_request sample_deps sample_env sample_remove sample_ro_state = Some (r, st')"
    using v3_handle_request_total [of sample_remove sample_deps sample_env sample_ro_state]
    by (cases "v3_handle_request sample_deps sample_env sample_remove sample_ro_state") auto
  with v3_read_only_exports_immutable [OF _ this] sample_all_read_only show ?thesis
    by (simp add: sample_ro_state_def)
qed

end
