(* ===== verification/Nfs4_State.thy ===== *)
theory Nfs4_State
  imports Nfs3 "HOL-Library.AList"
begin

text \<open>
  The state of the NFSv4 server of \<open>src/nfs/nfs4.rs\<close>, the result type of its operations
  and the way they read their arguments.  The state extends the shared state of the NFSv3
  server (the file system and the exports manager).  Maps the code iterates are association
  lists; the others are functions.
\<close>

section \<open>Constants\<close>

definition NFS4_OK :: u32 where "NFS4_OK = 0"
definition NFS4ERR_PERM :: u32 where "NFS4ERR_PERM = 1"
definition NFS4ERR_NOENT :: u32 where "NFS4ERR_NOENT = 2"
definition NFS4ERR_IO :: u32 where "NFS4ERR_IO = 5"
definition NFS4ERR_EXIST :: u32 where "NFS4ERR_EXIST = 17"
definition NFS4ERR_NOTDIR :: u32 where "NFS4ERR_NOTDIR = 20"
definition NFS4ERR_ISDIR :: u32 where "NFS4ERR_ISDIR = 21"
definition NFS4ERR_INVAL :: u32 where "NFS4ERR_INVAL = 22"
definition NFS4ERR_FBIG :: u32 where "NFS4ERR_FBIG = 27"
definition NFS4ERR_ROFS :: u32 where "NFS4ERR_ROFS = 30"
definition NFS4ERR_NOTEMPTY :: u32 where "NFS4ERR_NOTEMPTY = 66"
definition NFS4ERR_STALE :: u32 where "NFS4ERR_STALE = 70"
definition NFS4ERR_BADHANDLE :: u32 where "NFS4ERR_BADHANDLE = 10001"
definition NFS4ERR_NOTSUPP :: u32 where "NFS4ERR_NOTSUPP = 10004"
definition NFS4ERR_BADTYPE :: u32 where "NFS4ERR_BADTYPE = 10007"
definition NFS4ERR_SAME :: u32 where "NFS4ERR_SAME = 10009"
definition NFS4ERR_DENIED :: u32 where "NFS4ERR_DENIED = 10010"
definition NFS4ERR_CLID_INUSE :: u32 where "NFS4ERR_CLID_INUSE = 10017"
definition NFS4ERR_RESOURCE :: u32 where "NFS4ERR_RESOURCE = 10018"
definition NFS4ERR_NOFILEHANDLE :: u32 where "NFS4ERR_NOFILEHANDLE = 10020"
definition NFS4ERR_MINOR_VERS_MISMATCH :: u32 where "NFS4ERR_MINOR_VERS_MISMATCH = 10021"
definition NFS4ERR_STALE_CLIENTID :: u32 where "NFS4ERR_STALE_CLIENTID = 10022"
definition NFS4ERR_BAD_STATEID :: u32 where "NFS4ERR_BAD_STATEID = 10025"
definition NFS4ERR_NOT_SAME :: u32 where "NFS4ERR_NOT_SAME = 10027"
definition NFS4ERR_RESTOREFH :: u32 where "NFS4ERR_RESTOREFH = 10030"
definition NFS4ERR_ATTRNOTSUPP :: u32 where "NFS4ERR_ATTRNOTSUPP = 10032"
definition NFS4ERR_BADXDR :: u32 where "NFS4ERR_BADXDR = 10036"
definition NFS4ERR_OP_ILLEGAL :: u32 where "NFS4ERR_OP_ILLEGAL = 10044"
definition NFS4ERR_BADSESSION :: u32 where "NFS4ERR_BADSESSION = 10064"

lemmas nfs4_status_defs = NFS4_OK_def NFS4ERR_PERM_def NFS4ERR_NOENT_def NFS4ERR_IO_def
  NFS4ERR_EXIST_def NFS4ERR_NOTDIR_def NFS4ERR_ISDIR_def NFS4ERR_INVAL_def NFS4ERR_FBIG_def
  NFS4ERR_ROFS_def NFS4ERR_NOTEMPTY_def NFS4ERR_STALE_def NFS4ERR_BADHANDLE_def
  NFS4ERR_NOTSUPP_def NFS4ERR_BADTYPE_def NFS4ERR_SAME_def NFS4ERR_DENIED_def
  NFS4ERR_CLID_INUSE_def NFS4ERR_RESOURCE_def NFS4ERR_NOFILEHANDLE_def
  NFS4ERR_MINOR_VERS_MISMATCH_def NFS4ERR_STALE_CLIENTID_def NFS4ERR_BAD_STATEID_def
  NFS4ERR_NOT_SAME_def NFS4ERR_RESTOREFH_def NFS4ERR_ATTRNOTSUPP_def NFS4ERR_BADXDR_def
  NFS4ERR_OP_ILLEGAL_def NFS4ERR_BADSESSION_def

definition NF4REG :: u32 where "NF4REG = 1"
definition NF4DIR :: u32 where "NF4DIR = 2"
definition NF4LNK :: u32 where "NF4LNK = 5"

text \<open>Nanoseconds, as the clock of the environment.\<close>

definition LEASE_TIMEOUT :: nat where "LEASE_TIMEOUT = 300 * 10 ^ 9"

section \<open>State\<close>

record client_record =
  cr_client_id :: u64
  cr_verifier :: bytes
  cr_id_string :: bytes
  cr_callback_program :: u32
  cr_confirmed :: bool
  cr_confirm_verifier :: bytes
  cr_sequence :: u32
  cr_last_used :: nat

record session_record =
  sr_session_id :: bytes
  sr_client_id :: u64
  sr_sequence :: u32
  sr_highest_slot :: u32
  sr_fore_max_ops :: u32
  sr_fore_max_reqs :: u32
  sr_last_used :: nat

record file_lock =
  fl_offset :: u64
  fl_length :: u64
  fl_type :: u32
  fl_owner :: bytes
  fl_client_id :: u64
  fl_stateid :: bytes

record nfs4 = shared +
  clients :: "(u64 \<times> client_record) list"
  client_owner_map :: "bytes \<Rightarrow> u64 option"
  client_counter :: u64
  open_files :: "u64 \<Rightarrow> path option"
  open_counter :: u64
  writeverf :: bytes
  locks :: "u64 \<Rightarrow> file_lock list option"
  lock_counter :: u64
  sessions :: "(bytes \<times> session_record) list"

definition nfs4_new :: "env \<Rightarrow> fs \<Rightarrow> exports_manager \<Rightarrow> nfs4" where
  "nfs4_new e s m =
     \<lparr>the_fs = s, em = m, clients = [], client_owner_map = Map.empty, client_counter = 1,
      open_files = Map.empty, open_counter = 1,
      writeverf = xorshift_bytes 8 (wall_nanos e XOR ucast (pid e)),
      locks = Map.empty, lock_counter = 1, sessions = []\<rparr>"

text \<open>A new server over the sample file system and exports.\<close>

definition sample_nfs4 :: nfs4 where
  "sample_nfs4 = nfs4_new sample_env sample_fs sample_em"

section \<open>Results of operations\<close>

text \<open>
  The tuple every operation returns: the result body, the bytes it consumed, the new
  current handle, the new saved handle and the status.
\<close>

record opres =
  op_result :: bytes
  advance :: nat
  new_fh :: "bytes option"
  new_saved_fh :: "bytes option"
  op_status :: u32

type_synonym v4_result = "(opres \<times> nfs4) option"

definition op_fail :: "nat \<Rightarrow> u32 \<Rightarrow> opres" where
  "op_fail consumed status =
     \<lparr>op_result = [], advance = consumed, new_fh = None, new_saved_fh = None, op_status = status\<rparr>"

definition op_done :: "bytes \<Rightarrow> nat \<Rightarrow> opres" where
  "op_done result consumed =
     \<lparr>op_result = result, advance = consumed, new_fh = None, new_saved_fh = None, op_status = NFS4_OK\<rparr>"

definition op_moved :: "nat \<Rightarrow> bytes \<Rightarrow> opres" where
  "op_moved consumed fh = (op_done [] consumed)\<lparr>new_fh := Some fh\<rparr>"

lemma opres_sel [simp]:
  "op_result (op_fail n s) = []" "advance (op_fail n s) = n" "new_fh (op_fail n s) = None"
  "new_saved_fh (op_fail n s) = None" "op_status (op_fail n s) = s"
  "op_result (op_done r n) = r" "advance (op_done r n) = n" "new_fh (op_done r n) = None"
  "new_saved_fh (op_done r n) = None" "op_status (op_done r n) = NFS4_OK"
  "op_result (op_moved n fh) = []" "advance (op_moved n fh) = n" "new_fh (op_moved n fh) = Some fh"
  "new_saved_fh (op_moved n fh) = None" "op_status (op_moved n fh) = NFS4_OK"
  by (simp_all add: op_fail_def op_done_def op_moved_def)

lemma op_done_not_fail [simp]: "s \<noteq> NFS4_OK \<Longrightarrow> op_done r n \<noteq> op_fail m s"
  using opres_sel(5,10) by metis

lemma op_fail_inject [simp]: "op_fail n s = op_fail m t \<longleftrightarrow> n = m \<and> s = t"
  by (auto simp: op_fail_def)

lemma op_done_inject [simp]: "op_done r n = op_done q m \<longleftrightarrow> r = q \<and> n = m"
  by (auto simp: op_done_def)

section \<open>Reading arguments\<close>

text \<open>
  \<open>if pp + n > request.len() { return bad; }\<close> followed by the read of those bytes: a
  32-bit number, a 64-bit number or \<open>n\<close> bytes.  The read itself could panic; after the
  test it does not.
\<close>

definition get32 :: "bytes \<Rightarrow> nat \<Rightarrow> 'r \<Rightarrow> (u32 \<Rightarrow> 'r option) \<Rightarrow> 'r option" where
  "get32 request pp bad k =
     (if pp + 4 > length request then Some bad else do { w \<leftarrow> rd32 request pp; k w })"

definition get64 :: "bytes \<Rightarrow> nat \<Rightarrow> 'r \<Rightarrow> (u64 \<Rightarrow> 'r option) \<Rightarrow> 'r option" where
  "get64 request pp bad k =
     (if pp + 8 > length request then Some bad else do { w \<leftarrow> rd64 request pp; k w })"

definition get_bytes :: "bytes \<Rightarrow> nat \<Rightarrow> nat \<Rightarrow> 'r \<Rightarrow> (bytes \<Rightarrow> 'r option) \<Rightarrow> 'r option" where
  "get_bytes request pp n bad k =
     (if pp + n > length request then Some bad else do { b \<leftarrow> slice request pp (pp + n); k b })"

text \<open>The number of bytes an \<open>opaque<>\<close> length field announces.\<close>

definition get_len :: "bytes \<Rightarrow> nat \<Rightarrow> 'r \<Rightarrow> (nat \<Rightarrow> 'r option) \<Rightarrow> 'r option" where
  "get_len request pp bad k = get32 request pp bad (\<lambda>w. k (unat w))"

named_theorems get_simps

lemma get32_eq [get_simps]:
  "get32 r pp bad k = (if pp + 4 > length r then Some bad else k (u32_at r pp))"
  by (simp add: get32_def rd_simps)

lemma get64_eq [get_simps]:
  "get64 r pp bad k = (if pp + 8 > length r then Some bad else k (u64_at r pp))"
  by (simp add: get64_def rd_simps)

lemma get_bytes_eq [get_simps]:
  "get_bytes r pp n bad k = (if pp + n > length r then Some bad else k (take n (drop pp r)))"
  by (simp add: get_bytes_def rd_simps)

lemma get_len_eq [get_simps]:
  "get_len r pp bad k = (if pp + 4 > length r then Some bad else k (unat (u32_at r pp)))"
  by (simp add: get_len_def get_simps)

lemma get_no_panic [intro]:
  "(\<And>w. pp + 4 \<le> length r \<Longrightarrow> k4 w \<noteq> None) \<Longrightarrow> get32 r pp bad k4 \<noteq> None"
  "(\<And>w. pp + 8 \<le> length r \<Longrightarrow> k8 w \<noteq> None) \<Longrightarrow> get64 r pp bad k8 \<noteq> None"
  "(\<And>b. pp + n \<le> length r \<Longrightarrow> kb b \<noteq> None) \<Longrightarrow> get_bytes r pp n bad kb \<noteq> None"
  "(\<And>l. pp + 4 \<le> length r \<Longrightarrow> kl l \<noteq> None) \<Longrightarrow> get_len r pp bad kl \<noteq> None"
  by (simp_all add: get_simps)

text \<open>What a read can lead to: the early return or the continuation.\<close>

lemma get_cases:
  "get32 r pp bad k4 = Some x \<Longrightarrow> x = bad \<or> (\<exists>w. k4 w = Some x)"
  "get64 r pp bad k8 = Some x \<Longrightarrow> x = bad \<or> (\<exists>w. k8 w = Some x)"
  "get_bytes r pp n bad kb = Some x \<Longrightarrow> x = bad \<or> (\<exists>b. kb b = Some x)"
  "get_len r pp bad kl = Some x \<Longrightarrow> x = bad \<or> (\<exists>l. kl l = Some x)"
  by (auto simp: get_simps split: if_splits)

section \<open>Tables\<close>

text \<open>
  What the server relies on in its hash maps: a lookup after an insertion and after a
  removal.  The iterated maps are association lists, the others functions; both keep the
  contract.
\<close>

locale table =
  fixes lookup :: "'t \<Rightarrow> 'k \<Rightarrow> 'v option"
    and put :: "'k \<Rightarrow> 'v \<Rightarrow> 't \<Rightarrow> 't"
    and remove :: "'k \<Rightarrow> 't \<Rightarrow> 't"
  assumes lookup_put: "lookup (put k v t) j = (if j = k then Some v else lookup t j)"
    and lookup_remove: "lookup (remove k t) j = (if j = k then None else lookup t j)"
begin

lemma lookup_remove_all:
  "lookup (fold remove ks t) j = (if j \<in> set ks then None else lookup t j)"
  by (induction ks arbitrary: t) (auto simp: lookup_remove)

lemma lookup_put_same [simp]: "lookup (put k v t) k = Some v"
  by (simp add: lookup_put)

lemma lookup_replace: "lookup (put k v (remove k t)) = lookup (put k v t)"
  by (auto simp: lookup_put lookup_remove)

text \<open>A put keeps every other binding, so a table of unexpired entries only grows by it.\<close>

lemma put_keeps: "j \<noteq> k \<Longrightarrow> lookup t j = Some w \<Longrightarrow> lookup (put k v t) j = Some w"
  by (simp add: lookup_put)

end

interpretation listed: table map_of AList.update AList.delete
  by unfold_locales (simp_all add: update_conv' delete_conv')

interpretation mapped: table "\<lambda>m. m" "\<lambda>k v m. m(k \<mapsto> v)" "\<lambda>k m. m(k := None)"
  by unfold_locales simp_all

end
