(* ===== verification/Nfs4_Session.thy ===== *)
theory Nfs4_Session
  imports Nfs4_State
begin

text \<open>
  Clients and sessions of the NFSv4 server (\<open>src/nfs/nfs4.rs\<close>): SETCLIENTID and its
  confirmation, EXCHANGE_ID, CREATE_SESSION, SEQUENCE, BIND_CONN_TO_SESSION,
  DESTROY_SESSION, DESTROY_CLIENTID, the operations that only acknowledge, and the lease
  cleanup.  A table the code keeps in a \<open>HashMap\<close> and iterates is an association list
  updated with \<open>AList.update\<close>; where the code takes the first match of such an iteration,
  the list order stands for the unspecified order of the map.
\<close>

section \<open>NFSv4.0 clients\<close>

definition confirm_verifier :: "env \<Rightarrow> u64 \<Rightarrow> bytes" where
  "confirm_verifier e client_id = xorshift_bytes 8 (wall_nanos e XOR ucast (pid e) XOR client_id)"

text \<open>The arguments of SETCLIENTID: verifier, client string, callback program, end.\<close>

definition setclientid_args ::
    "bytes \<Rightarrow> nat \<Rightarrow> (nat \<Rightarrow> 'r) \<Rightarrow> (bytes \<Rightarrow> bytes \<Rightarrow> u32 \<Rightarrow> nat \<Rightarrow> 'r option) \<Rightarrow> 'r option" where
  "setclientid_args request p bad k =
     get_bytes request p 8 (bad 0) (\<lambda>client_verifier.
     let p1 = p + 8 in
     get_len request p1 (bad (p1 - p)) (\<lambda>id_len.
     let p2 = p1 + 4 in
     get_bytes request p2 id_len (bad (p2 - p)) (\<lambda>id_string.
     let p3 = p2 + pad4 id_len in
     get32 request p3 (bad (p3 - p)) (\<lambda>cb_program.
     let p4 = p3 + 4 in
     get_len request p4 (bad (p4 - p)) (\<lambda>netid_len.
     let p5 = p4 + 4 in
     if p5 + netid_len > length request then Some (bad (p5 - p)) else
     let p6 = p5 + pad4 netid_len in
     get_len request p6 (bad (p6 - p)) (\<lambda>addr_len.
     let p7 = p6 + 4 in
     if p7 + addr_len > length request then Some (bad (p7 - p)) else
     let p8 = p7 + pad4 addr_len in
     if p8 + 4 > length request then Some (bad (p8 - p)) else
     k client_verifier id_string cb_program (p8 + 4)))))))"

definition op_setclientid :: "env \<Rightarrow> bytes \<Rightarrow> nat \<Rightarrow> nfs4 \<Rightarrow> v4_result" where
  "op_setclientid e request p st =
     setclientid_args request p (\<lambda>n. (op_fail n NFS4ERR_BADXDR, st))
       (\<lambda>client_verifier id_string cb_program pp.
         let consumed = pp - p in
         case List.find (\<lambda>r. cr_id_string r = id_string) (map snd (clients st)) of
           Some r \<Rightarrow>
             (if cr_verifier r = client_verifier then
                let cid = cr_client_id r; cv = confirm_verifier e cid
                in Some (op_done (be64 cid @ cv) consumed,
                         st\<lparr>clients := AList.map_entry cid (\<lambda>c. c\<lparr>cr_confirm_verifier := cv\<rparr>) (clients st)\<rparr>)
              else Some (op_fail consumed NFS4ERR_CLID_INUSE, st))
         | None \<Rightarrow>
             (let cid = client_counter st; cv = confirm_verifier e cid;
                  rec = \<lparr>cr_client_id = cid, cr_verifier = client_verifier, cr_id_string = id_string,
                         cr_callback_program = cb_program, cr_confirmed = False,
                         cr_confirm_verifier = cv, cr_sequence = 0, cr_last_used = now e\<rparr>
              in Some (op_done (be64 cid @ cv) consumed,
                       st\<lparr>client_counter := cid + 1, clients := AList.update cid rec (clients st)\<rparr>)))"

definition op_setclientid_confirm :: "bytes \<Rightarrow> nat \<Rightarrow> nfs4 \<Rightarrow> v4_result" where
  "op_setclientid_confirm request p st =
     (if p + 16 > length request then Some (op_fail 16 NFS4ERR_BADXDR, st)
      else do {
        cid \<leftarrow> rd64 request p;
        Some (if cid \<in> fst ` set (clients st)
              then (op_done [] 16,
                    st\<lparr>clients := AList.map_entry cid (\<lambda>c. c\<lparr>cr_confirmed := True\<rparr>) (clients st)\<rparr>)
              else (op_fail 16 NFS4ERR_STALE_CLIENTID, st))
      })"

definition op_renew :: "nfs4 \<Rightarrow> v4_result" where
  "op_renew st = Some (op_done [] 8, st)"

definition op_secinfo :: "bytes \<Rightarrow> nat \<Rightarrow> nfs4 \<Rightarrow> v4_result" where
  "op_secinfo request p st =
     get_len request p (op_fail 0 NFS4ERR_BADXDR, st) (\<lambda>name_len.
       Some (op_done (be32 1 @ be32 1) (4 + pad4 name_len), st))"

definition op_secinfo_no_name :: "bytes \<Rightarrow> nat \<Rightarrow> nfs4 \<Rightarrow> v4_result" where
  "op_secinfo_no_name request p st =
     get32 request p (op_fail 0 NFS4ERR_BADXDR, st) (\<lambda>_.
       Some (op_done (be32 1 @ be32 1 @ be32 0) 4, st))"

section \<open>EXCHANGE_ID\<close>

text \<open>The loop over \<open>eia_client_impl_id\<close>: its end, or nothing when the request is too short.\<close>

fun skip_implids :: "bytes \<Rightarrow> nat \<Rightarrow> nat \<Rightarrow> nat option option" where
  "skip_implids request 0 pp = Some (Some pp)"
| "skip_implids request (Suc n) pp =
     get_len request pp None (\<lambda>domain_len.
     let p1 = pp + 4 + pad4 domain_len in
     get_len request p1 None (\<lambda>name_len.
     let p2 = p1 + 4 + pad4 name_len in
     if p2 + 8 > length request then Some None
     else skip_implids request n (p2 + 8)))"

text \<open>The three opaque fields of SP4_MACH_CRED and SP4_SSV.\<close>

definition skip_state_protect :: "bytes \<Rightarrow> nat \<Rightarrow> nat option option" where
  "skip_state_protect request p0 =
     get_len request p0 None (\<lambda>mech_len.
     let p1 = p0 + 4 in
     if p1 + mech_len > length request then Some None else
     let p2 = p1 + pad4 mech_len in
     get_len request p2 None (\<lambda>proc_len.
     let p3 = p2 + 4 in
     if p3 + proc_len > length request then Some None else
     let p4 = p3 + pad4 proc_len in
     get_len request p4 None (\<lambda>cred_len.
     let p5 = p4 + 4 in
     if cred_len > MAX_XDR_OPAQUE then Some None else
     if p5 + cred_len > length request then Some None else
     Some (Some (p5 + pad4 cred_len)))))"

text \<open>The owner and the end of the arguments; nothing when the request is too short.\<close>

definition exchange_id_args :: "bytes \<Rightarrow> nat \<Rightarrow> (bytes \<times> nat) option option" where
  "exchange_id_args request p =
     get_bytes request p 8 None (\<lambda>_.
     let p1 = p + 8 in
     get_len request p1 None (\<lambda>id_len.
     let p2 = p1 + 4 in
     get_bytes request p2 id_len None (\<lambda>client_owner.
     let p3 = p2 + pad4 id_len in
     get32 request p3 None (\<lambda>_.
     let p4 = p3 + 4 in
     get32 request p4 None (\<lambda>spa_how.
     let p5 = p4 + 4 in
     do {
       q \<leftarrow> (if spa_how = 1 \<or> spa_how = 2 then skip_state_protect request p5 else Some (Some p5));
       (case q of
          None \<Rightarrow> Some None
        | Some p6 \<Rightarrow>
            get_len request p6 None (\<lambda>implid_count. do {
              r \<leftarrow> skip_implids request implid_count (p6 + 4);
              Some (map_option (\<lambda>pp. (client_owner, pp)) r)
            }))
     })))))"

definition exchange_id_flags :: u32 where
  "exchange_id_flags = 0x80000000 OR 0x00010000 OR 0x00000001 OR 0x00000002"

definition exchange_id_result :: "u64 \<Rightarrow> u32 \<Rightarrow> bytes" where
  "exchange_id_result cid seqid =
     be64 cid @ be32 seqid @ be32 exchange_id_flags @ be32 0 @ be64 0
     @ be32 10 @ bs ''RustNfsSvc'' @ [0, 0] @ be32 0 @ be32 0"

definition op_exchange_id :: "env \<Rightarrow> bytes \<Rightarrow> nat \<Rightarrow> nfs4 \<Rightarrow> v4_result" where
  "op_exchange_id e request p st = do {
     args \<leftarrow> exchange_id_args request p;
     (case args of
        None \<Rightarrow> Some (op_fail 0 NFS4ERR_BADXDR, st)
      | Some (client_owner, pp) \<Rightarrow>
          (let consumed = pp - p;
               (cid, st1) =
                 (case client_owner_map st client_owner of
                    Some existing \<Rightarrow> (existing, st)
                  | None \<Rightarrow> (client_counter st,
                      st\<lparr>client_counter := client_counter st + 1,
                         client_owner_map := (client_owner_map st)(client_owner \<mapsto> client_counter st)\<rparr>));
               seqid = (case map_of (clients st1) cid of Some c \<Rightarrow> cr_sequence c | None \<Rightarrow> 1);
               rec = \<lparr>cr_client_id = cid, cr_verifier = replicate 8 0, cr_id_string = [],
                      cr_callback_program = 0, cr_confirmed = False,
                      cr_confirm_verifier = replicate 8 0, cr_sequence = 1, cr_last_used = now e\<rparr>
           in Some (op_done (exchange_id_result cid seqid) consumed,
                    st1\<lparr>clients := AList.update cid rec (clients st1)\<rparr>)))
   }"

section \<open>Sessions\<close>

record channel_attrs =
  ca_maxreq :: u32
  ca_maxresp :: u32
  ca_maxops :: u32
  ca_maxreqs :: u32

text \<open>The closure \<open>parse_channel_attrs\<close>: the attributes and the end of the structure.\<close>

definition parse_channel_attrs :: "bytes \<Rightarrow> nat \<Rightarrow> (channel_attrs \<times> nat) option option" where
  "parse_channel_attrs buf q =
     (if q + 24 > length buf then Some None
      else do {
        maxreq \<leftarrow> rd32 buf (q + 4);
        maxresp \<leftarrow> rd32 buf (q + 8);
        maxops \<leftarrow> rd32 buf (q + 16);
        maxreqs \<leftarrow> rd32 buf (q + 20);
        get_len buf (q + 24) None (\<lambda>ird_count.
          Some (Some (\<lparr>ca_maxreq = maxreq, ca_maxresp = maxresp, ca_maxops = maxops,
                       ca_maxreqs = maxreqs\<rparr>, q + 28 + ird_count * 4)))
      })"

text \<open>
  The loop over \<open>csa_sec_parms\<close>, which ends at the first flavour it does not know:
  \<open>Inl\<close> is the early return, both hold the position reached.
\<close>

fun skip_sec_parms :: "bytes \<Rightarrow> nat \<Rightarrow> nat \<Rightarrow> (nat + nat) option" where
  "skip_sec_parms request 0 pp = Some (Inr pp)"
| "skip_sec_parms request (Suc n) pp =
     get32 request pp (Inl pp) (\<lambda>flavor.
       if flavor = 0 \<or> flavor = 1 then skip_sec_parms request n (pp + 4)
       else Some (Inr (pp + 4)))"

text \<open>\<open>Inl n\<close>: \<open>NFS4ERR_BADXDR\<close> after \<open>n\<close> bytes; \<open>Inr\<close>: client id, channel, end.\<close>

definition create_session_args :: "bytes \<Rightarrow> nat \<Rightarrow> (nat + u64 \<times> channel_attrs \<times> nat) option" where
  "create_session_args request p =
     get64 request p (Inl 0) (\<lambda>client_id.
     get32 request (p + 8) (Inl 0) (\<lambda>_.
     let pp = p + 12 in
     if pp + 4 > length request then Some (Inl 0) else
     let pp = pp + 4 in
     do {
       fore \<leftarrow> parse_channel_attrs request pp;
       (case fore of
          None \<Rightarrow> Some (Inl (pp - p))
        | Some (fore_attrs, pp2) \<Rightarrow> do {
            back \<leftarrow> parse_channel_attrs request pp2;
            (case back of
               None \<Rightarrow> Some (Inl (pp2 - p))
             | Some (_, pp3) \<Rightarrow>
                 if pp3 + 4 > length request then Some (Inl (pp3 - p)) else
                 let pp4 = pp3 + 4 in
                 get_len request pp4 (Inl (pp4 - p)) (\<lambda>sec_count. do {
                   r \<leftarrow> skip_sec_parms request sec_count (pp4 + 4);
                   Some (case r of Inl q \<Rightarrow> Inl (q - p) | Inr q \<Rightarrow> Inr (client_id, fore_attrs, q))
                 }))
          })
     }))"

definition session_id_of :: "u64 \<Rightarrow> bytes" where
  "session_id_of client_id = be64 client_id @ [0, 0, 0, 0, 0, 0, 0, 1]"

text \<open>\<open>x.min(hi).max(lo)\<close>\<close>

definition clamp :: "u32 \<Rightarrow> u32 \<Rightarrow> u32 \<Rightarrow> u32" where
  "clamp lo hi x = max (min x hi) lo"

definition create_session_result :: "u64 \<Rightarrow> channel_attrs \<Rightarrow> bytes" where
  "create_session_result client_id c =
     session_id_of client_id @ be32 1 @ be32 0
     @ be32 0 @ be32 (clamp 4096 1048576 (ca_maxreq c)) @ be32 (clamp 4096 1048576 (ca_maxresp c))
     @ be32 0 @ be32 (clamp 1 100 (ca_maxops c)) @ be32 (clamp 1 64 (ca_maxreqs c)) @ be32 0
     @ be32 0 @ be32 4096 @ be32 4096 @ be32 0 @ be32 2 @ be32 1 @ be32 0"

definition op_create_session :: "env \<Rightarrow> bytes \<Rightarrow> nat \<Rightarrow> nfs4 \<Rightarrow> v4_result" where
  "op_create_session e request p st = do {
     args \<leftarrow> create_session_args request p;
     Some (case args of
         Inl n \<Rightarrow> (op_fail n NFS4ERR_BADXDR, st)
       | Inr (client_id, c, pp) \<Rightarrow>
           (let max_reqs = clamp 1 64 (ca_maxreqs c);
                rec = \<lparr>sr_session_id = session_id_of client_id, sr_client_id = client_id, sr_sequence = 1,
                       sr_highest_slot = max_reqs - 1, sr_fore_max_ops = clamp 1 100 (ca_maxops c),
                       sr_fore_max_reqs = max_reqs, sr_last_used = now e\<rparr>
            in (op_done (create_session_result client_id c) (pp - p),
                st\<lparr>sessions := AList.update (session_id_of client_id) rec (sessions st)\<rparr>)))
   }"

definition op_destroy_session :: "bytes \<Rightarrow> nat \<Rightarrow> nfs4 \<Rightarrow> v4_result" where
  "op_destroy_session request p st =
     get_bytes request p 16 (op_fail 0 NFS4ERR_BADXDR, st) (\<lambda>sid.
       Some (op_done [] 16, st\<lparr>sessions := AList.delete sid (sessions st)\<rparr>))"

definition op_bind_conn_to_session :: "bytes \<Rightarrow> nat \<Rightarrow> nfs4 \<Rightarrow> v4_result" where
  "op_bind_conn_to_session request p st =
     (if p + 24 > length request then Some (op_fail 0 NFS4ERR_BADXDR, st)
      else do {
        sid \<leftarrow> slice request p (p + 16);
        dir \<leftarrow> rd32 request (p + 16);
        rdma \<leftarrow> rd32 request (p + 20);
        Some (if map_of (sessions st) sid = None then (op_fail 24 NFS4ERR_BADSESSION, st)
              else (op_done (sid @ be32 dir @ be32 rdma) 24, st))
      })"

definition op_destroy_clientid :: "bytes \<Rightarrow> nat \<Rightarrow> nfs4 \<Rightarrow> v4_result" where
  "op_destroy_clientid request p st =
     get64 request p (op_done [] 8, st) (\<lambda>client_id.
       Some (op_done [] 8,
             st\<lparr>sessions := filter (\<lambda>(_, s). sr_client_id s \<noteq> client_id) (sessions st)\<rparr>))"

definition op_sequence :: "env \<Rightarrow> bytes \<Rightarrow> nat \<Rightarrow> nfs4 \<Rightarrow> v4_result" where
  "op_sequence e request p st =
     (if p + 32 > length request then Some (op_fail 32 NFS4ERR_BADXDR, st)
      else do {
        sid \<leftarrow> slice request p (p + 16);
        seq_id \<leftarrow> rd32 request (p + 16);
        slot_id \<leftarrow> rd32 request (p + 20);
        highest_slot_id \<leftarrow> rd32 request (p + 24);
        Some (case map_of (sessions st) sid of
            None \<Rightarrow> (op_fail 32 NFS4ERR_BADSESSION, st)
          | Some s \<Rightarrow>
              if seq_id < sr_sequence s then (op_fail 32 NFS4ERR_BADSESSION, st)
              else
                (let hi = max highest_slot_id (sr_highest_slot s);
                     s' = s\<lparr>sr_sequence := seq_id, sr_last_used := now e, sr_highest_slot := hi\<rparr>
                 in (op_done (sid @ be32 seq_id @ be32 slot_id @ be32 hi @ be32 hi @ be32 0) 32,
                     st\<lparr>sessions := AList.update sid s' (sessions st)\<rparr>)))
      })"

definition op_reclaim_complete :: "nfs4 \<Rightarrow> v4_result" where
  "op_reclaim_complete st = Some (op_done [] 4, st)"

section \<open>Lease cleanup\<close>

definition expired :: "nat \<Rightarrow> nat \<Rightarrow> bool" where
  "expired t last_used \<longleftrightarrow> t - last_used > LEASE_TIMEOUT"

text \<open>One turn of the loop over the expired clients.\<close>

definition remove_client ::
    "u64 \<Rightarrow> (u64 \<times> client_record) list \<times> (bytes \<Rightarrow> u64 option) \<Rightarrow>
     (u64 \<times> client_record) list \<times> (bytes \<Rightarrow> u64 option)" where
  "remove_client = (\<lambda>cid (cs, om). case map_of cs cid of
     None \<Rightarrow> (cs, om) | Some r \<Rightarrow> (AList.delete cid cs, om(cr_id_string r := None)))"

definition cleanup_expired :: "nat \<Rightarrow> nfs4 \<Rightarrow> nfs4" where
  "cleanup_expired t st =
     (let expired_sessions = map fst (filter (\<lambda>(_, s). expired t (sr_last_used s)) (sessions st));
          sessions' = fold AList.delete expired_sessions (sessions st);
          active = (\<lambda>(_, s). sr_client_id s) ` set sessions';
          expired_clients = map fst (filter (\<lambda>(i, c). expired t (cr_last_used c) \<and> i \<notin> active) (clients st));
          removed = fold remove_client expired_clients (clients st, client_owner_map st)
      in st\<lparr>sessions := sessions', clients := fst removed, client_owner_map := snd removed\<rparr>)"

section \<open>The invariant of the tables\<close>

definition client_inv :: "nfs4 \<Rightarrow> bool" where
  "client_inv st \<longleftrightarrow>
     distinct (map fst (clients st)) \<and> distinct (map fst (sessions st)) \<and>
     (\<forall>(i, c) \<in> set (clients st). cr_client_id c = i \<and> i < client_counter st) \<and>
     (\<forall>(sid, s) \<in> set (sessions st). sid = session_id_of (sr_client_id s) \<and> sr_session_id s = sid) \<and>
     inj_on (client_owner_map st) (dom (client_owner_map st)) \<and>
     (\<forall>i \<in> ran (client_owner_map st). i < client_counter st)"

lemma client_inv_new: "client_inv (nfs4_new e s m)"
  by (simp add: client_inv_def nfs4_new_def)

lemma session_id_inject [simp]: "session_id_of a = session_id_of b \<longleftrightarrow> a = b"
  by (simp add: session_id_of_def)

lemma length_session_id [simp, len_simps]: "length (session_id_of c) = 16"
  by (simp add: session_id_of_def)

lemma set_map_entry_subset:
  "x \<in> set (AList.map_entry k f xs) \<Longrightarrow> x \<in> set xs \<or> (\<exists>v. (k, v) \<in> set xs \<and> x = (k, f v))"
  by (induction xs) (auto split: if_splits)

lemma fst_map_entry [simp]: "fst ` set (AList.map_entry k f xs) = fst ` set xs"
  by (induction xs) auto

lemma map_fst_map_entry [simp]: "map fst (AList.map_entry k f xs) = map fst xs"
  by (induction xs) auto

lemma fst_update [simp]: "fst ` set (AList.update k v xs) = insert k (fst ` set xs)"
  by (induction xs) auto

lemma fold_delete_filter: "fold AList.delete ks xs = filter (\<lambda>(k, _). k \<notin> set ks) xs"
proof (induction ks arbitrary: xs)
  case Nil
  then show ?case by (simp add: case_prod_unfold)
next
  case (Cons k ks)
  then show ?case by (auto simp: AList.delete_eq case_prod_unfold intro: filter_cong)
qed

lemma distinct_fst_filter: "distinct (map fst xs) \<Longrightarrow> distinct (map fst (filter P xs))"
  by (induction xs) auto

lemma client_invD:
  assumes "client_inv st"
  shows "distinct (map fst (clients st))" "distinct (map fst (sessions st))"
    "\<And>i c. (i, c) \<in> set (clients st) \<Longrightarrow> cr_client_id c = i"
    "\<And>sid s. (sid, s) \<in> set (sessions st) \<Longrightarrow> sid = session_id_of (sr_client_id s) \<and> sr_session_id s = sid"
    "inj_on (client_owner_map st) (dom (client_owner_map st))"
    "\<And>o' i. client_owner_map st o' = Some i \<Longrightarrow> i < client_counter st"
    "\<And>i c. (i, c) \<in> set (clients st) \<Longrightarrow> i < client_counter st"
  using assms by (auto simp: client_inv_def intro: ranI rev_image_eqI)

text \<open>Changes of the client table: a new record, and an update in place.\<close>

lemma client_inv_put:
  assumes inv: "client_inv st" and c: "cr_client_id c = i" and i: "i < client_counter st"
  shows "client_inv (st\<lparr>clients := AList.update i c (clients st)\<rparr>)"
  using assms set_update_subset [of i c "clients st"]
  by (auto simp: client_inv_def distinct_update)

lemma client_inv_alter:
  assumes inv: "client_inv st" and f: "\<And>c. cr_client_id (f c) = cr_client_id c"
  shows "client_inv (st\<lparr>clients := AList.map_entry i f (clients st)\<rparr>)"
  using inv by (auto simp: client_inv_def f dest!: set_map_entry_subset)

lemma client_inv_counter:
  assumes inv: "client_inv st" and room: "client_counter st \<noteq> - 1"
  shows "client_inv (st\<lparr>client_counter := client_counter st + 1\<rparr>)"
  using inv u64_less_succ [OF room] by (auto simp: client_inv_def intro: order.strict_trans)

lemma client_inv_owner:
  assumes inv: "client_inv st" and room: "client_counter st \<noteq> - 1"
    and new: "client_owner_map st o' = None"
  shows "client_inv (st\<lparr>client_counter := client_counter st + 1,
    client_owner_map := (client_owner_map st)(o' \<mapsto> client_counter st)\<rparr>)"
proof -
  have fresh: "client_owner_map st x \<noteq> Some (client_counter st)" for x
    using client_invD(6) [OF inv, of x "client_counter st"] by auto
  have "inj_on ((client_owner_map st)(o' \<mapsto> client_counter st))
      (dom ((client_owner_map st)(o' \<mapsto> client_counter st)))"
    using client_invD(5) [OF inv] fresh by (fastforce simp: inj_on_def dom_def)
  moreover have "\<forall>i \<in> ran ((client_owner_map st)(o' \<mapsto> client_counter st)). i < client_counter st + 1"
    using inv new u64_less_succ [OF room]
    by (auto simp: client_inv_def intro: order.strict_trans)
  moreover have "\<forall>(i, c) \<in> set (clients st). cr_client_id c = i \<and> i < client_counter st + 1"
    using inv u64_less_succ [OF room] by (auto simp: client_inv_def intro: order.strict_trans)
  ultimately show ?thesis using inv by (simp add: client_inv_def)
qed

lemma client_inv_session:
  assumes "client_inv st" "sr_client_id s = c" "sr_session_id s = session_id_of c"
  shows "client_inv (st\<lparr>sessions := AList.update (session_id_of c) s (sessions st)\<rparr>)"
  using assms set_update_subset [of "session_id_of c" s "sessions st"]
  by (auto simp: client_inv_def distinct_update)

lemma client_inv_filter:
  assumes "client_inv st"
  shows "client_inv (st\<lparr>sessions := filter P (sessions st)\<rparr>)"
  using assms by (auto simp: client_inv_def distinct_fst_filter)

section \<open>Steps of the session layer\<close>

text \<open>
  One request that reaches the tables of clients and sessions.  The relation describes a
  server whose 64-bit client counter is not exhausted.
\<close>

inductive session_step :: "nfs4 \<Rightarrow> nfs4 \<Rightarrow> bool" where
  step_setclientid: "client_counter st \<noteq> - 1 \<Longrightarrow> op_setclientid e rq p st = Some (r, st') \<Longrightarrow> session_step st st'"
| step_confirm: "op_setclientid_confirm rq p st = Some (r, st') \<Longrightarrow> session_step st st'"
| step_exchange_id: "client_counter st \<noteq> - 1 \<Longrightarrow> op_exchange_id e rq p st = Some (r, st') \<Longrightarrow> session_step st st'"
| step_create_session: "op_create_session e rq p st = Some (r, st') \<Longrightarrow> session_step st st'"
| step_destroy_session: "op_destroy_session rq p st = Some (r, st') \<Longrightarrow> session_step st st'"
| step_destroy_clientid: "op_destroy_clientid rq p st = Some (r, st') \<Longrightarrow> session_step st st'"
| step_sequence: "op_sequence e rq p st = Some (r, st') \<Longrightarrow> session_step st st'"

lemma setclientid_args_cases:
  "setclientid_args rq p bad k = Some x \<Longrightarrow> (\<exists>n. x = bad n) \<or> (\<exists>v i c q. k v i c q = Some x)"
  by (auto simp: setclientid_args_def get_simps Let_def split: if_splits)

lemma op_setclientid_cases:
  assumes "op_setclientid e rq p st = Some (r, st')"
  obtains "st' = st"
  | i cv where "st' = st\<lparr>clients := AList.map_entry i (\<lambda>c. c\<lparr>cr_confirm_verifier := cv\<rparr>) (clients st)\<rparr>"
  | c where "cr_client_id c = client_counter st"
      "st' = st\<lparr>client_counter := client_counter st + 1, clients := AList.update (client_counter st) c (clients st)\<rparr>"
proof -
  from setclientid_args_cases [OF assms [unfolded op_setclientid_def]]
  consider n where "(r, st') = (op_fail n NFS4ERR_BADXDR, st)"
    | v i c q where "(let consumed = q - p in
         case List.find (\<lambda>r. cr_id_string r = i) (map snd (clients st)) of
           Some r \<Rightarrow>
             (if cr_verifier r = v then
                let cid = cr_client_id r; cv = confirm_verifier e cid
                in Some (op_done (be64 cid @ cv) consumed,
                         st\<lparr>clients := AList.map_entry cid (\<lambda>c. c\<lparr>cr_confirm_verifier := cv\<rparr>) (clients st)\<rparr>)
              else Some (op_fail consumed NFS4ERR_CLID_INUSE, st))
         | None \<Rightarrow>
             (let cid = client_counter st; cv = confirm_verifier e cid;
                  rec = \<lparr>cr_client_id = cid, cr_verifier = v, cr_id_string = i,
                         cr_callback_program = c, cr_confirmed = False,
                         cr_confirm_verifier = cv, cr_sequence = 0, cr_last_used = now e\<rparr>
              in Some (op_done (be64 cid @ cv) consumed,
                       st\<lparr>client_counter := cid + 1, clients := AList.update cid rec (clients st)\<rparr>)))
        = Some (r, st')"
    by blast
  then show thesis
  proof cases
    case 1
    then show ?thesis using that(1) by simp
  next
    case 2
    show ?thesis
    proof (cases "List.find (\<lambda>r. cr_id_string r = i) (map snd (clients st))")
      case None
      with 2 show ?thesis by (intro that(3)) (auto simp: Let_def)
    next
      case (Some x)
      with 2 show ?thesis using that(1,2) by (auto simp: Let_def split: if_splits)
    qed
  qed
qed

lemma op_exchange_id_cases:
  assumes "op_exchange_id e rq p st = Some (r, st')"
  obtains "exchange_id_args rq p = Some None" "r = op_fail 0 NFS4ERR_BADXDR" "st' = st"
  | o' q i s c where "exchange_id_args rq p = Some (Some (o', q))"
      "client_owner_map st o' = Some i" "cr_client_id c = i"
      "r = op_done (exchange_id_result i s) (q - p)"
      "st' = st\<lparr>clients := AList.update i c (clients st)\<rparr>"
  | o' q s c where "exchange_id_args rq p = Some (Some (o', q))"
      "client_owner_map st o' = None" "cr_client_id c = client_counter st"
      "r = op_done (exchange_id_result (client_counter st) s) (q - p)"
      "st' = st\<lparr>client_counter := client_counter st + 1,
         client_owner_map := (client_owner_map st)(o' \<mapsto> client_counter st),
         clients := AList.update (client_counter st) c (clients st)\<rparr>"
proof (cases "exchange_id_args rq p")
  case None
  with assms show thesis by (simp add: op_exchange_id_def)
next
  case (Some a)
  show thesis
  proof (cases a)
    case None
    with Some assms that(1) show ?thesis by (simp add: op_exchange_id_def)
  next
    case (Some oq)
    obtain o' q where oq: "oq = (o', q)" by (cases oq)
    have a: "exchange_id_args rq p = Some (Some (o', q))"
      using \<open>exchange_id_args rq p = Some a\<close> Some oq by simp
    show ?thesis
    proof (cases "client_owner_map st o'")
      case None
      with assms a show ?thesis
        by (intro that(3) [OF a None]) (auto simp: op_exchange_id_def Let_def)
    next
      case (Some i)
      with assms a show ?thesis
        by (intro that(2) [OF a Some]) (auto simp: op_exchange_id_def Let_def)
    qed
  qed
qed

lemma op_create_session_cases:
  assumes "op_create_session e rq p st = Some (r, st')"
  obtains n where "create_session_args rq p = Some (Inl n)" "r = op_fail n NFS4ERR_BADXDR" "st' = st"
  | c a q s where "create_session_args rq p = Some (Inr (c, a, q))"
      "r = op_done (create_session_result c a) (q - p)"
      "sr_client_id s = c" "sr_session_id s = session_id_of c" "sr_sequence s = 1" "sr_last_used s = now e"
      "sr_fore_max_ops s = clamp 1 100 (ca_maxops a)" "sr_fore_max_reqs s = clamp 1 64 (ca_maxreqs a)"
      "sr_highest_slot s = clamp 1 64 (ca_maxreqs a) - 1"
      "st' = st\<lparr>sessions := AList.update (session_id_of c) s (sessions st)\<rparr>"
proof (cases "create_session_args rq p")
  case None
  with assms show thesis by (simp add: op_create_session_def)
next
  case (Some a)
  show thesis
  proof (cases a)
    case (Inl n)
    with Some assms that(1) show ?thesis by (simp add: op_create_session_def)
  next
    case (Inr cq)
    obtain c b q where "cq = (c, b, q)" by (cases cq)
    with Some Inr assms show ?thesis
      by (intro that(2) [of c b q "\<lparr>sr_session_id = session_id_of c, sr_client_id = c, sr_sequence = 1,
           sr_highest_slot = clamp 1 64 (ca_maxreqs b) - 1, sr_fore_max_ops = clamp 1 100 (ca_maxops b),
           sr_fore_max_reqs = clamp 1 64 (ca_maxreqs b), sr_last_used = now e\<rparr>"])
        (auto simp: op_create_session_def Let_def)
  qed
qed

lemma op_sequence_cases:
  assumes "op_sequence e rq p st = Some (r, st')"
  obtains s where "r = op_fail 32 s" "s \<noteq> NFS4_OK" "st' = st"
  | sid s hi where "p + 32 \<le> length rq" "sid = take 16 (drop p rq)" "map_of (sessions st) sid = Some s"
      "sr_sequence s \<le> u32_at rq (p + 16)" "op_status r = NFS4_OK"
      "st' = st\<lparr>sessions := AList.update sid (s\<lparr>sr_sequence := u32_at rq (p + 16), sr_last_used := now e,
         sr_highest_slot := hi\<rparr>) (sessions st)\<rparr>"
proof (cases "p + 32 \<le> length rq")
  case False
  with assms that(1) [of NFS4ERR_BADXDR] show thesis
    by (simp add: op_sequence_def nfs4_status_defs)
next
  case True
  show thesis
  proof (cases "map_of (sessions st) (take 16 (drop p rq))")
    case None
    with assms True that(1) [of NFS4ERR_BADSESSION] show ?thesis
      by (simp add: op_sequence_def rd_simps nfs4_status_defs)
  next
    case (Some s)
    show ?thesis
    proof (cases "u32_at rq (p + 16) < sr_sequence s")
      case True
      with assms \<open>p + 32 \<le> length rq\<close> Some that(1) [of NFS4ERR_BADSESSION] show ?thesis
        by (simp add: op_sequence_def rd_simps nfs4_status_defs)
    next
      case False
      with assms \<open>p + 32 \<le> length rq\<close> Some show ?thesis
        by (intro that(2) [OF True refl Some]) (auto simp: op_sequence_def rd_simps Let_def)
    qed
  qed
qed

lemma client_inv_find_session:
  assumes "client_inv st" "map_of (sessions st) sid = Some s"
  shows "sid = session_id_of (sr_client_id s)" "sr_session_id s = session_id_of (sr_client_id s)"
  using client_invD(4) [OF assms(1) map_of_SomeD [OF assms(2)]] by auto

lemma client_inv_sequence:
  assumes "client_inv st" "op_sequence e rq p st = Some (r, st')"
  shows "client_inv st'"
  using assms(2)
proof (cases rule: op_sequence_cases)
  case 1
  then show ?thesis using assms(1) by simp
next
  case (2 sid s hi)
  note sid = client_inv_find_session [OF assms(1) 2(3)]
  show ?thesis unfolding 2(6) sid(1)
    by (rule client_inv_session [OF assms(1)]) (simp_all add: sid(2))
qed

lemma client_inv_exchange_id:
  assumes inv: "client_inv st" and room: "client_counter st \<noteq> - 1"
    and step: "op_exchange_id e rq p st = Some (r, st')"
  shows "client_inv st'"
  using step
proof (cases rule: op_exchange_id_cases)
  case 1
  then show ?thesis using inv by simp
next
  case (2 o' q i s c)
  then show ?thesis using client_inv_put [OF inv 2(3) client_invD(6) [OF inv 2(2)]] by simp
next
  case (3 o' q s c)
  have "client_inv (st\<lparr>client_counter := client_counter st + 1,
      client_owner_map := (client_owner_map st)(o' \<mapsto> client_counter st)\<rparr>)"
    by (rule client_inv_owner [OF inv room 3(2)])
  from client_inv_put [OF this 3(3)] show ?thesis
    using u64_less_succ(1) [OF room] by (simp add: 3(5))
qed

lemma client_inv_setclientid:
  assumes inv: "client_inv st" and room: "client_counter st \<noteq> - 1"
    and step: "op_setclientid e rq p st = Some (r, st')"
  shows "client_inv st'"
  using step
proof (cases rule: op_setclientid_cases)
  case 1
  then show ?thesis using inv by simp
next
  case (2 i cv)
  then show ?thesis by (simp add: client_inv_alter [OF inv])
next
  case (3 c)
  from client_inv_put [OF client_inv_counter [OF inv room], of c "client_counter st"] 3 show ?thesis
    using u64_less_succ(1) [OF room] by simp
qed

lemma session_step_inv: "session_step st st' \<Longrightarrow> client_inv st \<Longrightarrow> client_inv st'"
proof (induction rule: session_step.induct)
  case (step_setclientid st e rq p r st')
  then show ?case by (blast intro: client_inv_setclientid)
next
  case (step_confirm rq p st r st')
  then show ?case
    by (auto simp: op_setclientid_confirm_def rd_simps client_inv_alter split: if_splits)
next
  case (step_exchange_id st e rq p r st')
  then show ?case by (blast intro: client_inv_exchange_id)
next
  case (step_create_session e rq p st r st')
  from step_create_session(1) step_create_session(2) show ?case
    by (cases rule: op_create_session_cases) (auto intro: client_inv_session)
next
  case (step_destroy_session rq p st r st')
  then show ?case
    by (auto simp: op_destroy_session_def get_simps AList.delete_eq client_inv_filter split: if_splits)
next
  case (step_destroy_clientid rq p st r st')
  then show ?case
    by (auto simp: op_destroy_clientid_def get_simps client_inv_filter split: if_splits)
next
  case (step_sequence e rq p st r st')
  then show ?case by (blast intro: client_inv_sequence)
qed

lemma session_steps_inv: "session_step\<^sup>*\<^sup>* st st' \<Longrightarrow> client_inv st \<Longrightarrow> client_inv st'"
  by (induction rule: rtranclp_induct) (auto intro: session_step_inv)

text \<open>No request forgets which client id an owner has.\<close>

lemma session_step_owners: "session_step st st' \<Longrightarrow> client_owner_map st \<subseteq>\<^sub>m client_owner_map st'"
proof (induction rule: session_step.induct)
  case (step_setclientid st e rq p r st')
  from step_setclientid(2) show ?case by (cases rule: op_setclientid_cases) auto
next
  case (step_exchange_id st e rq p r st')
  from step_exchange_id(2) show ?case
    by (cases rule: op_exchange_id_cases) (auto simp: map_le_def)
next
  case (step_create_session e rq p st r st')
  then show ?case by (cases rule: op_create_session_cases) auto
next
  case (step_sequence e rq p st r st')
  then show ?case by (cases rule: op_sequence_cases) auto
qed (auto simp: op_setclientid_confirm_def op_destroy_session_def op_destroy_clientid_def
    get_simps rd_simps split: if_splits)

lemma session_steps_owners:
  "session_step\<^sup>*\<^sup>* st st' \<Longrightarrow> client_owner_map st \<subseteq>\<^sub>m client_owner_map st'"
  by (induction rule: rtranclp_induct) (auto dest: session_step_owners intro: map_le_trans)

lemma exchange_id_reply_id: "take 8 (exchange_id_result i s) = be64 i"
  by (simp add: exchange_id_result_def)

text \<open>After an EXCHANGE_ID the owner is bound to the id of the reply.\<close>

lemma exchange_id_binds:
  assumes "op_exchange_id e rq p st = Some (r, st')" "exchange_id_args rq p = Some (Some (o', q))"
  obtains i where "client_owner_map st' o' = Some i" "take 8 (op_result r) = be64 i"
    "client_owner_map st o' = Some i \<or> client_owner_map st o' = None \<and> i = client_counter st"
  using assms(1)
proof (cases rule: op_exchange_id_cases)
  case 1
  with assms(2) show ?thesis by simp
next
  case (2 x y i s c)
  with assms(2) show ?thesis by (intro that [of i]) (simp_all add: exchange_id_reply_id)
next
  case (3 x y s c)
  with assms(2) show ?thesis
    by (intro that [of "client_counter st"]) (simp_all add: exchange_id_reply_id)
qed

text \<open>
  C26: EXCHANGE_ID gives an owner the same client id every time and different owners
  different ids: whatever session requests come between two calls, the ids they return are
  equal exactly when the owners are.
\<close>

theorem exchange_id_identifies_owner:
  assumes inv: "client_inv st" and room: "client_counter st \<noteq> - 1"
    and first: "op_exchange_id e1 rq1 p1 st = Some (r1, st1)"
    and args1: "exchange_id_args rq1 p1 = Some (Some (owner1, q1))"
    and run: "session_step\<^sup>*\<^sup>* st1 st2"
    and second: "op_exchange_id e2 rq2 p2 st2 = Some (r2, st3)"
    and args2: "exchange_id_args rq2 p2 = Some (Some (owner2, q2))"
  shows "take 8 (op_result r1) = take 8 (op_result r2) \<longleftrightarrow> owner1 = owner2"
proof -
  obtain i where i: "client_owner_map st1 owner1 = Some i" "take 8 (op_result r1) = be64 i"
    using exchange_id_binds [OF first args1] by blast
  have i2: "client_owner_map st2 owner1 = Some i"
    using session_steps_owners [OF run] i(1) by (auto simp: map_le_def dom_def)
  have inv2: "client_inv st2"
    by (rule session_steps_inv [OF run client_inv_exchange_id [OF inv room first]])
  obtain j where j: "take 8 (op_result r2) = be64 j"
      "client_owner_map st2 owner2 = Some j \<or> client_owner_map st2 owner2 = None \<and> j = client_counter st2"
    using exchange_id_binds [OF second args2] by blast
  have "i = j \<longleftrightarrow> owner1 = owner2"
  proof
    assume "i = j"
    with j(2) client_invD(6) [OF inv2 i2] have "client_owner_map st2 owner2 = Some i" by auto
    with client_invD(5) [OF inv2] i2 show "owner1 = owner2" by (auto simp: inj_on_def dom_def)
  next
    assume "owner1 = owner2"
    with i2 j(2) show "i = j" by auto
  qed
  with i(2) j(1) show ?thesis by simp
qed

text \<open>
  SEQUENCE succeeds exactly for a known session with a sequence number not below the
  stored one.  It then records the number and the time and changes no other session; a
  refused SEQUENCE changes nothing.
\<close>

theorem sequence_accepts:
  assumes step: "op_sequence e rq p st = Some (r, st')" and len: "p + 32 \<le> length rq"
  defines "sid \<equiv> take 16 (drop p rq)" and "n \<equiv> u32_at rq (p + 16)"
  shows "(op_status r = NFS4_OK \<longleftrightarrow> (\<exists>s. map_of (sessions st) sid = Some s \<and> sr_sequence s \<le> n)) \<and>
    (op_status r = NFS4_OK \<longrightarrow>
       (\<exists>s. map_of (sessions st') sid = Some s \<and> sr_sequence s = n \<and> sr_last_used s = now e) \<and>
       (\<forall>x. x \<noteq> sid \<longrightarrow> map_of (sessions st') x = map_of (sessions st) x)) \<and>
    (op_status r \<noteq> NFS4_OK \<longrightarrow> st' = st)"
proof (cases "\<exists>s. map_of (sessions st) sid = Some s \<and> sr_sequence s \<le> n")
  case True
  then obtain s where "map_of (sessions st) sid = Some s" "\<not> n < sr_sequence s"
    by (auto simp: not_less)
  with step len have "op_status r = NFS4_OK"
    "sessions st' = AList.update sid (s\<lparr>sr_sequence := n, sr_last_used := now e,
       sr_highest_slot := max (u32_at rq (p + 24)) (sr_highest_slot s)\<rparr>) (sessions st)"
    by (auto simp: op_sequence_def rd_simps sid_def n_def Let_def)
  with True show ?thesis by (simp add: listed.lookup_put)
next
  case False
  with step len have "op_status r = NFS4ERR_BADSESSION \<and> st' = st"
    by (auto simp: op_sequence_def rd_simps sid_def n_def Let_def not_le split: option.splits if_splits)
  with False show ?thesis by (auto simp: nfs4_status_defs)
qed

section \<open>What the lease cleanup removes\<close>

lemma fst_remove_client: "fst (remove_client cid x) = AList.delete cid (fst x)"
  by (cases x) (auto simp: remove_client_def map_of_eq_None_iff split: option.splits)

lemma fst_fold_remove_client: "fst (fold remove_client ks x) = fold AList.delete ks (fst x)"
  by (induction ks arbitrary: x) (simp_all add: fst_remove_client)

lemma remove_client_owners: "snd (fold remove_client ks x) \<subseteq>\<^sub>m snd x"
proof (induction ks arbitrary: x)
  case (Cons k ks)
  have "snd (remove_client k x) \<subseteq>\<^sub>m snd x"
    by (cases x) (auto simp: remove_client_def map_le_def split: option.splits)
  with Cons [of "remove_client k x"] show ?case by (auto intro: map_le_trans)
qed simp

lemma snd_fold_remove_client:
  "(\<And>k c. k \<in> set ks \<Longrightarrow> map_of (fst x) k = Some c \<Longrightarrow> cr_id_string c \<noteq> o') \<Longrightarrow>
   snd (fold remove_client ks x) o' = snd x o'"
proof (induction ks arbitrary: x)
  case (Cons k ks)
  have "snd (remove_client k x) o' = snd x o'"
    using Cons.prems [of k] by (cases x) (auto simp: remove_client_def split: option.splits)
  moreover have "snd (fold remove_client ks (remove_client k x)) o' = snd (remove_client k x) o'"
    by (rule Cons.IH) (use Cons.prems in \<open>auto simp: fst_remove_client listed.lookup_remove split: if_splits\<close>)
  ultimately show ?case by simp
qed simp

text \<open>The keys the cleanup collects, and the parts of the state it leaves.\<close>

definition idle_sessions :: "nat \<Rightarrow> nfs4 \<Rightarrow> bytes list" where
  "idle_sessions t st = map fst (filter (\<lambda>(_, s). expired t (sr_last_used s)) (sessions st))"

definition idle_clients :: "nat \<Rightarrow> nfs4 \<Rightarrow> u64 list" where
  "idle_clients t st = map fst (filter (\<lambda>(i, c). expired t (cr_last_used c) \<and>
     i \<notin> (\<lambda>(_, s). sr_client_id s) ` set (fold AList.delete (idle_sessions t st) (sessions st))) (clients st))"

lemma cleanup_parts:
  "sessions (cleanup_expired t st) = fold AList.delete (idle_sessions t st) (sessions st)"
  "clients (cleanup_expired t st) = fold AList.delete (idle_clients t st) (clients st)"
  "client_owner_map (cleanup_expired t st)
     = snd (fold remove_client (idle_clients t st) (clients st, client_owner_map st))"
  by (simp_all add: cleanup_expired_def Let_def idle_sessions_def idle_clients_def fst_fold_remove_client)

lemma in_idle_sessions:
  assumes "client_inv st"
  shows "sid \<in> set (idle_sessions t st) \<longleftrightarrow>
    (\<exists>s. map_of (sessions st) sid = Some s \<and> expired t (sr_last_used s))"
  using client_invD(2) [OF assms] by (force simp: idle_sessions_def)

lemma cleanup_session:
  assumes "client_inv st"
  shows "map_of (sessions (cleanup_expired t st)) sid =
    (case map_of (sessions st) sid of
       Some s \<Rightarrow> if expired t (sr_last_used s) then None else Some s | None \<Rightarrow> None)"
  using in_idle_sessions [OF assms, of sid t]
  by (auto simp: cleanup_parts listed.lookup_remove_all split: option.split)

lemma active_client_iff:
  assumes "client_inv st" "set xs \<subseteq> set (sessions st)"
  shows "i \<in> (\<lambda>(_, s). sr_client_id s) ` set xs \<longleftrightarrow> map_of xs (session_id_of i) \<noteq> None"
proof -
  have "(\<exists>(k, s) \<in> set xs. sr_client_id s = i) \<longleftrightarrow> session_id_of i \<in> fst ` set xs"
    using client_invD(4) [OF assms(1)] assms(2) by force
  then show ?thesis by (force simp: map_of_eq_None_iff)
qed

lemma in_idle_clients:
  assumes "client_inv st"
  shows "i \<in> set (idle_clients t st) \<longleftrightarrow> (\<exists>c. map_of (clients st) i = Some c \<and> expired t (cr_last_used c)) \<and>
    map_of (sessions (cleanup_expired t st)) (session_id_of i) = None"
proof -
  have sub: "set (sessions (cleanup_expired t st)) \<subseteq> set (sessions st)"
    by (auto simp: cleanup_parts fold_delete_filter)
  show ?thesis
    unfolding idle_clients_def cleanup_parts(1) [symmetric] active_client_iff [OF assms sub]
    using client_invD(1) [OF assms] by force
qed

text \<open>
  The lease cleanup removes exactly the sessions idle for more than 300 seconds, and
  exactly the clients idle for that long that have no session left.
\<close>

theorem cleanup_removes_exactly:
  fixes t :: nat
  assumes "client_inv st"
  defines "st' \<equiv> cleanup_expired t st"
  shows "map_of (sessions st') sid =
      (case map_of (sessions st) sid of
         Some s \<Rightarrow> if t - sr_last_used s > LEASE_TIMEOUT then None else Some s | None \<Rightarrow> None) \<and>
    map_of (clients st') cid =
      (case map_of (clients st) cid of
         Some c \<Rightarrow>
           if t - cr_last_used c > LEASE_TIMEOUT \<and> map_of (sessions st') (session_id_of cid) = None
           then None else Some c
       | None \<Rightarrow> None)"
proof
  show "map_of (sessions st') sid =
      (case map_of (sessions st) sid of
         Some s \<Rightarrow> if t - sr_last_used s > LEASE_TIMEOUT then None else Some s | None \<Rightarrow> None)"
    unfolding st'_def by (simp add: cleanup_session [OF assms(1), unfolded expired_def])
  show "map_of (clients st') cid =
      (case map_of (clients st) cid of
         Some c \<Rightarrow>
           if t - cr_last_used c > LEASE_TIMEOUT \<and> map_of (sessions st') (session_id_of cid) = None
           then None else Some c
       | None \<Rightarrow> None)"
    using in_idle_clients [OF assms(1), of cid t]
    by (auto simp: st'_def cleanup_parts(2) listed.lookup_remove_all expired_def split: option.split)
qed

text \<open>
  On a server that only has NFSv4.1 clients the cleanup never forgets an owner: an
  expired client leaves its record table, but its entry of the owner map stays, because the
  removal looks for the empty string EXCHANGE_ID stored in the record.
\<close>

theorem cleanup_leaks_owners:
  assumes v41: "\<forall>(i, c) \<in> set (clients st). cr_id_string c = []"
    and owner: "client_owner_map st o' = Some i" "o' \<noteq> []"
  shows "client_owner_map (cleanup_expired t st) o' = Some i"
proof -
  have "snd (fold remove_client (idle_clients t st) (clients st, client_owner_map st)) o'
      = snd (clients st, client_owner_map st) o'"
    using v41 owner(2) by (intro snd_fold_remove_client) (auto dest!: map_of_SomeD)
  then show ?thesis by (simp add: cleanup_parts owner(1))
qed


text \<open>
  CREATE_SESSION accepts every well-formed request, for a client id it has issued or
  not, replaces the session of that client and keeps the negotiated limits in bounds: 4 KiB
  to 1 MiB for requests and replies, 1 to 100 operations, 1 to 64 requests.
\<close>

theorem create_session_negotiates:
  assumes create: "op_create_session e rq p st = Some (r, st')"
    and args: "create_session_args rq p = Some (Inr (c, a, q))"
  shows "op_status r = NFS4_OK \<and> op_result r = create_session_result c a \<and> length (op_result r) = 80 \<and>
    (\<exists>s. map_of (sessions st') (session_id_of c) = Some s \<and> sr_client_id s = c \<and> sr_sequence s = 1 \<and>
       sr_fore_max_ops s \<in> {1..100} \<and> sr_fore_max_reqs s \<in> {1..64} \<and>
       sr_highest_slot s < sr_fore_max_reqs s) \<and>
    u32_at (op_result r) 28 \<in> {4096..1048576} \<and> u32_at (op_result r) 32 \<in> {4096..1048576}"
  using create
proof (cases rule: op_create_session_cases)
  case (1 n)
  with args show ?thesis by simp
next
  case (2 c' a' q' s)
  have clamp: "lo \<le> hi \<Longrightarrow> clamp lo hi x \<in> {lo..hi}" for lo hi x :: u32
    by (auto simp: clamp_def max_def min_def)
  have pred: "x - 1 < x" if "x \<in> {1..64}" for x :: u32
    using that by (auto simp: word_less_nat_alt word_le_nat_alt unat_sub)
  from 2 args have [simp]: "c' = c" "a' = a" by simp_all
  have "length (op_result r) = 80" "u32_at (op_result r) 28 = clamp 4096 1048576 (ca_maxreq a)"
    "u32_at (op_result r) 32 = clamp 4096 1048576 (ca_maxresp a)"
    by (simp_all add: 2(2) create_session_result_def u32_at_append)
  moreover have "map_of (sessions st') (session_id_of c) = Some s"
    by (simp add: 2(10) listed.lookup_put)
  ultimately show ?thesis
    using clamp [of 4096 1048576] clamp [of 1 100] clamp [of 1 64] pred by (simp add: 2)
qed

section \<open>Concrete requests\<close>

definition exchange_id_request :: "bytes \<Rightarrow> bytes" where
  "exchange_id_request owner = replicate 8 0 @ be32 (of_nat (length owner)) @ owner @ be32 0 @ be32 0 @ be32 0"

definition create_session_request :: "u64 \<Rightarrow> bytes" where
  "create_session_request c =
     be64 c @ be32 0 @ be32 0
     @ (be32 0 @ be32 2000000 @ be32 100 @ be32 0 @ be32 1000 @ be32 0 @ be32 0)
     @ (be32 0 @ be32 0 @ be32 0 @ be32 0 @ be32 0 @ be32 0 @ be32 0)
     @ be32 0 @ be32 0"

definition sequence_request :: "u64 \<Rightarrow> u32 \<Rightarrow> bytes" where
  "sequence_request c n = session_id_of c @ be32 n @ be32 0 @ be32 0 @ be32 0"

lemma exchange_id_request_args:
  "length owner = 4 \<Longrightarrow> exchange_id_args (exchange_id_request owner) 0 = Some (Some (owner, 28))"
  by (simp add: exchange_id_args_def exchange_id_request_def get_simps Let_def u32_at_append pad4_def)

lemma create_session_request_args:
  "create_session_args (create_session_request c) 0
     = Some (Inr (c, \<lparr>ca_maxreq = 2000000, ca_maxresp = 100, ca_maxops = 1000, ca_maxreqs = 0\<rparr>, 80))"
  by (simp add: create_session_args_def create_session_request_def parse_channel_attrs_def get_simps rd_simps
      Let_def u32_at_append)

lemma sequence_request_reads:
  "length (sequence_request c n) = 32" "take 16 (sequence_request c n) = session_id_of c"
  "u32_at (sequence_request c n) 16 = n"
  by (simp_all add: sequence_request_def u32_at_append)

lemma op_exchange_id_total:
  "exchange_id_args rq p = Some a \<Longrightarrow> \<exists>r st'. op_exchange_id e rq p st = Some (r, st')"
  by (cases a) (auto simp: op_exchange_id_def Let_def split: option.split prod.split)

theorem exchange_id_identifies_owner_witness:
  "\<exists>r1 r2 st1 st2.
     op_exchange_id sample_env (exchange_id_request [1, 2, 3, 4]) 0 sample_nfs4 = Some (r1, st1) \<and>
     op_exchange_id sample_env (exchange_id_request [5, 6, 7, 8]) 0 st1 = Some (r2, st2) \<and>
     take 8 (op_result r1) \<noteq> take 8 (op_result r2)"
proof -
  have args: "exchange_id_args (exchange_id_request [1, 2, 3, 4]) 0 = Some (Some ([1, 2, 3, 4], 28))"
    "exchange_id_args (exchange_id_request [5, 6, 7, 8]) 0 = Some (Some ([5, 6, 7, 8], 28))"
    by (simp_all add: exchange_id_request_args)
  obtain r1 st1 r2 st2 where ops:
      "op_exchange_id sample_env (exchange_id_request [1, 2, 3, 4]) 0 sample_nfs4 = Some (r1, st1)"
      "op_exchange_id sample_env (exchange_id_request [5, 6, 7, 8]) 0 st1 = Some (r2, st2)"
    using op_exchange_id_total args by metis
  have "client_inv sample_nfs4" "client_counter sample_nfs4 \<noteq> - 1"
    by (simp_all add: sample_nfs4_def client_inv_new) (simp add: nfs4_new_def)
  from exchange_id_identifies_owner [OF this ops(1) args(1) rtranclp.rtrancl_refl ops(2) args(2)]
  show ?thesis using ops by auto
qed

lemma sample_create:
  "op_create_session sample_env (create_session_request 7) 0 sample_nfs4
     = Some (op_done (create_session_result 7
         \<lparr>ca_maxreq = 2000000, ca_maxresp = 100, ca_maxops = 1000, ca_maxreqs = 0\<rparr>) 80,
       sample_nfs4\<lparr>sessions := [(session_id_of 7, \<lparr>sr_session_id = session_id_of 7, sr_client_id = 7,
         sr_sequence = 1, sr_highest_slot = 0, sr_fore_max_ops = 100, sr_fore_max_reqs = 1,
         sr_last_used = now sample_env\<rparr>)]\<rparr>)"
  by (simp add: op_create_session_def create_session_request_args clamp_def sample_nfs4_def nfs4_new_def)

theorem create_session_negotiates_witness:
  "\<exists>r st'. op_create_session sample_env (create_session_request 7) 0 sample_nfs4 = Some (r, st') \<and>
     op_status r = NFS4_OK \<and> u32_at (op_result r) 28 \<in> {4096..1048576}"
  using create_session_negotiates [OF sample_create create_session_request_args] sample_create by blast

theorem sequence_accepts_witness:
  "\<exists>r st' r2 st2. op_create_session sample_env (create_session_request 7) 0 sample_nfs4 = Some (r, st') \<and>
     op_sequence sample_env (sequence_request 7 3) 0 st' = Some (r2, st2) \<and> op_status r2 = NFS4_OK"
proof -
  obtain r st' x where c: "op_create_session sample_env (create_session_request 7) 0 sample_nfs4 = Some (r, st')"
    and s: "map_of (sessions st') (session_id_of 7) = Some x" "sr_sequence x = 1"
    using sample_create by fastforce
  obtain r2 st2 where q: "op_sequence sample_env (sequence_request 7 3) 0 st' = Some (r2, st2)"
    by (cases "op_sequence sample_env (sequence_request 7 3) 0 st'")
      (auto simp: op_sequence_def rd_simps sequence_request_reads)
  from sequence_accepts [OF q] s have "op_status r2 = NFS4_OK"
    by (auto simp: sequence_request_reads)
  with c q show ?thesis by blast
qed


theorem cleanup_removes_exactly_witness:
  "\<exists>r st'. op_create_session sample_env (create_session_request 7) 0 sample_nfs4 = Some (r, st') \<and>
     map_of (sessions (cleanup_expired (now sample_env + LEASE_TIMEOUT + 1) st')) (session_id_of 7) = None"
proof -
  obtain r st' where c: "op_create_session sample_env (create_session_request 7) 0 sample_nfs4 = Some (r, st')"
    and s: "\<And>x. map_of (sessions st') (session_id_of 7) = Some x \<Longrightarrow> sr_last_used x = now sample_env"
    using sample_create by fastforce
  have "client_inv st'"
    by (rule session_step_inv [OF step_create_session [OF c]]) (simp add: sample_nfs4_def client_inv_new)
  from cleanup_removes_exactly [OF this] s
  have "map_of (sessions (cleanup_expired (now sample_env + LEASE_TIMEOUT + 1) st')) (session_id_of 7) = None"
    by (simp split: option.split)
  with c show ?thesis by blast
qed

theorem cleanup_leaks_owners_witness:
  "client_owner_map (cleanup_expired (10 ^ 20) (sample_nfs4\<lparr>client_owner_map := [[1] \<mapsto> 1]\<rparr>)) [1] = Some 1"
  by (rule cleanup_leaks_owners) (simp_all add: sample_nfs4_def nfs4_new_def)

end
