(* ===== verification/Nfs4_Lock.thy ===== *)
theory Nfs4_Lock
  imports Nfs4_State
begin

text \<open>
  Byte-range locks of the NFSv4 server (\<open>src/nfs/nfs4.rs\<close>): the arguments of LOCK, LOCKT
  and LOCKU, the conflict test and the three operations on the table of granted locks.
\<close>

section \<open>Arguments\<close>

definition READ_LT :: u32 where "READ_LT = 1"
definition WRITE_LT :: u32 where "WRITE_LT = 2"
definition READW_LT :: u32 where "READW_LT = 3"
definition WRITEW_LT :: u32 where "WRITEW_LT = 4"

lemmas lock_type_defs = READ_LT_def WRITE_LT_def READW_LT_def WRITEW_LT_def

record lock_args =
  la_type :: u32
  la_reclaim :: u32
  la_offset :: u64
  la_length :: u64
  la_consumed :: nat
  la_owner :: bytes
  la_client :: u64

text \<open>
  \<open>Err(start_p)\<close> is the inner \<open>None\<close>: every caller turns it into \<open>NFS4ERR_BADXDR\<close> with
  nothing consumed.
\<close>

definition parse_lock_args :: "bytes \<Rightarrow> nat \<Rightarrow> lock_args option option" where
  "parse_lock_args request p =
     get32 request p None (\<lambda>lock_type.
     get32 request (p + 4) None (\<lambda>reclaim.
     get64 request (p + 8) None (\<lambda>offset.
     get64 request (p + 16) None (\<lambda>len.
     get32 request (p + 24) None (\<lambda>is_new.
     let q = p + 28 in
     if is_new \<noteq> 0 then
       (if q + 24 > length request then Some None else
        get64 request (q + 24) None (\<lambda>cid.
        get_len request (q + 32) None (\<lambda>owner_len.
        get_bytes request (q + 36) owner_len None (\<lambda>own.
          Some (Some \<lparr>la_type = lock_type, la_reclaim = reclaim, la_offset = offset, la_length = len,
                      la_consumed = q + 36 + pad4 owner_len - p, la_owner = own, la_client = cid\<rparr>)))))
     else
       (if q + 20 > length request then Some None
        else Some (Some \<lparr>la_type = lock_type, la_reclaim = reclaim, la_offset = offset, la_length = len,
                         la_consumed = q + 20 - p, la_owner = [], la_client = 0\<rparr>)))))))"

text \<open>The number the operations take for the state id: 8 bytes from \<open>p + 32\<close>.\<close>

definition lock_key :: "bytes \<Rightarrow> nat \<Rightarrow> 'r \<Rightarrow> (u64 \<Rightarrow> 'r option) \<Rightarrow> 'r option" where
  "lock_key request p bad k = get64 request (p + 24 + 4 + 4) bad k"

lemma lock_key_eq:
  "lock_key r p bad k = (if p + 40 > length r then Some bad else k (u64_at r (p + 32)))"
proof -
  have "p + 24 + 4 + 4 = p + 32" by simp
  then show ?thesis by (simp add: lock_key_def get_simps add.commute [of p])
qed

section \<open>The conflict test\<close>

definition saturating_add :: "u64 \<Rightarrow> u64 \<Rightarrow> u64" where
  "saturating_add a b = (if a + b < a then - 1 else a + b)"

definition write_type :: "u32 \<Rightarrow> bool" where
  "write_type t \<longleftrightarrow> t = WRITE_LT \<or> t = READW_LT \<or> t = WRITEW_LT"

definition conflicts :: "u32 \<Rightarrow> u64 \<Rightarrow> u64 \<Rightarrow> file_lock \<Rightarrow> bool" where
  "conflicts new_type new_offset new_length l \<longleftrightarrow>
     new_offset < saturating_add (fl_offset l) (fl_length l) \<and>
     fl_offset l < saturating_add new_offset new_length \<and>
     (write_type new_type \<or> write_type (fl_type l))"

definition check_lock_conflict :: "file_lock list \<Rightarrow> u32 \<Rightarrow> u64 \<Rightarrow> u64 \<Rightarrow> file_lock option" where
  "check_lock_conflict existing new_type new_offset new_length =
     List.find (conflicts new_type new_offset new_length) existing"

section \<open>Operations\<close>

definition denied_body :: "file_lock \<Rightarrow> bytes" where
  "denied_body l = be64 (fl_offset l) @ be64 (fl_length l) @ be32 (fl_type l) @ xdr_opaque (fl_owner l)"

definition op_denied :: "file_lock \<Rightarrow> nat \<Rightarrow> opres" where
  "op_denied l consumed = (op_fail consumed NFS4ERR_DENIED)\<lparr>op_result := denied_body l\<rparr>"

definition table_entry :: "nfs4 \<Rightarrow> u64 \<Rightarrow> file_lock list" where
  "table_entry st k = (case locks st k of Some ls \<Rightarrow> ls | None \<Rightarrow> [])"

definition op_lock :: "bytes \<Rightarrow> nat \<Rightarrow> bytes option \<Rightarrow> nfs4 \<Rightarrow> v4_result" where
  "op_lock request p current_fh st =
     (if current_fh = None then Some (op_fail 0 NFS4ERR_NOFILEHANDLE, st)
      else do {
        args \<leftarrow> parse_lock_args request p;
        (case args of
           None \<Rightarrow> Some (op_fail 0 NFS4ERR_BADXDR, st)
         | Some a \<Rightarrow>
             lock_key request p (op_fail (la_consumed a) NFS4ERR_BADXDR, st) (\<lambda>key.
               let file_locks = table_entry st key;
                   st1 = st\<lparr>locks := (locks st)(key \<mapsto> file_locks)\<rparr>
               in Some (case check_lock_conflict file_locks (la_type a) (la_offset a) (la_length a) of
                   Some c \<Rightarrow> (op_denied c (la_consumed a), st1)
                 | None \<Rightarrow>
                     (let lock_stateid = be64 (lock_counter st1) @ [0, 0, 0, 0];
                          l = \<lparr>fl_offset = la_offset a, fl_length = la_length a, fl_type = la_type a,
                               fl_owner = la_owner a, fl_client_id = la_client a, fl_stateid = lock_stateid\<rparr>
                      in (op_done (be32 1 @ lock_stateid) (la_consumed a),
                          st1\<lparr>lock_counter := lock_counter st1 + 1,
                              locks := (locks st1)(key \<mapsto> file_locks @ [l])\<rparr>)))))
      })"

definition op_lockt :: "bytes \<Rightarrow> nat \<Rightarrow> bytes option \<Rightarrow> nfs4 \<Rightarrow> v4_result" where
  "op_lockt request p current_fh st =
     (if current_fh = None then Some (op_fail 0 NFS4ERR_NOFILEHANDLE, st)
      else do {
        args \<leftarrow> parse_lock_args request p;
        (case args of
           None \<Rightarrow> Some (op_fail 0 NFS4ERR_BADXDR, st)
         | Some a \<Rightarrow>
             lock_key request p (op_fail (la_consumed a) NFS4ERR_BADXDR, st) (\<lambda>key.
               Some (case locks st key of
                   None \<Rightarrow> (op_done [] (la_consumed a), st)
                 | Some existing \<Rightarrow>
                     (case check_lock_conflict existing (la_type a) (la_offset a) (la_length a) of
                        Some c \<Rightarrow> (op_denied c (la_consumed a), st)
                      | None \<Rightarrow> (op_done [] (la_consumed a), st)))))
      })"

definition unlocks :: "lock_args \<Rightarrow> file_lock \<Rightarrow> bool" where
  "unlocks a l \<longleftrightarrow> fl_offset l = la_offset a \<and> fl_length l = la_length a \<and>
     fl_type l = la_type a \<and> fl_owner l = la_owner a"

text \<open>\<open>retain\<close> keeps the locks that do not match and remembers the last one that does.\<close>

definition op_locku :: "bytes \<Rightarrow> nat \<Rightarrow> bytes option \<Rightarrow> nfs4 \<Rightarrow> v4_result" where
  "op_locku request p current_fh st =
     (if current_fh = None then Some (op_fail 0 NFS4ERR_NOFILEHANDLE, st)
      else do {
        args \<leftarrow> parse_lock_args request p;
        (case args of
           None \<Rightarrow> Some (op_fail 0 NFS4ERR_BADXDR, st)
         | Some a \<Rightarrow>
             lock_key request p (op_fail (la_consumed a) NFS4ERR_BADXDR, st) (\<lambda>key.
               let (found, st1) =
                 (case locks st key of
                    None \<Rightarrow> (None, st)
                  | Some file_locks \<Rightarrow>
                      (fold (\<lambda>l sid. if unlocks a l then Some (fl_stateid l) else sid) file_locks None,
                       st\<lparr>locks := (locks st)(key \<mapsto> filter (\<lambda>l. \<not> unlocks a l) file_locks)\<rparr>));
                   result = (case found of Some sid \<Rightarrow> be32 1 @ sid | None \<Rightarrow> be32 0 @ replicate 12 0)
               in Some (op_done result (la_consumed a), st1)))
      })"

section \<open>Ranges\<close>

text \<open>The bytes a lock covers: a range that would pass the last offset is cut there.\<close>

definition lock_range :: "u64 \<Rightarrow> u64 \<Rightarrow> nat set" where
  "lock_range off len = {unat off ..< unat (saturating_add off len)}"

definition compatible :: "file_lock \<Rightarrow> file_lock \<Rightarrow> bool" where
  "compatible l m \<longleftrightarrow> \<not> conflicts (fl_type m) (fl_offset m) (fl_length m) l"

lemma unat_saturating_add: "unat (saturating_add a b) = min (unat a + unat b) (2 ^ 64 - 1)"
proof -
  have bounds: "unat a < 2 ^ 64" "unat b < 2 ^ 64"
    using unsigned_less [of a, where 'a = nat] unsigned_less [of b, where 'a = nat] by simp_all
  have sum: "unat (a + b) = (unat a + unat b) mod 2 ^ 64"
    by (simp add: unat_word_ariths)
  have top: "unat (- 1 :: u64) = 2 ^ 64 - 1"
    by (simp add: unsigned_minus_1_eq_mask mask_eq_exp_minus_1)
  show ?thesis
  proof (cases "unat a + unat b < 2 ^ 64")
    case True
    with sum have "unat (a + b) = unat a + unat b" by simp
    with True show ?thesis by (simp only: saturating_add_def word_less_nat_alt) simp
  next
    case False
    with sum bounds have s: "unat (a + b) = unat a + unat b - 2 ^ 64"
      by (simp only: le_mod_geq not_less) simp
    with False bounds have "unat (a + b) < unat a" by linarith
    with False top show ?thesis by (simp only: saturating_add_def word_less_nat_alt) simp
  qed
qed

lemma ranges_overlap:
  assumes "a < saturating_add a la" "b < saturating_add b lb"
  shows "(a < saturating_add b lb \<and> b < saturating_add a la) \<longleftrightarrow> lock_range a la \<inter> lock_range b lb \<noteq> {}"
proof
  assume "a < saturating_add b lb \<and> b < saturating_add a la"
  with assms have "max (unat a) (unat b) \<in> lock_range a la \<inter> lock_range b lb"
    by (auto simp: lock_range_def word_less_nat_alt)
  then show "lock_range a la \<inter> lock_range b lb \<noteq> {}" by blast
qed (auto simp: lock_range_def word_less_nat_alt)

lemma not_overlap_disjoint:
  "\<not> (a < saturating_add b lb \<and> b < saturating_add a la) \<Longrightarrow> lock_range a la \<inter> lock_range b lb = {}"
  by (auto simp: lock_range_def word_less_nat_alt)

lemma compatible_sym: "compatible l m \<longleftrightarrow> compatible m l"
  by (auto simp: compatible_def conflicts_def)

lemma compatible_ranges:
  "compatible l m \<Longrightarrow>
     lock_range (fl_offset l) (fl_length l) \<inter> lock_range (fl_offset m) (fl_length m) = {} \<or>
     \<not> write_type (fl_type l) \<and> \<not> write_type (fl_type m)"
  by (auto simp: compatible_def conflicts_def intro!: not_overlap_disjoint)

text \<open>
  The conflict test is exact on ranges that are not empty: it finds no conflict exactly
  when every granted lock is disjoint from the new range or both are read locks, and a
  conflict it reports is a granted lock that overlaps.
\<close>

theorem check_lock_conflict_exact:
  assumes new: "off < saturating_add off len"
    and old: "\<forall>l \<in> set existing. fl_offset l < saturating_add (fl_offset l) (fl_length l)"
  shows "(check_lock_conflict existing t off len = None \<longleftrightarrow>
      (\<forall>l \<in> set existing. lock_range off len \<inter> lock_range (fl_offset l) (fl_length l) = {} \<or>
         \<not> write_type t \<and> \<not> write_type (fl_type l))) \<and>
    (\<forall>c. check_lock_conflict existing t off len = Some c \<longrightarrow>
       c \<in> set existing \<and> lock_range off len \<inter> lock_range (fl_offset c) (fl_length c) \<noteq> {} \<and>
       (write_type t \<or> write_type (fl_type c)))"
proof -
  have c: "conflicts t off len l \<longleftrightarrow> lock_range off len \<inter> lock_range (fl_offset l) (fl_length l) \<noteq> {} \<and>
      (write_type t \<or> write_type (fl_type l))" if "l \<in> set existing" for l
    using ranges_overlap [OF new, of "fl_offset l" "fl_length l"] old that
    by (auto simp: conflicts_def)
  show ?thesis
    unfolding check_lock_conflict_def find_None_iff using c find_Some_in [of "conflicts t off len" existing]
    by blast
qed

section \<open>The operations by cases\<close>

lemma parse_lock_args_no_panic: "parse_lock_args rq p \<noteq> None"
  by (simp add: parse_lock_args_def get_simps Let_def)

lemma parse_lock_args_len: "parse_lock_args rq p = Some (Some a) \<Longrightarrow> p + 40 \<le> length rq"
  by (auto simp: parse_lock_args_def get_simps Let_def split: if_splits)

definition granted :: "lock_args \<Rightarrow> u64 \<Rightarrow> file_lock" where
  "granted a n = \<lparr>fl_offset = la_offset a, fl_length = la_length a, fl_type = la_type a,
     fl_owner = la_owner a, fl_client_id = la_client a, fl_stateid = be64 n @ [0, 0, 0, 0]\<rparr>"

lemma op_lock_cases:
  assumes "op_lock rq p fh st = Some (r, st')"
  obtains s where "r = op_fail 0 s" "s \<noteq> NFS4_OK" "st' = st"
    "fh = None \<or> parse_lock_args rq p = Some None"
  | a c where "fh \<noteq> None" "parse_lock_args rq p = Some (Some a)"
      "check_lock_conflict (table_entry st (u64_at rq (p + 32))) (la_type a) (la_offset a) (la_length a) = Some c"
      "r = op_denied c (la_consumed a)" "st' = st"
  | a where "fh \<noteq> None" "parse_lock_args rq p = Some (Some a)"
      "check_lock_conflict (table_entry st (u64_at rq (p + 32))) (la_type a) (la_offset a) (la_length a) = None"
      "r = op_done (be32 1 @ be64 (lock_counter st) @ [0, 0, 0, 0]) (la_consumed a)"
      "st' = st\<lparr>lock_counter := lock_counter st + 1,
         locks := (locks st)(u64_at rq (p + 32) \<mapsto>
           table_entry st (u64_at rq (p + 32)) @ [granted a (lock_counter st)])\<rparr>"
proof (cases "fh = None \<or> parse_lock_args rq p = Some None")
  case True
  with assms show thesis
    by (intro that(1) [of "op_status r"]) (auto simp: op_lock_def nfs4_status_defs split: if_splits)
next
  case False
  then obtain a where a: "fh \<noteq> None" "parse_lock_args rq p = Some (Some a)"
    using parse_lock_args_no_panic [of rq p] by (metis option.exhaust)
  note len = parse_lock_args_len [OF a(2)]
  let ?k = "u64_at rq (p + 32)"
  show thesis
  proof (cases "check_lock_conflict (table_entry st ?k) (la_type a) (la_offset a) (la_length a)")
    case None
    with assms a len show ?thesis
      by (intro that(3) [OF a None]) (auto simp: op_lock_def lock_key_eq Let_def granted_def)
  next
    case (Some c)
    then have "locks st ?k = Some (table_entry st ?k)"
      by (auto simp: table_entry_def check_lock_conflict_def split: option.splits)
    then have "(locks st)(?k \<mapsto> table_entry st ?k) = locks st" by (simp add: fun_upd_idem)
    with assms a len Some show ?thesis
      by (intro that(2) [OF a Some]) (auto simp: op_lock_def lock_key_eq Let_def)
  qed
qed

lemma op_lockt_cases:
  assumes "op_lockt rq p fh st = Some (r, st')"
  obtains s where "r = op_fail 0 s" "s \<noteq> NFS4_OK" "st' = st"
    "fh = None \<or> parse_lock_args rq p = Some None"
  | a where "fh \<noteq> None" "parse_lock_args rq p = Some (Some a)" "st' = st"
      "r = (case check_lock_conflict (table_entry st (u64_at rq (p + 32))) (la_type a) (la_offset a) (la_length a) of
         Some c \<Rightarrow> op_denied c (la_consumed a) | None \<Rightarrow> op_done [] (la_consumed a))"
proof (cases "fh = None \<or> parse_lock_args rq p = Some None")
  case True
  with assms show thesis
    by (intro that(1) [of "op_status r"]) (auto simp: op_lockt_def nfs4_status_defs split: if_splits)
next
  case False
  then obtain a where a: "fh \<noteq> None" "parse_lock_args rq p = Some (Some a)"
    using parse_lock_args_no_panic [of rq p] by (metis option.exhaust)
  with assms parse_lock_args_len [OF a(2)] show thesis
    by (intro that(2) [OF a])
      (auto simp: op_lockt_def lock_key_eq table_entry_def check_lock_conflict_def split: option.splits)
qed

lemma op_locku_cases:
  assumes "op_locku rq p fh st = Some (r, st')"
  obtains s where "r = op_fail 0 s" "s \<noteq> NFS4_OK" "st' = st"
    "fh = None \<or> parse_lock_args rq p = Some None"
  | a where "fh \<noteq> None" "parse_lock_args rq p = Some (Some a)"
      "locks st (u64_at rq (p + 32)) = None" "st' = st"
      "r = op_done (be32 0 @ replicate 12 0) (la_consumed a)"
  | a ls sid where "fh \<noteq> None" "parse_lock_args rq p = Some (Some a)"
      "locks st (u64_at rq (p + 32)) = Some ls"
      "st' = st\<lparr>locks := (locks st)(u64_at rq (p + 32) \<mapsto> filter (\<lambda>l. \<not> unlocks a l) ls)\<rparr>"
      "sid = fold (\<lambda>l sid. if unlocks a l then Some (fl_stateid l) else sid) ls None"
      "r = op_done (case sid of Some s \<Rightarrow> be32 1 @ s | None \<Rightarrow> be32 0 @ replicate 12 0) (la_consumed a)"
proof (cases "fh = None \<or> parse_lock_args rq p = Some None")
  case True
  with assms show thesis
    by (intro that(1) [of "op_status r"]) (auto simp: op_locku_def nfs4_status_defs split: if_splits)
next
  case False
  then obtain a where a: "fh \<noteq> None" "parse_lock_args rq p = Some (Some a)"
    using parse_lock_args_no_panic [of rq p] by (metis option.exhaust)
  note len = parse_lock_args_len [OF a(2)]
  show thesis
  proof (cases "locks st (u64_at rq (p + 32))")
    case None
    with assms a len show ?thesis
      by (intro that(2) [OF a None]) (auto simp: op_locku_def lock_key_eq)
  next
    case (Some ls)
    with assms a len show ?thesis
      by (intro that(3) [OF a Some]) (auto simp: op_locku_def lock_key_eq)
  qed
qed

section \<open>The lock table\<close>

definition lock_inv :: "nfs4 \<Rightarrow> bool" where
  "lock_inv st \<longleftrightarrow> (\<forall>k ls. locks st k = Some ls \<longrightarrow> sorted_wrt compatible ls)"

inductive lock_step :: "nfs4 \<Rightarrow> nfs4 \<Rightarrow> bool" where
  step_lock: "op_lock rq p fh st = Some (r, st') \<Longrightarrow> lock_step st st'"
| step_lockt: "op_lockt rq p fh st = Some (r, st') \<Longrightarrow> lock_step st st'"
| step_locku: "op_locku rq p fh st = Some (r, st') \<Longrightarrow> lock_step st st'"

lemma lock_inv_new: "lock_inv (nfs4_new e s m)"
  by (simp add: lock_inv_def nfs4_new_def)

lemma lock_inv_entry: "lock_inv st \<Longrightarrow> sorted_wrt compatible (table_entry st k)"
  by (auto simp: lock_inv_def table_entry_def split: option.split)

lemma lock_inv_put:
  "lock_inv st \<Longrightarrow> sorted_wrt compatible ls \<Longrightarrow> lock_inv (st\<lparr>locks := (locks st)(k \<mapsto> ls)\<rparr>)"
  by (simp add: lock_inv_def)

lemma lock_inv_counter [simp]: "lock_inv (st\<lparr>lock_counter := n\<rparr>) \<longleftrightarrow> lock_inv st"
  by (simp add: lock_inv_def)

lemma no_conflict_compatible:
  "check_lock_conflict ls (la_type a) (la_offset a) (la_length a) = None \<Longrightarrow>
   \<forall>l \<in> set ls. compatible l (granted a n)"
  by (auto simp: check_lock_conflict_def find_None_iff compatible_def granted_def)

lemma lock_step_inv: "lock_step st st' \<Longrightarrow> lock_inv st \<Longrightarrow> lock_inv st'"
proof (induction rule: lock_step.induct)
  case (step_lock rq p fh st r st')
  from step_lock(1) show ?case
  proof (cases rule: op_lock_cases)
    case (3 a)
    with step_lock(2) lock_inv_entry [OF step_lock(2), of "u64_at rq (p + 32)"] show ?thesis
      by (simp add: lock_inv_put [of "st\<lparr>lock_counter := _\<rparr>", simplified] sorted_wrt_append
          no_conflict_compatible)
  qed (use step_lock(2) in simp_all)
next
  case (step_lockt rq p fh st r st')
  from step_lockt(1) step_lockt(2) show ?case by (cases rule: op_lockt_cases) simp_all
next
  case (step_locku rq p fh st r st')
  from step_locku(1) show ?case
  proof (cases rule: op_locku_cases)
    case (3 a ls sid)
    with step_locku(2) show ?thesis
      by (simp add: lock_inv_put sorted_wrt_filter lock_inv_def)
  qed (use step_locku(2) in simp_all)
qed

lemma lock_steps_inv: "lock_step\<^sup>*\<^sup>* st st' \<Longrightarrow> lock_inv st \<Longrightarrow> lock_inv st'"
  by (induction rule: rtranclp_induct) (auto intro: lock_step_inv)

text \<open>
  In every state the lock operations reach from a new server, two locks of one table
  entry cover disjoint ranges or are both read locks.
\<close>

theorem granted_locks_compatible:
  assumes run: "lock_step\<^sup>*\<^sup>* (nfs4_new e s m) st" and entry: "locks st k = Some ls"
    and ij: "i < j" "j < length ls"
  shows "lock_range (fl_offset (ls ! i)) (fl_length (ls ! i))
      \<inter> lock_range (fl_offset (ls ! j)) (fl_length (ls ! j)) = {} \<or>
    \<not> write_type (fl_type (ls ! i)) \<and> \<not> write_type (fl_type (ls ! j))"
  using lock_steps_inv [OF run lock_inv_new] entry ij
  by (intro compatible_ranges) (simp add: lock_inv_def sorted_wrt_iff_nth_less)

text \<open>
  LOCKT predicts LOCK: on the same request and state it changes nothing and returns
  the status LOCK returns.
\<close>

theorem lockt_predicts_lock:
  assumes t: "op_lockt rq p fh st = Some (rt, st1)" and l: "op_lock rq p fh st = Some (rl, st2)"
  shows "st1 = st \<and> op_status rt = op_status rl \<and> advance rt = advance rl"
  using t
proof (cases rule: op_lockt_cases)
  case (1 s)
  from l t 1(4) show ?thesis
    by (auto simp: op_lock_def op_lockt_def split: if_splits)
next
  case (2 a)
  from l 2 show ?thesis by (cases rule: op_lock_cases) (auto simp: op_denied_def)
qed

text \<open>Requests that may add locks but not remove any.\<close>

inductive grant_step :: "nfs4 \<Rightarrow> nfs4 \<Rightarrow> bool" where
  "op_lock rq p fh st = Some (r, st') \<Longrightarrow> grant_step st st'"
| "op_lockt rq p fh st = Some (r, st') \<Longrightarrow> grant_step st st'"

text \<open>They append locks that are compatible with those that are there.\<close>

lemma grant_step_appends:
  assumes "grant_step st st'"
  shows "\<exists>new. table_entry st' k = table_entry st k @ new \<and> (\<forall>g \<in> set (table_entry st k). \<forall>l \<in> set new. compatible g l)"
  using assms
proof cases
  case (1 rq p fh r)
  from 1(1) show ?thesis
  proof (cases rule: op_lock_cases)
    case (3 a)
    show ?thesis
    proof (cases "k = u64_at rq (p + 32)")
      case True
      with 3 no_conflict_compatible [OF 3(3), of "lock_counter st"] show ?thesis
        by (intro exI [of _ "[granted a (lock_counter st)]"]) (simp add: table_entry_def)
    next
      case False
      with 3 show ?thesis by (intro exI [of _ "[]"]) (simp add: table_entry_def)
    qed
  qed (intro exI [of _ "[]"]; simp)+
next
  case (2 rq p fh r)
  from 2(1) show ?thesis
    by (cases rule: op_lockt_cases) (intro exI [of _ "[]"]; simp)+
qed

lemma grant_steps_append:
  "grant_step\<^sup>*\<^sup>* st st' \<Longrightarrow> g \<in> set (table_entry st k) \<Longrightarrow>
     \<exists>new. table_entry st' k = table_entry st k @ new \<and> (\<forall>l \<in> set new. compatible g l)"
proof (induction rule: rtranclp_induct)
  case base
  show ?case by (intro exI [of _ "[]"]) simp
next
  case (step st1 st2)
  from step.IH [OF step.prems] obtain new where n: "table_entry st1 k = table_entry st k @ new"
    "\<forall>l \<in> set new. compatible g l" by blast
  obtain more_new where m: "table_entry st2 k = table_entry st1 k @ more_new"
    "\<forall>g \<in> set (table_entry st1 k). \<forall>l \<in> set more_new. compatible g l"
    using grant_step_appends [OF step.hyps(2)] by blast
  with n step.prems show ?case by (intro exI [of _ "new @ more_new"]) auto
qed

text \<open>
  C29: LOCKU undoes LOCK: after a write lock on a range that is not empty was granted, and any
  further LOCK and LOCKT requests of whatever clients, LOCKU with the arguments of the first removes
  the lock granted then and no other, before or after it, and its reply carries the state id the
  LOCK returned.
\<close>

theorem unlock_undoes_lock:
  assumes l: "op_lock rq p fh st = Some (r1, st1)" and ok: "op_status r1 = NFS4_OK"
    and a: "parse_lock_args rq p = Some (Some a)" "write_type (la_type a)"
      "la_offset a < saturating_add (la_offset a) (la_length a)"
    and between: "grant_step\<^sup>*\<^sup>* st1 st2"
    and u: "op_locku rq p fh st2 = Some (r2, st3)"
  shows "\<exists>k later. table_entry st2 k = table_entry st k @ granted a (lock_counter st) # later
    \<and> table_entry st3 = (table_entry st2)(k := table_entry st k @ later)
    \<and> op_result r2 = op_result r1 \<and> op_status r2 = NFS4_OK"
  using l
proof (cases rule: op_lock_cases)
  case (1 s)
  with ok show ?thesis by simp
next
  case (2 b c)
  with ok show ?thesis by (simp add: op_denied_def nfs4_status_defs)
next
  case (3 b)
  let ?k = "u64_at rq (p + 32)"
  let ?g = "granted a (lock_counter st)"
  from 3 a have [simp]: "b = a" by simp
  have entry: "table_entry st1 ?k = table_entry st ?k @ [?g]" by (simp add: 3(5) table_entry_def)
  with grant_steps_append [OF between, of ?g ?k] obtain later where
    later: "table_entry st2 ?k = table_entry st ?k @ ?g # later" "\<forall>l \<in> set later. compatible ?g l" by auto
  have before_kept: "\<forall>l \<in> set (table_entry st ?k). \<not> unlocks a l"
    using no_conflict_compatible [OF 3(3)] a
    by (auto simp: compatible_def conflicts_def granted_def unlocks_def)
  have later_kept: "\<forall>l \<in> set later. \<not> unlocks a l"
    using later(2) a by (auto simp: compatible_def conflicts_def granted_def unlocks_def)
  have g: "unlocks a ?g" by (simp add: unlocks_def granted_def)
  have rest: "filter (\<lambda>l. \<not> unlocks a l) (table_entry st2 ?k) = table_entry st ?k @ later"
    using before_kept later_kept g by (simp add: later(1) filter_id_conv)
  have keep: "fold (\<lambda>l sid. if unlocks a l then Some (fl_stateid l) else sid) later x = x" for x
    using later_kept by (induction later arbitrary: x) simp_all
  have sid: "fold (\<lambda>l sid. if unlocks a l then Some (fl_stateid l) else sid) (table_entry st2 ?k) None = Some (fl_stateid ?g)"
    using g by (simp add: later(1) keep)
  have some: "locks st2 ?k = Some (table_entry st2 ?k)"
    using later(1) by (simp add: table_entry_def split: option.splits)
  have "r2 = op_done (be32 1 @ fl_stateid ?g) (la_consumed a)
      \<and> st3 = st2\<lparr>locks := (locks st2)(?k \<mapsto> table_entry st ?k @ later)\<rparr>"
    using u
  proof (cases rule: op_locku_cases)
    case (1 s)
    with 3(1,2) show ?thesis by simp
  next
    case (2 c)
    with some show ?thesis by simp
  next
    case (3 c ls s)
    with some a(1) rest sid show ?thesis by simp
  qed
  then have "table_entry st3 = (table_entry st2)(?k := table_entry st ?k @ later)"
    "op_result r2 = op_result r1" "op_status r2 = NFS4_OK"
    by (auto simp: 3(4) granted_def table_entry_def fun_eq_iff)
  with later(1) show ?thesis by blast
qed

section \<open>Which locks share a table entry\<close>

text \<open>
  A LOCK request of a new lock owner for the open state id the server returned for open
  number \<open>n\<close>: sequence number 1 and 12 bytes, \<open>n\<close> and four zeros.
\<close>

definition lock_request :: "u64 \<Rightarrow> u32 \<Rightarrow> u64 \<Rightarrow> u64 \<Rightarrow> u64 \<Rightarrow> bytes \<Rightarrow> bytes" where
  "lock_request n t off len client owner =
     be32 t @ be32 0 @ be64 off @ be64 len @ be32 1 @ be32 0
     @ (be32 1 @ be64 n @ be32 0) @ be32 0 @ be64 client @ be32 (of_nat (length owner)) @ owner"

lemma lock_request_args:
  assumes "length owner < 2 ^ 32"
  shows "\<exists>c. parse_lock_args (lock_request n t off len client owner) 0
     = Some (Some \<lparr>la_type = t, la_reclaim = 0, la_offset = off, la_length = len, la_consumed = c,
                  la_owner = owner, la_client = client\<rparr>)"
  using assms
  by (simp add: parse_lock_args_def lock_request_def get_simps Let_def u32_at_append u64_at_append
      unat_of_nat_u32)

lemma high_bytes_zero:
  assumes "n < 2 ^ 32"
  shows "take 4 (be64 n) = [0, 0, 0, 0]"
proof -
  have z: "drop_bit k n = 0" if "(2 :: u64) ^ 32 \<le> 2 ^ k" for k
    using order.strict_trans2 [OF assms that] by (simp add: drop_bit_eq_div div_word_less)
  have "drop_bit 56 n = 0" "drop_bit 48 n = 0" "drop_bit 40 n = 0" "drop_bit 32 n = 0"
    by (rule z, simp)+
  then show ?thesis by (simp add: be64_def)
qed

lemma lock_request_key:
  assumes "n < 2 ^ 32"
  shows "u64_at (lock_request n t off len client owner) 32 = 2 ^ 32"
proof -
  have "take 8 (drop 32 (lock_request n t off len client owner)) = be32 1 @ take 4 (be64 n)"
    by (simp add: lock_request_def)
  also have "\<dots> = be64 (2 ^ 32)"
    unfolding high_bytes_zero [OF assms] by (simp add: be32_def be64_def)
  finally show ?thesis unfolding u64_at_def by (simp only: of_be_be64)
qed

text \<open>
  C38: The table key does not tell files apart: it is read from the wrong offset, so the
  first \<open>2 ^ 32\<close> opens share one entry.  A write lock granted on one open file makes the
  server refuse a write lock of another client on an unrelated file, and also the same
  owner's lock on a second file.
\<close>

theorem locks_collide_across_files:
  assumes files: "n1 < 2 ^ 32" "n2 < 2 ^ 32"
    and owners: "length owner1 < 2 ^ 32" "length owner2 < 2 ^ 32"
    and range: "off < saturating_add off len"
    and l1: "op_lock (lock_request n1 WRITE_LT off len c1 owner1) 0 fh1 st = Some (r1, st1)"
    and ok: "op_status r1 = NFS4_OK"
    and l2: "op_lock (lock_request n2 WRITE_LT off len c2 owner2) 0 (Some fh2) st1 = Some (r2, st2)"
  shows "op_status r2 = NFS4ERR_DENIED"
proof -
  obtain a1 where a1: "parse_lock_args (lock_request n1 WRITE_LT off len c1 owner1) 0 = Some (Some a1)"
      "la_offset a1 = off" "la_length a1 = len" "la_type a1 = WRITE_LT"
    using lock_request_args [OF owners(1)] by fastforce
  obtain a2 where a2: "parse_lock_args (lock_request n2 WRITE_LT off len c2 owner2) 0 = Some (Some a2)"
      "la_offset a2 = off" "la_length a2 = len" "la_type a2 = WRITE_LT"
    using lock_request_args [OF owners(2)] by fastforce
  note keys = lock_request_key [OF files(1)] lock_request_key [OF files(2)]
  from l1 obtain g where g: "g \<in> set (table_entry st1 (2 ^ 32))" "conflicts WRITE_LT off len g"
  proof (cases rule: op_lock_cases)
    case (3 a)
    with a1 keys range that [of "granted a (lock_counter st)"] show ?thesis
      by (auto simp: table_entry_def granted_def conflicts_def write_type_def)
  qed (use ok in \<open>simp_all add: op_denied_def nfs4_status_defs\<close>)
  from l2 show ?thesis
  proof (cases rule: op_lock_cases)
    case (1 s)
    with a2 show ?thesis by simp
  next
    case (2 a c)
    then show ?thesis by (simp add: op_denied_def)
  next
    case (3 a)
    with a2 keys g show ?thesis by (auto simp: check_lock_conflict_def find_None_iff)
  qed
qed

section \<open>Concrete requests\<close>

lemma lock_ops_no_panic:
  "op_lock rq p fh st \<noteq> None" "op_lockt rq p fh st \<noteq> None" "op_locku rq p fh st \<noteq> None"
  using parse_lock_args_no_panic [of rq p]
  by (cases "parse_lock_args rq p";
      simp add: op_lock_def op_lockt_def op_locku_def lock_key_eq Let_def split: option.split prod.split)+

lemma lock_ops_total:
  "\<exists>r st'. op_lock rq p fh st = Some (r, st')" "\<exists>r st'. op_lockt rq p fh st = Some (r, st')"
  "\<exists>r st'. op_locku rq p fh st = Some (r, st')"
  using lock_ops_no_panic by (metis option.exhaust prod.exhaust)+

definition sample_lock_request :: "u64 \<Rightarrow> bytes" where
  "sample_lock_request n = lock_request n WRITE_LT 0 10 7 [1, 2, 3, 4]"

lemma sample_range: "(0 :: u64) < saturating_add 0 10"
  by (simp add: saturating_add_def)

lemma sample_lock_args:
  obtains a where "parse_lock_args (sample_lock_request n) 0 = Some (Some a)"
    "la_type a = WRITE_LT" "la_offset a = 0" "la_length a = 10"
  using lock_request_args [of "[1, 2, 3, 4]" n WRITE_LT 0 10 7] by (fastforce simp: sample_lock_request_def)

lemma sample_lock_granted:
  obtains r st' g where "op_lock (sample_lock_request 1) 0 (Some [1]) sample_nfs4 = Some (r, st')"
    "op_status r = NFS4_OK" "locks st' (2 ^ 32) = Some [g]" "fl_offset g = 0" "fl_length g = 10"
proof -
  obtain a where a: "parse_lock_args (sample_lock_request 1) 0 = Some (Some a)"
    "la_offset a = 0" "la_length a = 10"
    by (rule sample_lock_args)
  obtain r st' where l: "op_lock (sample_lock_request 1) 0 (Some [1]) sample_nfs4 = Some (r, st')"
    using lock_ops_total(1) by blast
  have k: "u64_at (sample_lock_request 1) 32 = 2 ^ 32"
    unfolding sample_lock_request_def by (rule lock_request_key) simp
  from l show thesis
  proof (cases rule: op_lock_cases)
    case (3 b)
    with l k a show ?thesis
      by (intro that [OF l, of "granted a 1"])
        (simp_all add: table_entry_def sample_nfs4_def nfs4_new_def granted_def)
  qed (use a in \<open>simp_all add: table_entry_def sample_nfs4_def nfs4_new_def check_lock_conflict_def\<close>)
qed

theorem check_lock_conflict_exact_witness:
  "check_lock_conflict [granted (\<lparr>la_type = WRITE_LT, la_reclaim = 0, la_offset = 4, la_length = 2,
     la_consumed = 0, la_owner = [], la_client = 0\<rparr>) 1] READ_LT 0 4 = None"
proof -
  let ?ls = "[granted (\<lparr>la_type = WRITE_LT, la_reclaim = 0, la_offset = 4, la_length = 2,
     la_consumed = 0, la_owner = [], la_client = 0\<rparr>) 1]"
  have "(0 :: u64) < saturating_add 0 4"
    "\<forall>l \<in> set ?ls. fl_offset l < saturating_add (fl_offset l) (fl_length l)"
    by (simp_all add: saturating_add_def granted_def)
  from check_lock_conflict_exact [OF this, of READ_LT] show ?thesis
    by (simp add: granted_def lock_range_def saturating_add_def)
qed

theorem granted_locks_compatible_witness:
  "\<exists>r1 r2 st st' g h. op_lock (sample_lock_request 1) 0 (Some [1]) sample_nfs4 = Some (r1, st) \<and>
     op_lock (lock_request 2 READ_LT 20 5 8 []) 0 (Some [2]) st = Some (r2, st') \<and>
     locks st' (2 ^ 32) = Some [g, h] \<and>
     (lock_range (fl_offset g) (fl_length g) \<inter> lock_range (fl_offset h) (fl_length h) = {} \<or>
      \<not> write_type (fl_type g) \<and> \<not> write_type (fl_type h))"
proof -
  obtain r1 st g where l1: "op_lock (sample_lock_request 1) 0 (Some [1]) sample_nfs4 = Some (r1, st)"
    and g: "locks st (2 ^ 32) = Some [g]" "fl_offset g = 0" "fl_length g = 10"
    by (rule sample_lock_granted)
  obtain r2 st' where l2: "op_lock (lock_request 2 READ_LT 20 5 8 []) 0 (Some [2]) st = Some (r2, st')"
    using lock_ops_total(1) by blast
  obtain a where a: "parse_lock_args (lock_request 2 READ_LT 20 5 8 []) 0 = Some (Some a)"
    "la_offset a = 20" "la_length a = 5"
    using lock_request_args [of "[]" 2 READ_LT 20 5 8] by fastforce
  have k: "u64_at (lock_request 2 READ_LT 20 5 8 []) 32 = 2 ^ 32" by (rule lock_request_key) simp
  have free: "check_lock_conflict (table_entry st (2 ^ 32)) t 20 5 = None" for t
    using g by (simp add: table_entry_def check_lock_conflict_def conflicts_def saturating_add_def)
  from l2 obtain h where h: "locks st' (2 ^ 32) = Some [g, h]"
  proof (cases rule: op_lock_cases)
    case (3 b)
    with k g that show ?thesis by (simp add: table_entry_def)
  qed (use a k free in simp_all)
  have "lock_step\<^sup>*\<^sup>* (nfs4_new sample_env sample_fs sample_em) st'"
    using step_lock [OF l1] step_lock [OF l2] unfolding sample_nfs4_def by (meson rtranclp.simps)
  from granted_locks_compatible [OF this h, of 0 1] l1 l2 h show ?thesis by auto
qed

theorem lockt_predicts_lock_witness:
  "\<exists>r st. op_lockt (sample_lock_request 1) 0 (Some [1]) sample_nfs4 = Some (r, st) \<and> op_status r = NFS4_OK"
proof -
  obtain r1 st1 where l: "op_lock (sample_lock_request 1) 0 (Some [1]) sample_nfs4 = Some (r1, st1)"
    "op_status r1 = NFS4_OK"
    by (rule sample_lock_granted)
  obtain r st where t: "op_lockt (sample_lock_request 1) 0 (Some [1]) sample_nfs4 = Some (r, st)"
    using lock_ops_total(2) by blast
  from lockt_predicts_lock [OF t l(1)] l(2) t show ?thesis by auto
qed

theorem unlock_undoes_lock_witness:
  "\<exists>r1 st1 r2 st3. op_lock (sample_lock_request 1) 0 (Some [1]) sample_nfs4 = Some (r1, st1) \<and>
     op_locku (sample_lock_request 1) 0 (Some [1]) st1 = Some (r2, st3) \<and>
     table_entry st1 (2 ^ 32) \<noteq> [] \<and> table_entry st3 (2 ^ 32) = []"
proof -
  obtain r1 st1 g where l: "op_lock (sample_lock_request 1) 0 (Some [1]) sample_nfs4 = Some (r1, st1)"
    "op_status r1 = NFS4_OK" "locks st1 (2 ^ 32) = Some [g]"
    by (rule sample_lock_granted)
  obtain a where a: "parse_lock_args (sample_lock_request 1) 0 = Some (Some a)"
    "la_type a = WRITE_LT" "la_offset a = 0" "la_length a = 10"
    by (rule sample_lock_args)
  obtain r2 st3 where u: "op_locku (sample_lock_request 1) 0 (Some [1]) st1 = Some (r2, st3)"
    using lock_ops_total(3) by blast
  have "write_type (la_type a)" "la_offset a < saturating_add (la_offset a) (la_length a)"
    using a sample_range by (simp_all add: write_type_def)
  from unlock_undoes_lock [OF l(1,2) a(1) this rtranclp.rtrancl_refl u] obtain k later where
    entry: "table_entry st1 k = table_entry sample_nfs4 k @ granted a (lock_counter sample_nfs4) # later"
    and gone: "table_entry st3 = (table_entry st1)(k := table_entry sample_nfs4 k @ later)" by blast
  have empty: "table_entry sample_nfs4 i = []" for i by (simp add: table_entry_def sample_nfs4_def nfs4_new_def)
  have "table_entry st1 i = (if i = 2 ^ 32 then [g] else [])" for i
  proof -
    from l(1) show ?thesis
    proof (cases rule: op_lock_cases)
      case (1 s)
      with l(2) show ?thesis by simp
    next
      case (2 b c)
      with l(2) show ?thesis by (simp add: op_denied_def nfs4_status_defs)
    next
      case (3 b)
      with l(3) show ?thesis
        by (auto simp: table_entry_def sample_nfs4_def nfs4_new_def split: if_splits)
    qed
  qed
  with entry have "k = 2 ^ 32" "later = []" by (auto simp: empty split: if_splits)
  with gone have "table_entry st3 (2 ^ 32) = []" by (simp add: empty)
  moreover have "table_entry st1 (2 ^ 32) \<noteq> []" using l(3) by (simp add: table_entry_def)
  ultimately show ?thesis using l(1) u by blast
qed

theorem locks_collide_across_files_witness:
  "\<exists>r1 st1 r2 st2. op_lock (sample_lock_request 1) 0 (Some [1]) sample_nfs4 = Some (r1, st1) \<and>
     op_status r1 = NFS4_OK \<and>
     op_lock (sample_lock_request 2) 0 (Some [2]) st1 = Some (r2, st2) \<and> op_status r2 = NFS4ERR_DENIED"
proof -
  obtain r1 st1 where l: "op_lock (sample_lock_request 1) 0 (Some [1]) sample_nfs4 = Some (r1, st1)"
    "op_status r1 = NFS4_OK"
    by (rule sample_lock_granted)
  obtain r2 st2 where l2: "op_lock (sample_lock_request 2) 0 (Some [2]) st1 = Some (r2, st2)"
    using lock_ops_total(1) by blast
  from locks_collide_across_files [OF _ _ _ _ sample_range
      l(1) [unfolded sample_lock_request_def] l(2) l2 [unfolded sample_lock_request_def]] l l2
  show ?thesis by auto
qed

end
