(* ===== verification/Nfs4_Attr.thy ===== *)
theory Nfs4_Attr
  imports Nfs4_State "HOL-Library.Sublist"
begin

text \<open>
  File attributes of the NFSv4 server (\<open>src/nfs/nfs4.rs\<close>): \<open>build_fattr4\<close> with GETATTR, and
  the comparison of VERIFY and NVERIFY.  The reference definition \<open>attr_value\<close> gives the
  encoding of each attribute by its number; the chain of tests of the code is proved to
  produce the values of the requested and supported attributes in ascending order.
\<close>

section \<open>Metadata\<close>

definition is_root_handle :: "bytes \<Rightarrow> bool" where
  "is_root_handle fh \<longleftrightarrow> 16 \<le> length fh \<and> u64_at fh 0 = - 1"

definition meta_of :: "nfs4 \<Rightarrow> path option \<Rightarrow> inode option" where
  "meta_of st p = (case p of None \<Rightarrow> None | Some q \<Rightarrow> metadata (the_fs st) (ext st q))"

text \<open>\<open>and_then(|m| m.modified().ok()).and_then(|t| t.duration_since(UNIX_EPOCH).ok())\<close>\<close>

definition time_of :: "(inode \<Rightarrow> int) \<Rightarrow> inode option \<Rightarrow> nat option" where
  "time_of sel meta = (case meta of None \<Rightarrow> None | Some m \<Rightarrow> since_epoch (sel m))"

definition nanos_of :: "nat option \<Rightarrow> u64" where
  "nanos_of t = (case t of None \<Rightarrow> 0 | Some d \<Rightarrow> of_nat d)"

definition secs_of :: "nat option \<Rightarrow> u64" where
  "secs_of t = (case t of None \<Rightarrow> 0 | Some d \<Rightarrow> as_secs d)"

definition subsec_of :: "nat option \<Rightarrow> u32" where
  "subsec_of t = (case t of None \<Rightarrow> 0 | Some d \<Rightarrow> subsec_nanos d)"

definition size_of :: "inode option \<Rightarrow> u64" where
  "size_of meta = (case meta of None \<Rightarrow> 0 | Some m \<Rightarrow> of_nat (md_len m))"

definition type_of :: "u32 \<Rightarrow> inode option \<Rightarrow> u32" where
  "type_of default_type meta =
     (case meta of None \<Rightarrow> default_type | Some m \<Rightarrow> if md_is_dir m then NF4DIR else NF4REG)"

section \<open>Encoding attributes\<close>

definition bm0_provide :: u32 where
  "bm0_provide = push_bit 0 1 OR push_bit 1 1 OR push_bit 2 1 OR push_bit 3 1 OR push_bit 4 1
     OR push_bit 5 1 OR push_bit 6 1 OR push_bit 7 1 OR push_bit 8 1 OR push_bit 9 1
     OR push_bit 10 1 OR push_bit 20 1"

definition bm1_provide :: u32 where
  "bm1_provide = push_bit (33 - 32) 1 OR push_bit (35 - 32) 1 OR push_bit (36 - 32) 1
     OR push_bit (37 - 32) 1 OR push_bit (41 - 32) 1 OR push_bit (45 - 32) 1 OR push_bit (46 - 32) 1
     OR push_bit (47 - 32) 1 OR push_bit (52 - 32) 1 OR push_bit (53 - 32) 1 OR push_bit (55 - 32) 1"

text \<open>\<open>if bm & (1 << k) != 0 { ... }\<close>\<close>

definition attr_if :: "u32 \<Rightarrow> nat \<Rightarrow> bytes \<Rightarrow> bytes" where
  "attr_if bm k v = (if bm AND push_bit k 1 \<noteq> 0 then v else [])"

definition fileid_of :: "path option \<Rightarrow> bool \<Rightarrow> u64" where
  "fileid_of path is_root =
     (if is_root then 2
      else let path_bytes = (case path of None \<Rightarrow> [] | Some p \<Rightarrow> p)
           in if path_bytes = [] then 2 else fnv1a path_bytes)"

definition attr_vals0 :: "u32 \<Rightarrow> path option \<Rightarrow> inode option \<Rightarrow> u32 \<Rightarrow> bool \<Rightarrow> bytes" where
  "attr_vals0 bm path meta default_type is_root =
     attr_if bm 0 (be32 2 @ be32 bm0_provide @ be32 bm1_provide)
     @ attr_if bm 1 (be32 (type_of default_type meta))
     @ attr_if bm 2 (be32 1)
     @ attr_if bm 3 (be64 (nanos_of (time_of modified meta)))
     @ attr_if bm 4 (be64 (size_of meta))
     @ attr_if bm 5 (be32 1)
     @ attr_if bm 6 (be32 1)
     @ attr_if bm 7 (be32 0)
     @ attr_if bm 8 (be64 1 @ be64 0)
     @ attr_if bm 9 (be32 1)
     @ attr_if bm 10 (be32 90)
     @ attr_if bm 13 (be64 (500 * 1024 * 1024 * 1024))
     @ attr_if bm 14 (be64 (1024 * 1024 * 1024 * 1024))
     @ attr_if bm 15 (be64 (1024 * 1024 * 1024 * 1024))
     @ attr_if bm 20 (be64 (fileid_of path is_root))"

definition mode_of :: "inode option \<Rightarrow> u32" where
  "mode_of meta = (if (case meta of None \<Rightarrow> False | Some m \<Rightarrow> md_is_dir m) then 0x1ED else 0x1A4)"

definition space_used :: "u64 \<Rightarrow> u64" where
  "space_used sz = (if sz = 0 then 0 else ((sz + 511) div 512) * 512)"

definition access_time :: "inode option \<Rightarrow> nat option" where
  "access_time meta =
     (case time_of accessed meta of None \<Rightarrow> time_of modified meta | Some t \<Rightarrow> Some t)"

definition attr_vals1 :: "u32 \<Rightarrow> path option \<Rightarrow> inode option \<Rightarrow> bool \<Rightarrow> bytes" where
  "attr_vals1 bm path meta is_root =
     attr_if bm (33 - 32) (be32 (mode_of meta))
     @ attr_if bm (35 - 32) (be32 1)
     @ attr_if bm (36 - 32) (xdr_opaque (bs ''root''))
     @ attr_if bm (37 - 32) (xdr_opaque (bs ''root''))
     @ attr_if bm (41 - 32) (be32 0 @ be32 0)
     @ attr_if bm (45 - 32) (be64 (space_used (size_of meta)))
     @ attr_if bm (46 - 32) (be64 0)
     @ attr_if bm (47 - 32) (be64 (secs_of (access_time meta)) @ be32 (subsec_of (access_time meta)))
     @ attr_if bm (52 - 32) (be64 (secs_of (time_of created meta)) @ be32 0)
     @ attr_if bm (53 - 32) (be64 (secs_of (time_of modified meta)) @ be32 0)
     @ attr_if bm (55 - 32) (be64 (fileid_of path is_root))"

text \<open>
  The log line reads the values in chunks of four bytes by index, so a length that is not a
  multiple of four would be a panic.
\<close>

definition build_fattr4 :: "nfs4 \<Rightarrow> path option \<Rightarrow> u32 list \<Rightarrow> u32 \<Rightarrow> bool \<Rightarrow> bytes option" where
  "build_fattr4 st path requested default_type is_root =
     (let meta = meta_of st path;
          bm0_requested = (case requested of [] \<Rightarrow> 0 | w # _ \<Rightarrow> w);
          bm1_requested = (case requested of _ # w # _ \<Rightarrow> w | _ \<Rightarrow> 0);
          bm0_actual = bm0_requested AND bm0_provide;
          bm1_actual = bm1_requested AND bm1_provide;
          attr_vals = attr_vals0 bm0_actual path meta default_type is_root
                      @ attr_vals1 bm1_actual path meta is_root
      in if length attr_vals mod 4 \<noteq> 0 then None
         else Some (be32 2 @ be32 bm0_actual @ be32 bm1_actual @ xdr_opaque attr_vals))"

text \<open>The bitmap of a request: \<open>n\<close> words from \<open>p\<close>.\<close>

fun read_words :: "bytes \<Rightarrow> nat \<Rightarrow> nat \<Rightarrow> u32 list option" where
  "read_words request p 0 = Some []"
| "read_words request p (Suc n) = do {
     w \<leftarrow> rd32 request p;
     ws \<leftarrow> read_words request (p + 4) n;
     Some (w # ws)
   }"

definition op_getattr :: "deps \<Rightarrow> bytes \<Rightarrow> nat \<Rightarrow> bytes option \<Rightarrow> nfs4 \<Rightarrow> v4_result" where
  "op_getattr d request p current_fh st =
     (case current_fh of
        None \<Rightarrow> Some (op_fail 0 NFS4ERR_NOFILEHANDLE, st)
      | Some fh \<Rightarrow>
          get_len request p (op_fail 0 NFS4ERR_BADXDR, st) (\<lambda>bitmap_count.
            let consumed = 4 + bitmap_count * 4 in
            if p + consumed > length request then Some (op_fail consumed NFS4ERR_BADXDR, st)
            else do {
              bitmap_words \<leftarrow> read_words request (p + 4) bitmap_count;
              let is_root = is_root_handle fh;
              let path = (if is_root then get_first_export_root (em st) else resolve_st d st fh);
              let default_type = (if is_root then NF4DIR else NF4REG);
              result \<leftarrow> build_fattr4 st path bitmap_words default_type is_root;
              Some (op_done result consumed, st)
            }))"

section \<open>VERIFY and NVERIFY\<close>

text \<open>
  One attribute: its number, the data and the position.  \<open>Inl ()\<close> is \<open>Err(())\<close>; \<open>Inr\<close> holds
  the position after a match, or nothing after a difference.
\<close>

definition compare_attr :: "inode option \<Rightarrow> nat \<Rightarrow> bytes \<Rightarrow> nat \<Rightarrow> (unit + nat option) option" where
  "compare_attr meta k dat off =
     (if k = 4 then
        get64 dat off (Inl ()) (\<lambda>v. Some (Inr (if v \<noteq> size_of meta then None else Some (off + 8))))
      else if k = 3 then
        get64 dat off (Inl ()) (\<lambda>v.
          Some (Inr (if v \<noteq> nanos_of (time_of modified meta) then None else Some (off + 8))))
      else if k = 53 \<or> k = 52 then
        (if off + 12 > length dat then Some (Inl ())
         else do {
           s \<leftarrow> rd64 dat off;
           n \<leftarrow> rd32 dat (off + 8);
           let t = time_of (if k = 53 then modified else created) meta;
           Some (Inr (if s \<noteq> secs_of t \<or> n \<noteq> subsec_of t then None else Some (off + 12)))
         })
      else if k = 1 then
        get32 dat off (Inl ()) (\<lambda>v. Some (Inr (if v \<noteq> type_of NF4REG meta then None else Some (off + 4))))
      else Some (Inl ()))"

fun compare_bits :: "inode option \<Rightarrow> u32 \<Rightarrow> u32 \<Rightarrow> nat list \<Rightarrow> bytes \<Rightarrow> nat \<Rightarrow> (unit + bool) option" where
  "compare_bits meta bm0 bm1 [] dat off = Some (Inr True)"
| "compare_bits meta bm0 bm1 (k # ks) dat off =
     (let (w, m) = (if k < 32 then (bm0, push_bit k 1) else (bm1, push_bit (k - 32) 1)) in
      if w AND m = 0 then compare_bits meta bm0 bm1 ks dat off
      else do {
        r \<leftarrow> compare_attr meta k dat off;
        (case r of
           Inl _ \<Rightarrow> Some (Inl ())
         | Inr None \<Rightarrow> Some (Inr False)
         | Inr (Some off') \<Rightarrow> compare_bits meta bm0 bm1 ks dat off')
      })"

definition compare_attr_vals :: "inode option \<Rightarrow> u32 \<Rightarrow> u32 \<Rightarrow> bytes \<Rightarrow> (unit + bool) option" where
  "compare_attr_vals meta bm0 bm1 dat = compare_bits meta bm0 bm1 [0..<64] dat 0"

definition OP_NVERIFY :: u32 where "OP_NVERIFY = 17"
definition OP_VERIFY :: u32 where "OP_VERIFY = 37"

definition op_verify :: "deps \<Rightarrow> u32 \<Rightarrow> bytes \<Rightarrow> nat \<Rightarrow> bytes option \<Rightarrow> nfs4 \<Rightarrow> v4_result" where
  "op_verify d opcode request p current_fh st =
     (case current_fh of
        None \<Rightarrow> Some (op_fail 0 NFS4ERR_NOFILEHANDLE, st)
      | Some fh \<Rightarrow>
          get_len request p (op_fail 0 NFS4ERR_BADXDR, st) (\<lambda>bm_count.
          let p1 = p + (4 + bm_count * 4) in
          get_len request p1 (op_fail (p1 - p) NFS4ERR_BADXDR, st) (\<lambda>attr_len.
          let p2 = p1 + 4 in
          get_bytes request p2 attr_len (op_fail (p2 - p) NFS4ERR_BADXDR, st) (\<lambda>attr_data.
          let consumed = p2 + pad4 attr_len - p in
          case resolve_st d st fh of
            None \<Rightarrow> Some (op_fail consumed NFS4ERR_STALE, st)
          | Some path \<Rightarrow> do {
              bm0 \<leftarrow> (if bm_count > 0 then rd32 request (p + 4) else Some 0);
              bm1 \<leftarrow> (if bm_count > 1 then rd32 request (p + 8) else Some 0);
              r \<leftarrow> compare_attr_vals (meta_of st (Some path)) bm0 bm1 attr_data;
              Some (case r of
                  Inl _ \<Rightarrow> (op_fail consumed NFS4ERR_ATTRNOTSUPP, st)
                | Inr attrs_match \<Rightarrow>
                    (op_fail consumed
                       (if opcode = OP_NVERIFY then (if attrs_match then NFS4ERR_SAME else NFS4_OK)
                        else (if attrs_match then NFS4_OK else NFS4ERR_NOT_SAME)), st))
            }))))"

section \<open>The reference encoding\<close>

definition supported_attrs :: "nat list" where
  "supported_attrs = [0, 1, 2, 3, 4, 5, 6, 7, 8, 9, 10, 20, 33, 35, 36, 37, 41, 45, 46, 47, 52, 53, 55]"

definition attr_value :: "path option \<Rightarrow> inode option \<Rightarrow> u32 \<Rightarrow> bool \<Rightarrow> nat \<Rightarrow> bytes" where
  "attr_value path meta default_type is_root k =
     (if k = 0 then be32 2 @ be32 bm0_provide @ be32 bm1_provide
      else if k = 1 then be32 (type_of default_type meta)
      else if k \<in> {2, 5, 6, 9, 35} then be32 1
      else if k = 3 then be64 (nanos_of (time_of modified meta))
      else if k = 4 then be64 (size_of meta)
      else if k = 7 then be32 0
      else if k = 8 then be64 1 @ be64 0
      else if k = 10 then be32 90
      else if k \<in> {20, 55} then be64 (fileid_of path is_root)
      else if k = 33 then be32 (mode_of meta)
      else if k \<in> {36, 37} then xdr_opaque (bs ''root'')
      else if k = 41 then be32 0 @ be32 0
      else if k = 45 then be64 (space_used (size_of meta))
      else if k = 46 then be64 0
      else if k = 47 then be64 (secs_of (access_time meta)) @ be32 (subsec_of (access_time meta))
      else if k = 52 then be64 (secs_of (time_of created meta)) @ be32 0
      else if k = 53 then be64 (secs_of (time_of modified meta)) @ be32 0
      else [])"

text \<open>Attribute \<open>k\<close> in a bitmap of two words.\<close>

definition in_bitmap :: "u32 \<Rightarrow> u32 \<Rightarrow> nat \<Rightarrow> bool" where
  "in_bitmap bm0 bm1 k \<longleftrightarrow> (if k < 32 then bit bm0 k else bit bm1 (k - 32))"

lemma attr_if_bit: "attr_if bm k v = (if bit bm k then v else [])"
  by (simp add: attr_if_def bit_iff_and_push_bit_not_eq_0)

lemma bit_shifted_one: "bit (push_bit n 1 :: u32) k \<longleftrightarrow> k = n \<and> n < 32"
  unfolding bit_push_bit_iff bit_1_iff by auto

lemma bit_provide0: "bit bm0_provide k \<longleftrightarrow> k \<in> set supported_attrs \<and> k < 32"
  unfolding bm0_provide_def bit_or_iff bit_shifted_one
  by (simp add: supported_attrs_def) presburger

lemma bit_provide1: "bit bm1_provide k \<longleftrightarrow> k + 32 \<in> set supported_attrs"
  unfolding bm1_provide_def bit_or_iff bit_shifted_one
  by (simp add: supported_attrs_def)

lemma concat_map_filter_Cons:
  "concat (map f (filter P (x # xs))) = (if P x then f x else []) @ concat (map f (filter P xs))"
  by simp

lemma attr_vals_ascending:
  "attr_vals0 (w0 AND bm0_provide) path meta dt root @ attr_vals1 (w1 AND bm1_provide) path meta root
     = concat (map (attr_value path meta dt root) (filter (in_bitmap w0 w1) supported_attrs))"
  unfolding attr_vals0_def attr_vals1_def attr_if_bit
  by (simp add: bit_and_iff bit_provide0 bit_provide1 supported_attrs_def in_bitmap_def
      attr_value_def concat_map_filter_Cons del: filter.simps)

lemma dvd_attr_if [intro]: "4 dvd length v \<Longrightarrow> 4 dvd length (attr_if bm k v)"
  by (simp add: attr_if_def)

lemma attr_vals_aligned:
  "4 dvd length (attr_vals0 bm path meta dt root)" "4 dvd length (attr_vals1 bm path meta root)"
  unfolding attr_vals0_def attr_vals1_def length_append
  by (intro dvd_add dvd_attr_if; simp add: pad4_def)+

definition word_of :: "u32 list \<Rightarrow> nat \<Rightarrow> u32" where
  "word_of ws i = (if i < length ws then ws ! i else 0)"

lemma word_of_cases:
  "(case ws of [] \<Rightarrow> 0 | w # _ \<Rightarrow> w) = word_of ws 0" "(case ws of _ # w # _ \<Rightarrow> w | _ \<Rightarrow> 0) = word_of ws 1"
  by (auto simp: word_of_def split: list.split)

text \<open>
  C30: GETATTR never panics on its attributes and answers with exactly the requested
  attributes the server supports: the bitmap of the reply is the intersection, and the values
  are the reference encodings of those attributes in ascending order.
\<close>

theorem fattr4_is_reference:
  "\<exists>b0 b1. build_fattr4 st path ws dt root = Some (be32 2 @ be32 b0 @ be32 b1
       @ xdr_opaque (concat (map (attr_value path (meta_of st path) dt root)
           (filter (in_bitmap (word_of ws 0) (word_of ws 1)) supported_attrs)))) \<and>
     (\<forall>k < 64. in_bitmap b0 b1 k = (in_bitmap (word_of ws 0) (word_of ws 1) k \<and> k \<in> set supported_attrs)) \<and>
     sorted supported_attrs"
proof (intro exI conjI)
  show "build_fattr4 st path ws dt root = Some (be32 2 @ be32 (word_of ws 0 AND bm0_provide)
      @ be32 (word_of ws 1 AND bm1_provide)
      @ xdr_opaque (concat (map (attr_value path (meta_of st path) dt root)
          (filter (in_bitmap (word_of ws 0) (word_of ws 1)) supported_attrs))))"
    unfolding build_fattr4_def Let_def word_of_cases attr_vals_ascending [symmetric]
    using attr_vals_aligned by (simp add: mod_eq_0_iff_dvd)
  show "\<forall>k < 64. in_bitmap (word_of ws 0 AND bm0_provide) (word_of ws 1 AND bm1_provide) k
      = (in_bitmap (word_of ws 0) (word_of ws 1) k \<and> k \<in> set supported_attrs)"
    by (auto simp: in_bitmap_def bit_and_iff bit_provide0 bit_provide1)
  show "sorted supported_attrs" by (simp add: supported_attrs_def)
qed

theorem fattr4_is_reference_witness:
  "\<exists>b0 b1 vals. build_fattr4 sample_nfs4 None [0xFFFFFFFF] NF4DIR True
     = Some (be32 2 @ be32 b0 @ be32 b1 @ xdr_opaque vals)"
  using fattr4_is_reference [of sample_nfs4 None "[0xFFFFFFFF]" NF4DIR True] by blast

section \<open>What VERIFY compares\<close>

definition verifiable :: "nat \<Rightarrow> bool" where
  "verifiable k \<longleftrightarrow> k \<in> {1, 3, 4, 52, 53}"

definition verify_value :: "inode option \<Rightarrow> nat \<Rightarrow> bytes" where
  "verify_value meta k =
     (if k = 1 then be32 (type_of NF4REG meta)
      else if k = 3 then be64 (nanos_of (time_of modified meta))
      else if k = 4 then be64 (size_of meta)
      else if k = 52 then be64 (secs_of (time_of created meta)) @ be32 (subsec_of (time_of created meta))
      else be64 (secs_of (time_of modified meta)) @ be32 (subsec_of (time_of modified meta)))"

lemma prefix_take: "prefix v xs \<longleftrightarrow> length v \<le> length xs \<and> take (length v) xs = v"
  by (metis append_eq_conv_conj append_take_drop_id length_take min.absorb_iff2 prefix_def take_is_prefix)

lemma prefix_be32: "prefix (be32 w) (drop off dat) \<longleftrightarrow> off + 4 \<le> length dat \<and> u32_at dat off = w"
proof
  assume "prefix (be32 w) (drop off dat)"
  then have "4 \<le> length (drop off dat)" "take 4 (drop off dat) = be32 w" by (simp_all add: prefix_take)
  then show "off + 4 \<le> length dat \<and> u32_at dat off = w" by (simp add: u32_at_def)
next
  assume a: "off + 4 \<le> length dat \<and> u32_at dat off = w"
  then have "be32 w = take 4 (drop off dat)" using be32_of_be [of "take 4 (drop off dat)"] by (auto simp: u32_at_def)
  then show "prefix (be32 w) (drop off dat)" by (metis take_is_prefix)
qed

lemma prefix_be64: "prefix (be64 w) (drop off dat) \<longleftrightarrow> off + 8 \<le> length dat \<and> u64_at dat off = w"
proof
  assume "prefix (be64 w) (drop off dat)"
  then have "8 \<le> length (drop off dat)" "take 8 (drop off dat) = be64 w" by (simp_all add: prefix_take)
  then show "off + 8 \<le> length dat \<and> u64_at dat off = w" by (simp add: u64_at_def)
next
  assume a: "off + 8 \<le> length dat \<and> u64_at dat off = w"
  then have "be64 w = take 8 (drop off dat)" using be64_of_be [of "take 8 (drop off dat)"] by (auto simp: u64_at_def)
  then show "prefix (be64 w) (drop off dat)" by (metis take_is_prefix)
qed

lemma prefix_append_drop:
  "prefix (v @ w) (drop off dat) \<longleftrightarrow> prefix v (drop off dat) \<and> prefix w (drop (off + length v) dat)"
proof (cases "prefix v (drop off dat)")
  case True
  then obtain r where r: "drop off dat = v @ r" by (auto simp: prefix_def)
  then have "drop (off + length v) dat = r"
    by (metis add.commute append_eq_conv_conj drop_drop)
  with True r show ?thesis by simp
next
  case False
  then show ?thesis by (auto dest: append_prefixD)
qed

lemma compare_attr_match:
  "compare_attr meta k dat off = Some (Inr (Some off')) \<longleftrightarrow>
     verifiable k \<and> prefix (verify_value meta k) (drop off dat) \<and> off' = off + length (verify_value meta k)"
proof -
  note defs = compare_attr_def verifiable_def verify_value_def get_simps prefix_be32 prefix_be64
    prefix_append_drop rd_simps Let_def
  consider "k = 1" | "k = 3" | "k = 4" | "k = 52" | "k = 53" | "\<not> verifiable k"
    by (auto simp: verifiable_def)
  then show ?thesis
  proof cases
    case 1
    then show ?thesis by (simp add: defs) blast
  next
    case 2
    then show ?thesis by (simp add: defs) blast
  next
    case 3
    then show ?thesis by (simp add: defs) blast
  next
    case 4
    then show ?thesis by (cases "off + 12 \<le> length dat") (auto simp: defs)
  next
    case 5
    then show ?thesis by (cases "off + 12 \<le> length dat") (auto simp: defs)
  next
    case 6
    then show ?thesis by (simp add: compare_attr_def verifiable_def)
  qed
qed

lemma compare_bits_match:
  "compare_bits meta bm0 bm1 ks dat off = Some (Inr True) \<longleftrightarrow>
     (\<forall>k \<in> set ks. in_bitmap bm0 bm1 k \<longrightarrow> verifiable k) \<and>
     prefix (concat (map (verify_value meta) (filter (in_bitmap bm0 bm1) ks))) (drop off dat)"
proof (induction ks arbitrary: off)
  case (Cons k ks)
  have skip: "(let (w, m) = (if k < 32 then (bm0, push_bit k 1) else (bm1, push_bit (k - 32) 1)) in w AND m = 0)
      \<longleftrightarrow> \<not> in_bitmap bm0 bm1 k"
    by (simp add: in_bitmap_def bit_iff_and_push_bit_not_eq_0)
  show ?case
  proof (cases "in_bitmap bm0 bm1 k")
    case False
    with skip Cons.IH show ?thesis by (auto simp: Let_def split: if_splits)
  next
    case True
    then have "compare_bits meta bm0 bm1 (k # ks) dat off = Some (Inr True) \<longleftrightarrow>
        (\<exists>off'. compare_attr meta k dat off = Some (Inr (Some off')) \<and>
           compare_bits meta bm0 bm1 ks dat off' = Some (Inr True))"
      using skip by (auto simp: Let_def split: if_splits bind_splits sum.splits option.splits)
    then show ?thesis using True by (auto simp: compare_attr_match Cons.IH prefix_append_drop)
  qed
qed simp

text \<open>
  VERIFY matches exactly when every attribute of the request is one of type, change,
  size, time_metadata and time_modify and the data begin with the values these have, in
  ascending order.
\<close>

theorem verify_matches_exactly:
  "compare_attr_vals meta bm0 bm1 dat = Some (Inr True) \<longleftrightarrow>
     (\<forall>k \<in> set [0..<64]. in_bitmap bm0 bm1 k \<longrightarrow> k \<in> {1, 3, 4, 52, 53}) \<and>
     prefix (concat (map (verify_value meta) (filter (in_bitmap bm0 bm1) [0..<64]))) dat"
  using compare_bits_match [of meta bm0 bm1 "[0..<64]" dat 0]
  by (simp only: compare_attr_vals_def verifiable_def drop_0)

lemma filter_single: "k < n \<Longrightarrow> (\<And>i. i < n \<Longrightarrow> P i \<longleftrightarrow> i = k) \<Longrightarrow> filter P [0..<n] = [k]"
proof (induction n)
  case (Suc n)
  show ?case
  proof (cases "k = n")
    case True
    then have "filter P [0..<n] = []" using Suc.prems by (auto simp: filter_empty_conv)
    with True Suc.prems show ?thesis by simp
  next
    case False
    with Suc show ?thesis by simp
  qed
qed simp

lemma single_bitmap:
  "i < 64 \<Longrightarrow> in_bitmap 0 (push_bit 21 1) i \<longleftrightarrow> i = 53"
  "in_bitmap (push_bit 4 1) 0 i \<longleftrightarrow> i = 4"
  unfolding in_bitmap_def bit_shifted_one by auto

theorem verify_matches_exactly_witness:
  "compare_attr_vals None (push_bit 4 1) 0 (be64 0 @ [1, 2, 3, 4]) = Some (Inr True)"
proof -
  have "filter (in_bitmap (push_bit 4 1) 0) [0..<64] = [4]"
    by (rule filter_single) (simp, rule single_bitmap)
  moreover have "verify_value None 4 = be64 0" by (simp add: verify_value_def size_of_def)
  ultimately show ?thesis
    unfolding verify_matches_exactly by (simp only: single_bitmap) simp
qed

text \<open>
  VERIFY refuses the modification time GETATTR returned whenever the time has a
  fraction of a second: GETATTR sends zero nanoseconds, VERIFY compares the real ones.
\<close>

theorem verify_rejects_own_mtime:
  "compare_attr_vals meta 0 (push_bit 21 1) (attr_value path meta dt root 53) = Some (Inr True)
     \<longleftrightarrow> subsec_of (time_of modified meta) = 0"
proof -
  have "filter (in_bitmap 0 (push_bit 21 1)) [0..<64] = [53]"
    by (rule filter_single) (simp, rule single_bitmap)
  moreover have "prefix (verify_value meta 53) (attr_value path meta dt root 53)
      \<longleftrightarrow> subsec_of (time_of modified meta) = 0"
    by (auto simp: verify_value_def attr_value_def prefix_take)
  moreover have "\<forall>k \<in> set [0..<64]. in_bitmap 0 (push_bit 21 1) k \<longrightarrow> verifiable k"
    using single_bitmap(1) by (simp only: set_upt atLeastLessThan_iff) (simp add: verifiable_def)
  ultimately show ?thesis
    unfolding compare_attr_vals_def compare_bits_match drop_0 by (simp only:) simp
qed

end
