(* ===== verification/Nfs4_File.thy ===== *)
theory Nfs4_File
  imports Nfs4_Attr "HOL-Library.List_Lexorder"
begin

text \<open>
  The operations of the NFSv4 server on handles, files and directories (\<open>src/nfs/nfs4.rs\<close>):
  the handle registers, LOOKUP and LOOKUPP, OPEN and CLOSE, READ and WRITE, READDIR, REMOVE,
  RENAME, SETATTR, CREATE, LINK and COMMIT.  Each takes the request, the position of its
  arguments and the handles of the compound, and returns the result with the new state, or
  \<open>None\<close> when it panics.
\<close>

section \<open>Handle registers\<close>

definition encode_synthetic_handle :: "u64 \<Rightarrow> bytes \<Rightarrow> bytes" where
  "encode_synthetic_handle fhid magic =
     (let fh = be64 fhid @ be64 1 @ be32 1 @ magic
      in take 32 (fh @ replicate (32 - length fh) 0))"

definition op_putrootfh :: "nfs4 \<Rightarrow> v4_result" where
  "op_putrootfh st = Some (op_moved 0 (encode_synthetic_handle (- 1) (bs ''nfs4root'')), st)"

definition op_putfh :: "bytes \<Rightarrow> nat \<Rightarrow> nfs4 \<Rightarrow> v4_result" where
  "op_putfh request p st =
     get_len request p (op_fail 0 NFS4ERR_BADXDR, st) (\<lambda>fh_len.
     get_bytes request (p + 4) fh_len (op_fail (p + 4) NFS4ERR_BADXDR, st) (\<lambda>fh.
       let consumed = 4 + pad4 fh_len in
       if fh_len = 0 then Some (op_fail consumed NFS4ERR_BADHANDLE, st)
       else Some (op_moved consumed fh, st\<lparr>em := try_rebuild_fh (the_fs st) fh (em st)\<rparr>)))"

definition encode_fh_for_result :: "bytes \<Rightarrow> bytes" where
  "encode_fh_for_result fh = be32 (of_nat (length fh)) @ fh @ replicate (pad4 (length fh) - length fh) 0"

definition op_getfh :: "bytes option \<Rightarrow> nfs4 \<Rightarrow> v4_result" where
  "op_getfh current_fh st = Some (case current_fh of
       None \<Rightarrow> (op_fail 0 NFS4ERR_NOFILEHANDLE, st)
     | Some fh \<Rightarrow> (op_done (encode_fh_for_result fh) 0, st))"

definition op_savefh :: "bytes option \<Rightarrow> nfs4 \<Rightarrow> v4_result" where
  "op_savefh current_fh st = Some (case current_fh of
       None \<Rightarrow> (op_fail 0 NFS4ERR_NOFILEHANDLE, st)
     | Some fh \<Rightarrow> ((op_done [] 0)\<lparr>new_saved_fh := Some fh\<rparr>, st))"

definition op_restorefh :: "bytes option \<Rightarrow> nfs4 \<Rightarrow> v4_result" where
  "op_restorefh saved_fh st = Some (case saved_fh of
       None \<Rightarrow> (op_fail 0 NFS4ERR_RESTOREFH, st)
     | Some fh \<Rightarrow> (op_moved 0 fh, st))"

section \<open>Lookup\<close>

definition op_lookup :: "deps \<Rightarrow> env \<Rightarrow> bytes \<Rightarrow> nat \<Rightarrow> bytes option \<Rightarrow> nfs4 \<Rightarrow> v4_result" where
  "op_lookup d e request p current_fh st =
     (case current_fh of
        None \<Rightarrow> Some (op_fail 0 NFS4ERR_NOFILEHANDLE, st)
      | Some fh \<Rightarrow>
          get_len request p (op_fail 0 NFS4ERR_BADXDR, st) (\<lambda>name_len.
          let consumed = 4 + pad4 name_len in
          get_bytes request (p + 4) name_len (op_fail consumed NFS4ERR_BADXDR, st) (\<lambda>raw.
          let name = utf8_lossy raw in
          Some (if is_root_handle fh then
              (case get_export (em st) name of
                 Some ex \<Rightarrow>
                   (let (export_fh, m) = create_file_handle d e (exp_path ex) (em st)
                    in (op_moved consumed export_fh, st\<lparr>em := m\<rparr>))
               | None \<Rightarrow> (op_fail consumed NFS4ERR_NOENT, st))
            else
              (case lookup_child d e (the_fs st) fh name (em st) of
                 (None, m) \<Rightarrow> (op_fail consumed NFS4ERR_NOENT, st\<lparr>em := m\<rparr>)
               | (Some (child_fh, _), m) \<Rightarrow> (op_moved consumed child_fh, st\<lparr>em := m\<rparr>))))))"

definition op_lookupp :: "deps \<Rightarrow> env \<Rightarrow> bytes option \<Rightarrow> nfs4 \<Rightarrow> v4_result" where
  "op_lookupp d e current_fh st = Some (case current_fh of
       None \<Rightarrow> (op_fail 0 NFS4ERR_NOFILEHANDLE, st)
     | Some fh \<Rightarrow>
         if is_root_handle fh then (op_moved 0 fh, st)
         else (case resolve_st d st fh of
             None \<Rightarrow> (op_fail 0 NFS4ERR_STALE, st)
           | Some path \<Rightarrow>
               (case path_parent path of
                  None \<Rightarrow> (op_fail 0 NFS4ERR_NOENT, st)
                | Some parent \<Rightarrow>
                    (let export_root = root_or d st fh parent
                     in if \<not> path_starts_with parent export_root then (op_fail 0 NFS4ERR_NOENT, st)
                        else let (parent_fh, st') = new_fh_st d e parent export_root st
                             in (op_moved 0 parent_fh, st')))))"

definition op_access :: "bytes option \<Rightarrow> nfs4 \<Rightarrow> v4_result" where
  "op_access current_fh st =
     Some (if current_fh = None then (op_fail 4 NFS4ERR_NOFILEHANDLE, st)
           else (op_done (be32 0x3F @ be32 0x3F) 4, st))"

section \<open>Open and close\<close>

definition OPEN4_CREATE :: u32 where "OPEN4_CREATE = 1"
definition CLAIM_NULL :: u32 where "CLAIM_NULL = 0"

text \<open>The create mode and attributes of OPEN4_CREATE, which are skipped.\<close>

definition open_create_args :: "bytes \<Rightarrow> nat \<Rightarrow> nat \<Rightarrow> (nat \<Rightarrow> 'r) \<Rightarrow> (nat \<Rightarrow> 'r option) \<Rightarrow> 'r option" where
  "open_create_args request p q bad k =
     get32 request q (bad (q - p)) (\<lambda>_.
     let q1 = q + 4 in
     get_len request q1 (bad (q1 - p)) (\<lambda>bm_count.
     let q2 = q1 + 4 + bm_count * 4 in
     get_len request q2 (bad (q2 - p)) (\<lambda>attr_data_len.
     k (q2 + 4 + pad4 attr_data_len))))"

text \<open>The arguments of OPEN: the open type, the name and the end.\<close>

definition open_args :: "bytes \<Rightarrow> nat \<Rightarrow> (nat \<Rightarrow> 'r) \<Rightarrow> (u32 \<Rightarrow> bytes \<Rightarrow> nat \<Rightarrow> 'r option) \<Rightarrow> 'r option" where
  "open_args request p bad k =
     get32 request p (bad 0) (\<lambda>_.
     get32 request (p + 4) (bad 4) (\<lambda>_.
     get32 request (p + 8) (bad 8) (\<lambda>_.
     get64 request (p + 12) (bad 12) (\<lambda>_.
     get_len request (p + 20) (bad 20) (\<lambda>owner_len.
     let q = p + 24 + pad4 owner_len in
     get32 request q (bad (q - p)) (\<lambda>opentype.
     let claim = (\<lambda>q2.
       get32 request q2 (bad (q2 - p)) (\<lambda>claim_type.
       let q3 = q2 + 4 in
       if claim_type = CLAIM_NULL then
         get_len request q3 (bad (q3 - p)) (\<lambda>name_len.
         let q4 = q3 + 4 in
         get_bytes request q4 name_len (bad (q4 - p)) (\<lambda>raw.
         k opentype (utf8_lossy raw) (q4 + pad4 name_len)))
       else k opentype [] q3))
     in if opentype = OPEN4_CREATE then open_create_args request p (q + 4) bad claim
        else claim (q + 4)))))))"

definition open_result :: "u64 \<Rightarrow> bytes" where
  "open_result stateid_id =
     be32 1 @ (be64 stateid_id @ replicate 4 0) @ be32 0 @ be64 0 @ be64 0 @ be32 0 @ be32 0 @ be32 0"

text \<open>The creation step: the new state, or the status of the failure.\<close>

definition open_create :: "deps \<Rightarrow> env \<Rightarrow> bytes \<Rightarrow> path \<Rightarrow> nfs4 \<Rightarrow> u32 + nfs4" where
  "open_create d e dir_fh file_path st =
     (if is_read_only d (em st) dir_fh then Inl NFS4ERR_ROFS
      else if path_exists (the_fs st) file_path then Inr st
      else (case fs_create_file e (the_fs st) (ext st file_path) of
          Inl _ \<Rightarrow> Inl NFS4ERR_IO
        | Inr s \<Rightarrow> Inr (st\<lparr>the_fs := s\<rparr>)))"

text \<open>
  The rest of OPEN once the directory is resolved: the file is created when asked for, and an
  existing file gets a handle and an entry in the table of open files.
\<close>

definition open_file ::
    "deps \<Rightarrow> env \<Rightarrow> u32 \<Rightarrow> bytes \<Rightarrow> bytes \<Rightarrow> path \<Rightarrow> nfs4 \<Rightarrow> (u32 + bytes \<times> u64) \<times> nfs4" where
  "open_file d e opentype filename dir_fh dir_path st =
     (let file_path = (if filename = [] then dir_path else path_join dir_path filename)
      in case (if opentype = OPEN4_CREATE then open_create d e dir_fh file_path st else Inr st) of
           Inl status \<Rightarrow> (Inl status, st)
         | Inr st1 \<Rightarrow>
             if \<not> path_exists (the_fs st1) file_path then (Inl NFS4ERR_NOENT, st1)
             else
               (let (file_fh, st2) = new_fh_st d e file_path (root_or d st1 dir_fh dir_path) st1;
                    stateid_id = open_counter st2
                in (Inr (file_fh, stateid_id),
                    st2\<lparr>open_counter := stateid_id + 1,
                        open_files := (open_files st2)(stateid_id \<mapsto> file_path)\<rparr>)))"

definition op_open :: "deps \<Rightarrow> env \<Rightarrow> bytes \<Rightarrow> nat \<Rightarrow> bytes option \<Rightarrow> nfs4 \<Rightarrow> v4_result" where
  "op_open d e request p current_fh st =
     (case current_fh of
        None \<Rightarrow> Some (op_fail 0 NFS4ERR_NOFILEHANDLE, st)
      | Some dir_fh \<Rightarrow>
          open_args request p (\<lambda>n. (op_fail n NFS4ERR_BADXDR, st)) (\<lambda>opentype filename pp.
            let consumed = pp - p in
            Some (case resolve_st d st dir_fh of
                None \<Rightarrow> (op_fail consumed NFS4ERR_STALE, st)
              | Some dir_path \<Rightarrow>
                  (case open_file d e opentype filename dir_fh dir_path st of
                     (Inl status, st') \<Rightarrow> (op_fail consumed status, st')
                   | (Inr (file_fh, stateid_id), st') \<Rightarrow>
                       ((op_done (open_result stateid_id) consumed)\<lparr>new_fh := Some file_fh\<rparr>, st')))))"

definition op_open_confirm :: "bytes \<Rightarrow> nat \<Rightarrow> bytes option \<Rightarrow> nfs4 \<Rightarrow> v4_result" where
  "op_open_confirm request p current_fh st =
     (if current_fh = None then Some (op_fail 16 NFS4ERR_NOFILEHANDLE, st)
      else if p + 16 \<le> length request then do {
        sid \<leftarrow> slice request (p + 4) (p + 16);
        Some (op_done ([0, 0, 0, 1] @ sid) 20, st)
      }
      else Some (op_done (replicate 16 0) 20, st))"

definition op_close :: "bytes \<Rightarrow> nat \<Rightarrow> bytes option \<Rightarrow> nfs4 \<Rightarrow> v4_result" where
  "op_close request p current_fh st =
     (if current_fh = None then Some (op_fail 20 NFS4ERR_NOFILEHANDLE, st)
      else if p + 20 \<le> length request then do {
        stateid_id \<leftarrow> rd64 request (p + 4);
        Some (op_done (replicate 16 0) 20, st\<lparr>open_files := (open_files st)(stateid_id := None)\<rparr>)
      }
      else Some (op_done (replicate 16 0) 20, st))"

section \<open>Read, write and commit\<close>

definition op_read :: "deps \<Rightarrow> bytes \<Rightarrow> nat \<Rightarrow> bytes option \<Rightarrow> nfs4 \<Rightarrow> v4_result" where
  "op_read d request p current_fh st =
     (case current_fh of
        None \<Rightarrow> Some (op_fail 24 NFS4ERR_NOFILEHANDLE, st)
      | Some fh \<Rightarrow>
          if p + 28 > length request then Some (op_fail 28 NFS4ERR_BADXDR, st)
          else do {
            off \<leftarrow> rd64 request (p + 16);
            count \<leftarrow> rd32 request (p + 24);
            (case resolve_st d st fh of
               None \<Rightarrow> Some (op_fail 28 NFS4ERR_STALE, st)
             | Some path \<Rightarrow>
                 (case fs_read (the_fs st) (ext st path) of
                    Inl _ \<Rightarrow> Some (op_fail 28 NFS4ERR_IO, st)
                  | Inr dat \<Rightarrow> do {
                      (read_data, eof) \<leftarrow> read_window dat (unat off) (unat count);
                      Some (op_done (be32 (u32_bool eof) @ xdr_opaque read_data) 28, st)
                    }))
          })"

text \<open>
  Open, seek and write.  A file that \<open>create(true)\<close> made stays when the seek or the write
  fails; the flag tells whether the data were written.
\<close>

definition write_file :: "env \<Rightarrow> fs \<Rightarrow> path \<Rightarrow> nat \<Rightarrow> bytes \<Rightarrow> bool \<times> fs" where
  "write_file e s p off dat =
     (case fs_open_create e s p of
        Inl _ \<Rightarrow> (False, s)
      | Inr (i, s1) \<Rightarrow>
          if \<not> seek_ok off then (False, s1)
          else (case fs_write_at e i off dat s1 of Inl _ \<Rightarrow> (False, s1) | Inr s2 \<Rightarrow> (True, s2)))"

definition op_write :: "deps \<Rightarrow> env \<Rightarrow> bytes \<Rightarrow> nat \<Rightarrow> bytes option \<Rightarrow> nfs4 \<Rightarrow> v4_result" where
  "op_write d e request p current_fh st =
     (case current_fh of
        None \<Rightarrow> Some (op_fail 0 NFS4ERR_NOFILEHANDLE, st)
      | Some fh \<Rightarrow>
          if is_read_only d (em st) fh then Some (op_fail 0 NFS4ERR_ROFS, st)
          else if p + 28 > length request then Some (op_fail 0 NFS4ERR_BADXDR, st)
          else do {
            off \<leftarrow> rd64 request (p + 16);
            stable \<leftarrow> rd32 request (p + 24);
            get_len request (p + 28) (op_fail 28 NFS4ERR_BADXDR, st) (\<lambda>data_len.
            get_bytes request (p + 32) data_len (op_fail 32 NFS4ERR_BADXDR, st) (\<lambda>write_data.
              let consumed = 32 + pad4 data_len in
              Some (case resolve_st d st fh of
                  None \<Rightarrow> (op_fail consumed NFS4ERR_STALE, st)
                | Some path \<Rightarrow>
                    (let (ok, s) = write_file e (the_fs st) (ext st path) (unat off) write_data;
                         st' = st\<lparr>the_fs := s\<rparr>
                     in if ok then (op_done (be32 (of_nat data_len) @ be32 2 @ writeverf st) consumed, st')
                        else (op_fail consumed NFS4ERR_IO, st')))))
          })"

definition op_commit :: "bytes option \<Rightarrow> nfs4 \<Rightarrow> v4_result" where
  "op_commit current_fh st =
     Some (if current_fh = None then (op_fail 12 NFS4ERR_NOFILEHANDLE, st)
           else (op_done (writeverf st) 12, st))"

definition op_readlink :: "deps \<Rightarrow> bytes option \<Rightarrow> nfs4 \<Rightarrow> v4_result" where
  "op_readlink d current_fh st = Some (case current_fh of
       None \<Rightarrow> (op_fail 0 NFS4ERR_NOFILEHANDLE, st)
     | Some fh \<Rightarrow>
         (case resolve_st d st fh of
            None \<Rightarrow> (op_fail 0 NFS4ERR_STALE, st)
          | Some _ \<Rightarrow> (op_done (be32 0) 0, st)))"

definition op_delegreturn :: "nfs4 \<Rightarrow> v4_result" where
  "op_delegreturn st = Some (op_done [] 16, st)"

section \<open>Directories\<close>

definition COOKIE_BASE :: nat where "COOKIE_BASE = 3"

text \<open>The index the listing starts at, from the cookie of the last entry received.\<close>

definition start_index :: "u64 \<Rightarrow> nat" where
  "start_index cookie =
     (if cookie = 0 then 0
      else if unat cookie \<ge> COOKIE_BASE then (unat cookie - COOKIE_BASE) + 1
      else 0)"

text \<open>\<open>n\<close> bitmap words: a short request ends with the position (\<open>Inl\<close>).\<close>

fun bitmap_args :: "bytes \<Rightarrow> nat \<Rightarrow> nat \<Rightarrow> (nat + u32 list \<times> nat) option" where
  "bitmap_args request 0 pp = Some (Inr ([], pp))"
| "bitmap_args request (Suc n) pp =
     get32 request pp (Inl pp) (\<lambda>w. do {
       r \<leftarrow> bitmap_args request n (pp + 4);
       Some (case r of Inl q \<Rightarrow> Inl q | Inr (ws, q) \<Rightarrow> Inr (w # ws, q))
     })"

text \<open>The root listing stops reading instead of failing.\<close>

fun bitmap_args_root :: "bytes \<Rightarrow> nat \<Rightarrow> nat \<Rightarrow> (u32 list \<times> nat) option" where
  "bitmap_args_root request 0 pp = Some ([], pp)"
| "bitmap_args_root request (Suc n) pp =
     get32 request pp ([], pp) (\<lambda>w. do {
       (ws, q) \<leftarrow> bitmap_args_root request n (pp + 4);
       Some (w # ws, q)
     })"

text \<open>
  The fixed arguments.  The code checks for 20 bytes and then reads the cookie, the verifier,
  \<open>dircount\<close> and \<open>maxcount\<close>, which are 24: the last read can panic.
\<close>

definition readdir_args :: "bytes \<Rightarrow> nat \<Rightarrow> 'r \<Rightarrow> (u64 \<Rightarrow> u32 \<Rightarrow> 'r option) \<Rightarrow> 'r option" where
  "readdir_args request p bad k =
     (if p + 20 > length request then Some bad
      else do {
        cookie \<leftarrow> rd64 request p;
        cookieverf \<leftarrow> slice request (p + 8) (p + 16);
        dircount \<leftarrow> rd32 request (p + 16);
        maxcount \<leftarrow> rd32 request (p + 20);
        k cookie maxcount
      })"

definition dir_entry :: "nat \<Rightarrow> bytes \<Rightarrow> bytes \<Rightarrow> bytes" where
  "dir_entry cookie name fattr = [0, 0, 0, 1] @ be64 (of_nat cookie) @ xdr_opaque name @ fattr"

text \<open>
  The loop over the entries from \<open>start_idx\<close>: every entry is registered in the handle store
  and added while the reply stays within \<open>maxcount\<close>.  The result is the reply, the number of
  entries added and the state.
\<close>

fun readdir_loop ::
    "deps \<Rightarrow> env \<Rightarrow> path \<Rightarrow> u32 list \<Rightarrow> nat \<Rightarrow> nat \<Rightarrow> (bytes \<times> path) list \<Rightarrow> bytes \<Rightarrow> nat \<Rightarrow> nfs4
      \<Rightarrow> (bytes \<times> nat \<times> nfs4) option" where
  "readdir_loop d e root bm maxcount cookie [] result added st = Some (result, added, st)"
| "readdir_loop d e root bm maxcount cookie ((name, path) # es) result added st = do {
     let st1 = snd (new_fh_st d e path root st);
     let default_type = (if path_is_dir (the_fs st1) path then NF4DIR else NF4REG);
     fattr \<leftarrow> build_fattr4 st1 (Some path) bm default_type False;
     let entry_size = 4 + 8 + 4 + pad4 (length name) + length fattr;
     let total_size = 8 + (length result - 8) + entry_size + 4 + 4;
     if total_size > maxcount then Some (result, added, st1)
     else readdir_loop d e root bm maxcount (cookie + 1) es (result @ dir_entry cookie name fattr) (added + 1) st1
   }"

definition readdir_root_name :: "bytes \<times> bytes option \<Rightarrow> bytes" where
  "readdir_root_name ex = (case ex of (rpath, alias) \<Rightarrow>
     (case alias of Some a \<Rightarrow> a
      | None \<Rightarrow> (case path_file_name rpath of Some n \<Rightarrow> n | None \<Rightarrow> rpath)))"

fun readdir_root_loop :: "nfs4 \<Rightarrow> u32 list \<Rightarrow> u64 \<Rightarrow> nat \<Rightarrow> (bytes \<times> bytes option) list \<Rightarrow> bytes option" where
  "readdir_root_loop st bm cookie idx [] = Some []"
| "readdir_root_loop st bm cookie idx (ex # exs) =
     (let entry_cookie = COOKIE_BASE + idx in
      if entry_cookie \<le> unat cookie then readdir_root_loop st bm cookie (idx + 1) exs
      else do {
        fattr \<leftarrow> build_fattr4 st (Some (fst ex)) bm NF4DIR False;
        rest \<leftarrow> readdir_root_loop st bm cookie (idx + 1) exs;
        Some (dir_entry entry_cookie (readdir_root_name ex) fattr @ rest)
      })"

definition op_readdir_root :: "bytes \<Rightarrow> nat \<Rightarrow> nfs4 \<Rightarrow> v4_result" where
  "op_readdir_root request p st =
     readdir_args request p (op_fail 0 NFS4ERR_BADXDR, st) (\<lambda>cookie _.
     get_len request (p + 24) (op_fail 24 NFS4ERR_BADXDR, st) (\<lambda>bm_count. do {
       (bm, pp) \<leftarrow> bitmap_args_root request bm_count (p + 28);
       es \<leftarrow> readdir_root_loop st bm cookie 0 (list_exports_with_aliases (em st));
       Some (op_done (replicate 8 1 @ es @ [0, 0, 0, 0] @ be32 1) (pp - p), st)
     }))"

definition op_readdir :: "deps \<Rightarrow> env \<Rightarrow> bytes \<Rightarrow> nat \<Rightarrow> bytes option \<Rightarrow> nfs4 \<Rightarrow> v4_result" where
  "op_readdir d e request p current_fh st =
     (case current_fh of
        None \<Rightarrow> Some (op_fail 0 NFS4ERR_NOFILEHANDLE, st)
      | Some fh \<Rightarrow>
          if is_root_handle fh then op_readdir_root request p st
          else
          readdir_args request p (op_fail 0 NFS4ERR_BADXDR, st) (\<lambda>cookie maxcount.
          get_len request (p + 24) (op_fail 24 NFS4ERR_BADXDR, st) (\<lambda>bm_count. do {
            args \<leftarrow> bitmap_args request bm_count (p + 28);
            (case args of
               Inl pp \<Rightarrow> Some (op_fail (pp - p) NFS4ERR_BADXDR, st)
             | Inr (bm, pp) \<Rightarrow>
                 (let consumed = pp - p in
                  case resolve_st d st fh of
                    None \<Rightarrow> Some (op_fail consumed NFS4ERR_STALE, st)
                  | Some dir_path \<Rightarrow>
                      (case fs_read_dir (the_fs st) (ext st dir_path) of
                         Inl _ \<Rightarrow> Some (op_fail consumed NFS4ERR_IO, st)
                       | Inr listing \<Rightarrow> do {
                           let dir_entries = sort_key fst listing;
                           let start = start_index cookie;
                           (result, added, st') \<leftarrow>
                             readdir_loop d e (root_or d st fh dir_path) bm (unat maxcount) (COOKIE_BASE + start)
                               (drop (min start (length dir_entries)) dir_entries) (replicate 8 1) 0 st;
                           let eof = (start + added \<ge> length dir_entries);
                           Some (op_done (result @ [0, 0, 0, 0] @ be32 (u32_bool eof)) consumed, st')
                         })))
          })))"

end
