(* ===== verification/Nfs4_Update.thy ===== *)
theory Nfs4_Update
  imports Nfs4_File
begin

text \<open>
  The NFSv4 operations of \<open>src/nfs/nfs4.rs\<close> that change names, attributes and whole files:
  REMOVE, RENAME, SETATTR, CREATE and LINK, and the NFSv4.2 operations READ_PLUS, COPY, SEEK
  and CLONE.  The conventions are those of \<open>Nfs4_File\<close>.
\<close>

section \<open>Names\<close>

text \<open>A \<open>component4\<close> at \<open>pp\<close>: its text and the position after it; \<open>base\<close> is where the arguments begin.\<close>

definition name_arg :: "bytes \<Rightarrow> nat \<Rightarrow> nat \<Rightarrow> (nat \<Rightarrow> 'r) \<Rightarrow> (bytes \<Rightarrow> nat \<Rightarrow> 'r option) \<Rightarrow> 'r option" where
  "name_arg request base pp bad k =
     get_len request pp (bad (pp - base)) (\<lambda>len.
     get_bytes request (pp + 4) len (bad (pp + 4 - base)) (\<lambda>raw.
     k (utf8_lossy raw) (pp + 4 + pad4 len)))"

definition change_info :: bytes where
  "change_info = be32 1 @ be64 0 @ be64 1"

text \<open>REMOVE: what happens to an existing target, the status or the new file system.\<close>

definition remove_target :: "path \<Rightarrow> nfs4 \<Rightarrow> u32 + fs" where
  "remove_target target st =
     (let s = the_fs st; p = ext st target;
          done = (\<lambda>res. case res of Inl _ \<Rightarrow> Inl NFS4ERR_IO | Inr s' \<Rightarrow> Inr s')
      in if path_is_dir s target then
           (let dir_empty = (case fs_read_dir s p of Inl _ \<Rightarrow> False | Inr es \<Rightarrow> es = [])
            in if \<not> dir_empty then Inl NFS4ERR_NOTEMPTY else done (fs_remove_dir s p))
         else done (fs_remove_file s p))"

definition op_remove :: "deps \<Rightarrow> bytes \<Rightarrow> nat \<Rightarrow> bytes option \<Rightarrow> nfs4 \<Rightarrow> v4_result" where
  "op_remove d request p current_fh st =
     (case current_fh of
        None \<Rightarrow> Some (op_fail 0 NFS4ERR_NOFILEHANDLE, st)
      | Some dir_fh \<Rightarrow>
          if is_read_only d (em st) dir_fh then Some (op_fail 0 NFS4ERR_ROFS, st)
          else get_len request p (op_fail 0 NFS4ERR_BADXDR, st) (\<lambda>name_len.
          let consumed = 4 + pad4 name_len in
          get_bytes request (p + 4) name_len (op_fail consumed NFS4ERR_BADXDR, st) (\<lambda>raw.
          Some (case resolve_st d st dir_fh of
              None \<Rightarrow> (op_fail consumed NFS4ERR_STALE, st)
            | Some dir_path \<Rightarrow>
                (let target = path_join dir_path (utf8_lossy raw) in
                 if \<not> path_exists (the_fs st) target then (op_fail consumed NFS4ERR_NOENT, st)
                 else (case remove_target target st of
                     Inl status \<Rightarrow> (op_fail consumed status, st)
                   | Inr s \<Rightarrow> (op_done change_info consumed, st\<lparr>the_fs := s\<rparr>)))))))"

text \<open>RENAME tests only the export of the current handle, the target directory.\<close>

definition op_rename :: "deps \<Rightarrow> bytes \<Rightarrow> nat \<Rightarrow> bytes option \<Rightarrow> bytes option \<Rightarrow> nfs4 \<Rightarrow> v4_result" where
  "op_rename d request p current_fh saved_fh st =
     (case saved_fh of
        None \<Rightarrow> Some (op_fail 0 NFS4ERR_RESTOREFH, st)
      | Some sfh \<Rightarrow>
     (case current_fh of
        None \<Rightarrow> Some (op_fail 0 NFS4ERR_NOFILEHANDLE, st)
      | Some dfh \<Rightarrow>
          if is_read_only d (em st) dfh then Some (op_fail 0 NFS4ERR_ROFS, st)
          else
          name_arg request p p (\<lambda>n. (op_fail n NFS4ERR_BADXDR, st)) (\<lambda>oldname p1.
          name_arg request p p1 (\<lambda>n. (op_fail n NFS4ERR_BADXDR, st)) (\<lambda>newname p2.
          let consumed = p2 - p in
          Some (case resolve_st d st sfh of
              None \<Rightarrow> (op_fail consumed NFS4ERR_STALE, st)
            | Some src_dir \<Rightarrow>
                (case resolve_st d st dfh of
                   None \<Rightarrow> (op_fail consumed NFS4ERR_STALE, st)
                 | Some dst_dir \<Rightarrow>
                     (let src = path_join src_dir oldname; dst = path_join dst_dir newname in
                      if \<not> path_exists (the_fs st) src then (op_fail consumed NFS4ERR_NOENT, st)
                      else (case fs_rename (the_fs st) (ext st src) (ext st dst) of
                          Inl _ \<Rightarrow> (op_fail consumed NFS4ERR_IO, st)
                        | Inr s \<Rightarrow> (op_done (change_info @ change_info) consumed, st\<lparr>the_fs := s\<rparr>)))))))))"

definition create_args :: "bytes \<Rightarrow> nat \<Rightarrow> (nat \<Rightarrow> 'r) \<Rightarrow> (u32 \<Rightarrow> bytes \<Rightarrow> nat \<Rightarrow> 'r option) \<Rightarrow> 'r option" where
  "create_args request p bad k =
     get32 request p (bad 0) (\<lambda>objtype.
     let named = (\<lambda>pp.
       name_arg request p pp bad (\<lambda>name q.
       get_len request q (bad (q - p)) (\<lambda>bm_count.
       let q1 = q + 4 + bm_count * 4 in
       get_len request q1 (bad (q1 - p)) (\<lambda>attr_len.
       k objtype name (q1 + 4 + pad4 attr_len)))))
     in if objtype = NF4LNK
        then get_len request (p + 4) (bad 4) (\<lambda>link_len. named (p + 8 + pad4 link_len))
        else named (p + 4))"

definition op_create :: "deps \<Rightarrow> env \<Rightarrow> bytes \<Rightarrow> nat \<Rightarrow> bytes option \<Rightarrow> nfs4 \<Rightarrow> v4_result" where
  "op_create d e request p current_fh st =
     (case current_fh of
        None \<Rightarrow> Some (op_fail 0 NFS4ERR_NOFILEHANDLE, st)
      | Some dir_fh \<Rightarrow>
          if is_read_only d (em st) dir_fh then Some (op_fail 0 NFS4ERR_ROFS, st)
          else create_args request p (\<lambda>n. (op_fail n NFS4ERR_BADXDR, st)) (\<lambda>objtype name pp.
          let consumed = pp - p in
          Some (case resolve_st d st dir_fh of
              None \<Rightarrow> (op_fail consumed NFS4ERR_STALE, st)
            | Some dir_path \<Rightarrow>
                (let new_path = path_join dir_path name in
                 if path_exists (the_fs st) new_path then (op_fail consumed NFS4ERR_EXIST, st)
                 else if objtype \<noteq> NF4DIR \<and> objtype \<noteq> NF4REG then (op_fail consumed NFS4ERR_BADTYPE, st)
                 else (case (if objtype = NF4DIR then fs_create_dir e (the_fs st) (ext st new_path)
                             else fs_create_file e (the_fs st) (ext st new_path)) of
                     Inl _ \<Rightarrow> (op_fail consumed NFS4ERR_IO, st)
                   | Inr s \<Rightarrow>
                       (let st1 = st\<lparr>the_fs := s\<rparr>;
                            (fh, st2) = new_fh_st d e new_path (root_or d st1 dir_fh dir_path) st1
                        in ((op_done (change_info @ be32 0) consumed)\<lparr>new_fh := Some fh\<rparr>, st2)))))))"

definition op_link :: "deps \<Rightarrow> env \<Rightarrow> bytes \<Rightarrow> nat \<Rightarrow> bytes option \<Rightarrow> bytes option \<Rightarrow> nfs4 \<Rightarrow> v4_result" where
  "op_link d e request p current_fh saved_fh st =
     (case current_fh of
        None \<Rightarrow> Some (op_fail 0 NFS4ERR_NOFILEHANDLE, st)
      | Some src_fh \<Rightarrow>
     (case saved_fh of
        None \<Rightarrow> Some (op_fail 0 NFS4ERR_NOFILEHANDLE, st)
      | Some dir_fh \<Rightarrow>
          if is_read_only d (em st) dir_fh then Some (op_fail 0 NFS4ERR_ROFS, st)
          else name_arg request p p (\<lambda>n. (op_fail n NFS4ERR_BADXDR, st)) (\<lambda>new_name pp.
          let consumed = pp - p in
          Some (case resolve_st d st src_fh of
              None \<Rightarrow> (op_fail consumed NFS4ERR_STALE, st)
            | Some src_path \<Rightarrow>
                (case resolve_st d st dir_fh of
                   None \<Rightarrow> (op_fail consumed NFS4ERR_STALE, st)
                 | Some dir_path \<Rightarrow>
                     (case fs_hard_link (the_fs st) (ext st src_path) (ext st (path_join dir_path new_name)) of
                        Inl x \<Rightarrow> (op_fail consumed (case x of AlreadyExists \<Rightarrow> NFS4ERR_EXIST
                            | NotFound \<Rightarrow> NFS4ERR_STALE | OtherError \<Rightarrow> NFS4ERR_IO), st)
                      | Inr s \<Rightarrow> (op_done (be32 0 @ be64 0 @ be64 (wall_nanos e)) consumed, st\<lparr>the_fs := s\<rparr>)))))))"

section \<open>Attributes\<close>

text \<open>
  \<open>UNIX_EPOCH + Duration::new(secs, nsecs)\<close> on Windows, where a \<open>SystemTime\<close> counts
  intervals of 100 nanoseconds since 1601 in an \<open>i64\<close>: the result in nanoseconds since the
  Unix epoch, or the panic of an overflow.
\<close>

definition EPOCH_INTERVALS :: nat where "EPOCH_INTERVALS = 11644473600 * 10 ^ 7"

definition unix_time :: "u64 \<Rightarrow> u32 \<Rightarrow> int option" where
  "unix_time secs nsecs =
     (let s = unat secs + unat nsecs div 10 ^ 9;
          intervals = s * 10 ^ 7 + unat nsecs mod 10 ^ 9 div 100
      in if s \<ge> 2 ^ 64 \<or> EPOCH_INTERVALS + intervals \<ge> 2 ^ 63 then None
         else Some (int (intervals * 100)))"

text \<open>
  What the loop over the attribute bits carries: the position in the values, the two bitmap
  words of the attributes set so far and the file system.
\<close>

record setattr_acc =
  sa_offset :: nat
  sa_bm0 :: u32
  sa_bm1 :: u32
  sa_fs :: fs

definition set_size_of :: "env \<Rightarrow> path \<Rightarrow> nat \<Rightarrow> setattr_acc \<Rightarrow> setattr_acc" where
  "set_size_of e p n a =
     (case fs_open A_write (sa_fs a) p of
        Inl _ \<Rightarrow> a
      | Inr i \<Rightarrow> (case fs_set_len e i n (sa_fs a) of
            Inl _ \<Rightarrow> a
          | Inr s \<Rightarrow> a\<lparr>sa_fs := s, sa_bm0 := sa_bm0 a OR push_bit 4 1\<rparr>))"

definition set_mtime_of :: "path \<Rightarrow> int \<Rightarrow> setattr_acc \<Rightarrow> setattr_acc" where
  "set_mtime_of p t a =
     (case fs_open A_write (sa_fs a) p of
        Inl _ \<Rightarrow> a
      | Inr i \<Rightarrow> (case fs_set_modified i t (sa_fs a) of
            Inl _ \<Rightarrow> a
          | Inr s \<Rightarrow> a\<lparr>sa_fs := s, sa_bm1 := sa_bm1 a OR push_bit 22 1\<rparr>))"

text \<open>
  One attribute of the bitmap; \<open>Inl\<close> is the return with BADXDR, which keeps the changes made
  before it.
\<close>

definition setattr_bit :: "env \<Rightarrow> path \<Rightarrow> bytes \<Rightarrow> nat \<Rightarrow> setattr_acc \<Rightarrow> (fs + setattr_acc) option" where
  "setattr_bit e p attr_data b a =
     (let off = sa_offset a;
          at = (\<lambda>n. a\<lparr>sa_offset := n\<rparr>);
          bad = Inl (sa_fs a)
      in if b = 1 then Some (Inr (at (off + 4)))
         else if b = 33 then Some (Inr (at (off + 8)))
         else if b = 4 then
           get64 attr_data off bad (\<lambda>new_size. Some (Inr (set_size_of e p (unat new_size) (at (off + 8)))))
         else if b = 36 \<or> b = 37 then
           get_len attr_data off bad (\<lambda>o_len. Some (Inr (at (off + 4 + pad4 o_len))))
         else if b = 53 then
           get32 attr_data off bad (\<lambda>set_how. Some (Inr (at (if set_how = 0 then off + 16 else off + 4))))
         else if b = 54 then
           get32 attr_data off bad (\<lambda>set_how.
             if set_how = 0 then
               if off + 16 > length attr_data then Some bad
               else do {
                 secs \<leftarrow> rd64 attr_data (off + 4);
                 nsecs \<leftarrow> rd32 attr_data (off + 12);
                 new_time \<leftarrow> unix_time secs nsecs;
                 Some (Inr (set_mtime_of p new_time (at (off + 16))))
               }
             else Some (Inr (set_mtime_of p (int (wall e)) (at (off + 4)))))
         else if off + 4 > length attr_data then Some bad
         else Some (Inr (at (off + 4))))"

fun setattr_loop :: "env \<Rightarrow> path \<Rightarrow> bytes \<Rightarrow> nat list \<Rightarrow> setattr_acc \<Rightarrow> (fs + setattr_acc) option" where
  "setattr_loop e p attr_data [] a = Some (Inr a)"
| "setattr_loop e p attr_data (b # bits) a = do {
     r \<leftarrow> setattr_bit e p attr_data b a;
     (case r of Inl s \<Rightarrow> Some (Inl s) | Inr a' \<Rightarrow> setattr_loop e p attr_data bits a')
   }"

text \<open>The attribute numbers of the first two bitmap words, in ascending order.\<close>

definition bits_of :: "u32 \<Rightarrow> u32 \<Rightarrow> nat list" where
  "bits_of bm0 bm1 = filter (\<lambda>b. if b < 32 then bit bm0 b else bit bm1 (b - 32)) [0..<64]"

text \<open>Two bitmap words are skipped even where the bitmap has fewer.\<close>

definition setattr_args :: "bytes \<Rightarrow> nat \<Rightarrow> (nat \<Rightarrow> 'r) \<Rightarrow> (u32 \<Rightarrow> u32 \<Rightarrow> bytes \<Rightarrow> nat \<Rightarrow> 'r option) \<Rightarrow> 'r option" where
  "setattr_args request p bad k =
     get_len request (p + 16) (bad 16) (\<lambda>bm_count.
     if p + 20 + bm_count * 4 > length request then Some (bad 20)
     else do {
       bm0 \<leftarrow> (if bm_count > 0 then rd32 request (p + 20) else Some 0);
       bm1 \<leftarrow> (if bm_count > 1 then rd32 request (p + 24) else Some 0);
       let q = p + 28 + (bm_count - 2) * 4;
       get_len request q (bad (q - p)) (\<lambda>attr_len.
       get_bytes request (q + 4) attr_len (bad (q + 4 - p)) (\<lambda>attr_data.
       k bm0 bm1 attr_data (q + 4 + pad4 attr_len)))
     })"

definition op_setattr :: "deps \<Rightarrow> env \<Rightarrow> bytes \<Rightarrow> nat \<Rightarrow> bytes option \<Rightarrow> nfs4 \<Rightarrow> v4_result" where
  "op_setattr d e request p current_fh st =
     (case current_fh of
        None \<Rightarrow> Some (op_fail 0 NFS4ERR_NOFILEHANDLE, st)
      | Some fh \<Rightarrow>
          if is_read_only d (em st) fh then Some (op_fail 0 NFS4ERR_ROFS, st)
          else setattr_args request p (\<lambda>n. (op_fail n NFS4ERR_BADXDR, st)) (\<lambda>bm0 bm1 attr_data pp.
          let consumed = pp - p in
          case resolve_st d st fh of
            None \<Rightarrow> Some (op_fail consumed NFS4ERR_STALE, st)
          | Some path \<Rightarrow> do {
              r \<leftarrow> setattr_loop e (ext st path) attr_data (bits_of bm0 bm1)
                     \<lparr>sa_offset = 0, sa_bm0 = 0, sa_bm1 = 0, sa_fs = the_fs st\<rparr>;
              Some (case r of
                  Inl s \<Rightarrow> (op_fail consumed NFS4ERR_BADXDR, st\<lparr>the_fs := s\<rparr>)
                | Inr a \<Rightarrow> (op_done (be32 2 @ be32 (sa_bm0 a) @ be32 (sa_bm1 a)) consumed,
                           st\<lparr>the_fs := sa_fs a\<rparr>))
            }))"

section \<open>NFSv4.2\<close>

text \<open>
  The metadata give the size, then the range is read; a directory has size 0.  READ_PLUS reads with
  one \<open>read\<close> call.  The model takes it to fill the buffer up to the end of the file, which \<open>ReadFile\<close>
  does for the files on disks the file system model consists of; \<open>Read::read\<close> as such may return less,
  and the code would then answer with the shorter data.
\<close>

definition op_read_plus :: "deps \<Rightarrow> bytes \<Rightarrow> nat \<Rightarrow> bytes option \<Rightarrow> nfs4 \<Rightarrow> v4_result" where
  "op_read_plus d request p current_fh st =
     (case current_fh of
        None \<Rightarrow> Some (op_fail 28 NFS4ERR_NOFILEHANDLE, st)
      | Some fh \<Rightarrow>
          if p + 28 > length request then Some (op_fail 28 NFS4ERR_BADXDR, st)
          else do {
            off \<leftarrow> rd64 request (p + 16);
            cw \<leftarrow> rd32 request (p + 24);
            Some (case resolve_st d st fh of
                None \<Rightarrow> (op_fail 28 NFS4ERR_STALE, st)
              | Some path \<Rightarrow>
                  (case metadata (the_fs st) (ext st path) of
                     None \<Rightarrow> (op_fail 28 NFS4ERR_IO, st)
                   | Some md \<Rightarrow>
                       if unat off \<ge> md_len md
                       then (op_done (replicate 16 0 @ be32 0 @ be32 1 @ be32 1 @ be64 off @ be32 0) 28, st)
                       else (case fs_read (the_fs st) (ext st path) of
                           Inl _ \<Rightarrow> (op_fail 28 NFS4ERR_IO, st)
                         | Inr content \<Rightarrow>
                             if \<not> seek_ok (unat off) then (op_fail 28 NFS4ERR_IO, st)
                             else
                               (let dat = take (min (unat cw) (md_len md - unat off)) (drop (unat off) content);
                                    readable = of_nat (length dat) :: u32;
                                    eof = u32_bool (unat off + length dat \<ge> md_len md)
                                in (op_done (replicate 16 0 @ be32 readable @ be32 eof @ be32 0
                                      @ be64 off @ be32 readable @ xdr_opaque dat) 28, st)))))
          })"

text \<open>
  The copy itself, shared by COPY and CLONE: the bytes of the source from \<open>src_off\<close>, at most
  \<open>n\<close>, written to the existing sink at \<open>dst_off\<close>.  The result is the status of the failure,
  or the number of bytes and the file system.
\<close>

definition copy_range :: "env \<Rightarrow> fs \<Rightarrow> path \<Rightarrow> nat \<Rightarrow> nat \<Rightarrow> path \<Rightarrow> nat \<Rightarrow> u32 + nat \<times> fs" where
  "copy_range e s src src_off n dst dst_off =
     (case fs_read s src of
        Inl _ \<Rightarrow> Inl NFS4ERR_IO
      | Inr source_data \<Rightarrow>
          if src_off > length source_data then Inl NFS4ERR_INVAL
          else
            (let copy_data = take (min n (length source_data - src_off)) (drop src_off source_data)
             in case fs_open A_write s dst of
                  Inl _ \<Rightarrow> Inl NFS4ERR_IO
                | Inr i \<Rightarrow>
                    if \<not> seek_ok dst_off then Inl NFS4ERR_IO
                    else (case fs_write_at e i dst_off copy_data s of
                        Inl _ \<Rightarrow> Inl NFS4ERR_IO
                      | Inr s' \<Rightarrow> Inr (length copy_data, s'))))"

text \<open>The arguments of COPY; the flag of \<open>bad\<close> is the bytes consumed with the status.\<close>

definition copy_args ::
    "bytes \<Rightarrow> nat \<Rightarrow> (nat \<Rightarrow> u32 \<Rightarrow> 'r) \<Rightarrow> (u64 \<Rightarrow> u32 \<Rightarrow> u64 \<Rightarrow> nat \<Rightarrow> 'r option) \<Rightarrow> 'r option" where
  "copy_args request p bad k =
     (let short = bad 0 NFS4ERR_BADXDR;
          flags = (\<lambda>src_off count dst_off pp.
            get32 request pp short (\<lambda>_. get32 request (pp + 4) short (\<lambda>_.
            k src_off count dst_off (pp + 8))))
      in if p + 28 > length request then Some short
         else do {
           src_off \<leftarrow> rd64 request (p + 16);
           count \<leftarrow> rd32 request (p + 24);
           get_bytes request (p + 28) 16 short (\<lambda>_.
           get64 request (p + 44) short (\<lambda>dst_off.
           get32 request (p + 52) short (\<lambda>netloc_type.
             if netloc_type = 3 then
               get_len request (p + 56) short (\<lambda>addr_len.
               get_bytes request (p + 60) (pad4 addr_len) short (\<lambda>_.
               flags src_off count dst_off (p + 60 + pad4 addr_len)))
             else if netloc_type = 0 then flags src_off count dst_off (p + 56)
             else Some (bad 56 NFS4ERR_NOTSUPP))))
         })"

definition op_copy :: "deps \<Rightarrow> env \<Rightarrow> bytes \<Rightarrow> nat \<Rightarrow> bytes option \<Rightarrow> bytes option \<Rightarrow> nfs4 \<Rightarrow> v4_result" where
  "op_copy d e request p current_fh saved_fh st =
     (case current_fh of
        None \<Rightarrow> Some (op_fail 0 NFS4ERR_NOFILEHANDLE, st)
      | Some sink_fh \<Rightarrow>
     (case saved_fh of
        None \<Rightarrow> Some (op_fail 0 NFS4ERR_NOFILEHANDLE, st)
      | Some source_fh \<Rightarrow>
          copy_args request p (\<lambda>n status. (op_fail n status, st)) (\<lambda>src_off count dst_off pp.
          let consumed = pp - p in
          Some (case resolve_st d st sink_fh of
              None \<Rightarrow> (op_fail consumed NFS4ERR_BADHANDLE, st)
            | Some sink_path \<Rightarrow>
                (case resolve_st d st source_fh of
                   None \<Rightarrow> (op_fail consumed NFS4ERR_BADHANDLE, st)
                 | Some source_path \<Rightarrow>
                     (case copy_range e (the_fs st) (ext st source_path) (unat src_off) (unat count)
                             (ext st sink_path) (unat dst_off) of
                        Inl status \<Rightarrow> (op_fail consumed status, st)
                      | Inr (written, s) \<Rightarrow>
                          (op_done (be32 (of_nat written) @ be32 1) consumed, st\<lparr>the_fs := s\<rparr>)))))))"

definition clone_args ::
    "bytes \<Rightarrow> nat \<Rightarrow> 'r \<Rightarrow> (u64 \<Rightarrow> u32 \<Rightarrow> u64 \<Rightarrow> 'r option) \<Rightarrow> 'r option" where
  "clone_args request p bad k =
     get_bytes request p 16 bad (\<lambda>_.
     get64 request (p + 16) bad (\<lambda>src_off.
     get32 request (p + 24) bad (\<lambda>count.
     get_bytes request (p + 28) 16 bad (\<lambda>_.
     get64 request (p + 44) bad (\<lambda>dst_off.
     k src_off count dst_off)))))"

definition op_clone :: "deps \<Rightarrow> env \<Rightarrow> bytes \<Rightarrow> nat \<Rightarrow> bytes option \<Rightarrow> bytes option \<Rightarrow> nfs4 \<Rightarrow> v4_result" where
  "op_clone d e request p current_fh saved_fh st =
     (case current_fh of
        None \<Rightarrow> Some (op_fail 0 NFS4ERR_NOFILEHANDLE, st)
      | Some sink_fh \<Rightarrow>
     (case saved_fh of
        None \<Rightarrow> Some (op_fail 0 NFS4ERR_NOFILEHANDLE, st)
      | Some source_fh \<Rightarrow>
          clone_args request p (op_fail 0 NFS4ERR_BADXDR, st) (\<lambda>src_off count dst_off.
          Some (case resolve_st d st source_fh of
              None \<Rightarrow> (op_fail 52 NFS4ERR_BADHANDLE, st)
            | Some source_path \<Rightarrow>
                (case resolve_st d st sink_fh of
                   None \<Rightarrow> (op_fail 52 NFS4ERR_BADHANDLE, st)
                 | Some sink_path \<Rightarrow>
                     (case copy_range e (the_fs st) (ext st source_path) (unat src_off) (unat count)
                             (ext st sink_path) (unat dst_off) of
                        Inl status \<Rightarrow> (op_fail 52 status, st)
                      | Inr (_, s) \<Rightarrow> (op_done [] 52, st\<lparr>the_fs := s\<rparr>)))))))"

definition seek_result :: "u32 \<Rightarrow> u64 \<Rightarrow> nat \<Rightarrow> bytes option" where
  "seek_result seek_type off file_size =
     (let past_end = be64 off @ be32 0 @ be32 1 in
      if seek_type = 0 then
        Some (if unat off < file_size then be64 off @ be64 (of_nat file_size - off) @ be32 0 else past_end)
      else if seek_type = 1 then
        Some (if unat off < file_size then be64 (of_nat file_size) @ be32 0 @ be32 1 else past_end)
      else None)"

definition op_seek :: "deps \<Rightarrow> bytes \<Rightarrow> nat \<Rightarrow> bytes option \<Rightarrow> nfs4 \<Rightarrow> v4_result" where
  "op_seek d request p current_fh st =
     (case current_fh of
        None \<Rightarrow> Some (op_fail 0 NFS4ERR_NOFILEHANDLE, st)
      | Some fh \<Rightarrow>
          if p + 28 > length request then Some (op_fail 28 NFS4ERR_BADXDR, st)
          else do {
            off \<leftarrow> rd64 request (p + 16);
            seek_type \<leftarrow> rd32 request (p + 24);
            Some (case resolve_st d st fh of
                None \<Rightarrow> (op_fail 28 NFS4ERR_STALE, st)
              | Some path \<Rightarrow>
                  (case metadata (the_fs st) (ext st path) of
                     None \<Rightarrow> (op_fail 28 NFS4ERR_IO, st)
                   | Some md \<Rightarrow>
                       (case seek_result seek_type off (md_len md) of
                          None \<Rightarrow> (op_fail 28 NFS4ERR_INVAL, st)
                        | Some result \<Rightarrow> (op_done result 28, st))))
          })"

end
