(* ===== verification/Nfs4_Compound.thy ===== *)
theory Nfs4_Compound
  imports Nfs4_Session Nfs4_Lock Nfs4_Update
begin

text \<open>
  The COMPOUND machinery of \<open>src/nfs/nfs4.rs\<close>: the table of operations (\<open>dispatch_op\<close>), the
  loop that runs the operations of a request and stops at the first failure
  (\<open>handle_compound\<close>), and the RPC layer above it (\<open>handle_request\<close>).
\<close>

section \<open>Operation codes\<close>

definition OP_ACCESS :: u32 where "OP_ACCESS = 3"
definition OP_CLOSE :: u32 where "OP_CLOSE = 4"
definition OP_COMMIT :: u32 where "OP_COMMIT = 5"
definition OP_CREATE :: u32 where "OP_CREATE = 6"
definition OP_DELEGRETURN :: u32 where "OP_DELEGRETURN = 8"
definition OP_GETATTR :: u32 where "OP_GETATTR = 9"
definition OP_GETFH :: u32 where "OP_GETFH = 10"
definition OP_LINK :: u32 where "OP_LINK = 11"
definition OP_LOCK :: u32 where "OP_LOCK = 12"
definition OP_LOCKT :: u32 where "OP_LOCKT = 13"
definition OP_LOCKU :: u32 where "OP_LOCKU = 14"
definition OP_LOOKUP :: u32 where "OP_LOOKUP = 15"
definition OP_LOOKUPP :: u32 where "OP_LOOKUPP = 16"
definition OP_OPEN :: u32 where "OP_OPEN = 18"
definition OP_OPENATTR :: u32 where "OP_OPENATTR = 19"
definition OP_OPEN_CONFIRM :: u32 where "OP_OPEN_CONFIRM = 20"
definition OP_OPEN_DOWNGRADE :: u32 where "OP_OPEN_DOWNGRADE = 21"
definition OP_PUTFH :: u32 where "OP_PUTFH = 22"
definition OP_PUTPUBFH :: u32 where "OP_PUTPUBFH = 23"
definition OP_PUTROOTFH :: u32 where "OP_PUTROOTFH = 24"
definition OP_READ :: u32 where "OP_READ = 25"
definition OP_READDIR :: u32 where "OP_READDIR = 26"
definition OP_READLINK :: u32 where "OP_READLINK = 27"
definition OP_REMOVE :: u32 where "OP_REMOVE = 28"
definition OP_RENAME :: u32 where "OP_RENAME = 29"
definition OP_RENEW :: u32 where "OP_RENEW = 30"
definition OP_RESTOREFH :: u32 where "OP_RESTOREFH = 31"
definition OP_SAVEFH :: u32 where "OP_SAVEFH = 32"
definition OP_SECINFO :: u32 where "OP_SECINFO = 33"
definition OP_SETATTR :: u32 where "OP_SETATTR = 34"
definition OP_SETCLIENTID :: u32 where "OP_SETCLIENTID = 35"
definition OP_SETCLIENTID_CONFIRM :: u32 where "OP_SETCLIENTID_CONFIRM = 36"
definition OP_WRITE :: u32 where "OP_WRITE = 38"
definition OP_RELEASE_LOCKOWNER :: u32 where "OP_RELEASE_LOCKOWNER = 39"
definition OP_ILLEGAL :: u32 where "OP_ILLEGAL = 10044"
definition OP_EXCHANGE_ID :: u32 where "OP_EXCHANGE_ID = 42"
definition OP_CREATE_SESSION :: u32 where "OP_CREATE_SESSION = 43"
definition OP_DESTROY_SESSION :: u32 where "OP_DESTROY_SESSION = 44"
definition OP_BIND_CONN_TO_SESSION :: u32 where "OP_BIND_CONN_TO_SESSION = 45"
definition OP_DESTROY_CLIENTID :: u32 where "OP_DESTROY_CLIENTID = 57"
definition OP_SECINFO_NO_NAME :: u32 where "OP_SECINFO_NO_NAME = 52"
definition OP_SEQUENCE :: u32 where "OP_SEQUENCE = 53"
definition OP_RECLAIM_COMPLETE :: u32 where "OP_RECLAIM_COMPLETE = 58"
definition OP_ALLOCATE :: u32 where "OP_ALLOCATE = 59"
definition OP_COPY :: u32 where "OP_COPY = 60"
definition OP_COPY_NOTIFY :: u32 where "OP_COPY_NOTIFY = 61"
definition OP_DEALLOCATE :: u32 where "OP_DEALLOCATE = 62"
definition OP_IO_ADVISE :: u32 where "OP_IO_ADVISE = 63"
definition OP_LAYOUTERROR :: u32 where "OP_LAYOUTERROR = 64"
definition OP_LAYOUTSTATS :: u32 where "OP_LAYOUTSTATS = 65"
definition OP_OFFLOAD_CANCEL :: u32 where "OP_OFFLOAD_CANCEL = 66"
definition OP_OFFLOAD_STATUS :: u32 where "OP_OFFLOAD_STATUS = 67"
definition OP_READ_PLUS :: u32 where "OP_READ_PLUS = 68"
definition OP_SEEK :: u32 where "OP_SEEK = 69"
definition OP_WRITE_SAME :: u32 where "OP_WRITE_SAME = 70"
definition OP_CLONE :: u32 where "OP_CLONE = 71"

lemmas opcode_defs =
  OP_ACCESS_def OP_CLOSE_def OP_COMMIT_def OP_CREATE_def OP_DELEGRETURN_def OP_GETATTR_def
  OP_GETFH_def OP_LINK_def OP_LOCK_def OP_LOCKT_def OP_LOCKU_def OP_LOOKUP_def OP_LOOKUPP_def
  OP_OPEN_def OP_OPENATTR_def OP_OPEN_CONFIRM_def OP_OPEN_DOWNGRADE_def OP_PUTFH_def
  OP_PUTPUBFH_def OP_PUTROOTFH_def OP_READ_def OP_READDIR_def OP_READLINK_def OP_REMOVE_def
  OP_RENAME_def OP_RENEW_def OP_RESTOREFH_def OP_SAVEFH_def OP_SECINFO_def OP_SETATTR_def
  OP_SETCLIENTID_def OP_SETCLIENTID_CONFIRM_def OP_WRITE_def OP_RELEASE_LOCKOWNER_def
  OP_ILLEGAL_def OP_EXCHANGE_ID_def OP_CREATE_SESSION_def OP_DESTROY_SESSION_def
  OP_BIND_CONN_TO_SESSION_def OP_DESTROY_CLIENTID_def OP_SECINFO_NO_NAME_def OP_SEQUENCE_def
  OP_RECLAIM_COMPLETE_def OP_ALLOCATE_def OP_COPY_def OP_COPY_NOTIFY_def OP_DEALLOCATE_def
  OP_IO_ADVISE_def OP_LAYOUTERROR_def OP_LAYOUTSTATS_def OP_OFFLOAD_CANCEL_def
  OP_OFFLOAD_STATUS_def OP_READ_PLUS_def OP_SEEK_def OP_WRITE_SAME_def OP_CLONE_def OP_VERIFY_def
  OP_NVERIFY_def

definition is_write_opcode :: "u32 \<Rightarrow> bool" where
  "is_write_opcode opcode \<longleftrightarrow> opcode \<in> set
     [OP_WRITE, OP_CREATE, OP_REMOVE, OP_RENAME, OP_SETATTR, OP_LINK, OP_OPEN, OP_LOCK, OP_LOCKU,
      OP_CLOSE, OP_DELEGRETURN, OP_COMMIT, OP_COPY, OP_CLONE, OP_ALLOCATE, OP_DEALLOCATE, OP_WRITE_SAME]"

section \<open>Dispatch\<close>

definition op_open_downgrade :: "bytes \<Rightarrow> nat \<Rightarrow> nfs4 \<Rightarrow> v4_result" where
  "op_open_downgrade request p st =
     (if p + 28 > length request then Some (op_fail 0 NFS4ERR_BADXDR, st)
      else do {
        stateid \<leftarrow> slice request (p + 4) (p + 20);
        Some (op_done stateid 28, st)
      })"

definition op_release_lockowner :: "bytes \<Rightarrow> nat \<Rightarrow> nfs4 \<Rightarrow> v4_result" where
  "op_release_lockowner request p st =
     (if p + 8 > length request then Some (op_fail 0 NFS4ERR_BADXDR, st)
      else do {
        w \<leftarrow> rd32 request (p + 4);
        Some (op_done [] (8 + pad4 (unat w)), st)
      })"

text \<open>Every other code, the known NFSv4.2 codes included, is not supported.\<close>

definition dispatch_op ::
    "deps \<Rightarrow> env \<Rightarrow> u32 \<Rightarrow> bytes \<Rightarrow> nat \<Rightarrow> bytes option \<Rightarrow> bytes option \<Rightarrow> nfs4 \<Rightarrow> v4_result" where
  "dispatch_op d e opcode request p cur saved st =
     (if opcode = OP_PUTROOTFH \<or> opcode = OP_PUTPUBFH then op_putrootfh st
      else if opcode = OP_PUTFH then op_putfh request p st
      else if opcode = OP_GETFH then op_getfh cur st
      else if opcode = OP_SAVEFH then op_savefh cur st
      else if opcode = OP_RESTOREFH then op_restorefh saved st
      else if opcode = OP_GETATTR then op_getattr d request p cur st
      else if opcode = OP_LOOKUP then op_lookup d e request p cur st
      else if opcode = OP_LOOKUPP then op_lookupp d e cur st
      else if opcode = OP_ACCESS then op_access cur st
      else if opcode = OP_OPEN then op_open d e request p cur st
      else if opcode = OP_OPEN_CONFIRM then op_open_confirm request p cur st
      else if opcode = OP_CLOSE then op_close request p cur st
      else if opcode = OP_READ then op_read d request p cur st
      else if opcode = OP_WRITE then op_write d e request p cur st
      else if opcode = OP_READDIR then op_readdir d e request p cur st
      else if opcode = OP_READLINK then op_readlink d cur st
      else if opcode = OP_REMOVE then op_remove d request p cur st
      else if opcode = OP_RENAME then op_rename d request p cur saved st
      else if opcode = OP_SETATTR then op_setattr d e request p cur st
      else if opcode = OP_CREATE then op_create d e request p cur st
      else if opcode = OP_SETCLIENTID then op_setclientid e request p st
      else if opcode = OP_SETCLIENTID_CONFIRM then op_setclientid_confirm request p st
      else if opcode = OP_RENEW then op_renew st
      else if opcode = OP_SECINFO then op_secinfo request p st
      else if opcode = OP_EXCHANGE_ID then op_exchange_id e request p st
      else if opcode = OP_CREATE_SESSION then op_create_session e request p st
      else if opcode = OP_DESTROY_SESSION then op_destroy_session request p st
      else if opcode = OP_BIND_CONN_TO_SESSION then op_bind_conn_to_session request p st
      else if opcode = OP_DESTROY_CLIENTID then op_destroy_clientid request p st
      else if opcode = OP_SEQUENCE then op_sequence e request p st
      else if opcode = OP_RECLAIM_COMPLETE then op_reclaim_complete st
      else if opcode = OP_SECINFO_NO_NAME then op_secinfo_no_name request p st
      else if opcode = OP_OPEN_DOWNGRADE then op_open_downgrade request p st
      else if opcode = OP_RELEASE_LOCKOWNER then op_release_lockowner request p st
      else if opcode = OP_NVERIFY \<or> opcode = OP_VERIFY then op_verify d opcode request p cur st
      else if opcode = OP_DELEGRETURN then op_delegreturn st
      else if opcode = OP_COMMIT then op_commit cur st
      else if opcode = OP_LINK then op_link d e request p cur saved st
      else if opcode = OP_LOCK then op_lock request p cur st
      else if opcode = OP_LOCKT then op_lockt request p cur st
      else if opcode = OP_LOCKU then op_locku request p cur st
      else if opcode = OP_ILLEGAL then Some (op_fail 0 NFS4ERR_OP_ILLEGAL, st)
      else if opcode = OP_READ_PLUS then op_read_plus d request p cur st
      else if opcode = OP_COPY then op_copy d e request p cur saved st
      else if opcode = OP_SEEK then op_seek d request p cur st
      else if opcode = OP_CLONE then op_clone d e request p cur saved st
      else Some (op_fail 0 NFS4ERR_NOTSUPP, st))"

section \<open>The compound loop\<close>

definition MAX_OPS_PER_COMPOUND :: nat where "MAX_OPS_PER_COMPOUND = 64"

definition make_compound_error :: "u32 \<Rightarrow> bytes" where
  "make_compound_error status = be32 status @ be32 0 @ be32 0"

text \<open>
  What the loop carries: the position, the current and the saved handle, the encoded results
  with their number, and the status.
\<close>

record compound =
  cp_pos :: nat
  cp_current :: "bytes option"
  cp_saved :: "bytes option"
  cp_results :: bytes
  cp_count :: u32
  cp_status :: u32

definition compound_start :: "nat \<Rightarrow> compound" where
  "compound_start p = \<lparr>cp_pos = p, cp_current = None, cp_saved = None, cp_results = [],
     cp_count = 0, cp_status = NFS4_OK\<rparr>"

definition squashed :: "deps \<Rightarrow> u32 \<Rightarrow> u32 \<Rightarrow> compound \<Rightarrow> nfs4 \<Rightarrow> bool" where
  "squashed d uid opcode c st \<longleftrightarrow> uid = 0 \<and> is_write_opcode opcode
     \<and> (case cp_current c of None \<Rightarrow> False | Some fh \<Rightarrow> should_squash_root d (em st) fh uid)"

text \<open>The result of one operation is appended and its handles become the current ones.\<close>

definition after_op :: "u32 \<Rightarrow> opres \<Rightarrow> compound \<Rightarrow> compound" where
  "after_op opcode r c =
     \<lparr>cp_pos = cp_pos c + 4 + advance r,
      cp_current = (case new_fh r of Some fh \<Rightarrow> Some fh | None \<Rightarrow> cp_current c),
      cp_saved = (case new_saved_fh r of Some fh \<Rightarrow> Some fh | None \<Rightarrow> cp_saved c),
      cp_results = cp_results c @ be32 opcode @ be32 (op_status r)
        @ (if op_status r = NFS4_OK then op_result r else []),
      cp_count = cp_count c + 1,
      cp_status = op_status r\<rparr>"

text \<open>
  The loop over the remaining operations; \<open>es n\<close> is the environment when \<open>n\<close> operations
  remain.  A request that ends before an operation code adds a result that is not counted.
\<close>

fun compound_loop :: "deps \<Rightarrow> (nat \<Rightarrow> env) \<Rightarrow> bytes \<Rightarrow> u32 \<Rightarrow> nat \<Rightarrow> compound \<Rightarrow> nfs4 \<Rightarrow> (compound \<times> nfs4) option" where
  "compound_loop d es request uid 0 c st = Some (c, st)"
| "compound_loop d es request uid (Suc n) c st =
     (if cp_pos c + 4 > length request
      then Some (c\<lparr>cp_results := cp_results c @ be32 OP_ILLEGAL @ be32 NFS4ERR_BADXDR,
                   cp_status := NFS4ERR_BADXDR\<rparr>, st)
      else do {
        opcode \<leftarrow> rd32 request (cp_pos c);
        if squashed d uid opcode c st
        then Some (c\<lparr>cp_results := cp_results c @ be32 opcode @ be32 NFS4ERR_PERM,
                     cp_count := cp_count c + 1, cp_status := NFS4ERR_PERM\<rparr>, st)
        else do {
          (r, st1) \<leftarrow> dispatch_op d (es (Suc n)) opcode request (cp_pos c + 4) (cp_current c) (cp_saved c) st;
          if op_status r \<noteq> NFS4_OK then Some (after_op opcode r c, st1)
          else compound_loop d es request uid n (after_op opcode r c) st1
        }
      })"

text \<open>The ways one turn of the loop can go.\<close>

lemma compound_loop_SucE:
  assumes "compound_loop d es request uid (Suc n) c st = Some (c', st')"
  obtains (short) "length request < cp_pos c + 4" "st' = st"
      "c' = c\<lparr>cp_results := cp_results c @ be32 OP_ILLEGAL @ be32 NFS4ERR_BADXDR, cp_status := NFS4ERR_BADXDR\<rparr>"
  | (refused) opcode where "rd32 request (cp_pos c) = Some opcode" "squashed d uid opcode c st" "st' = st"
      "c' = c\<lparr>cp_results := cp_results c @ be32 opcode @ be32 NFS4ERR_PERM, cp_count := cp_count c + 1,
              cp_status := NFS4ERR_PERM\<rparr>"
  | (failed) opcode r where "rd32 request (cp_pos c) = Some opcode" "\<not> squashed d uid opcode c st"
      "dispatch_op d (es (Suc n)) opcode request (cp_pos c + 4) (cp_current c) (cp_saved c) st = Some (r, st')"
      "op_status r \<noteq> NFS4_OK" "c' = after_op opcode r c"
  | (next_op) opcode r st1 where "rd32 request (cp_pos c) = Some opcode" "\<not> squashed d uid opcode c st"
      "dispatch_op d (es (Suc n)) opcode request (cp_pos c + 4) (cp_current c) (cp_saved c) st = Some (r, st1)"
      "op_status r = NFS4_OK"
      "compound_loop d es request uid n (after_op opcode r c) st1 = Some (c', st')"
proof (cases "length request < cp_pos c + 4")
  case True
  with assms show thesis by (intro short) simp_all
next
  case False
  define opcode where "opcode = u32_at request (cp_pos c)"
  have rd: "rd32 request (cp_pos c) = Some opcode" using False by (simp add: rd_simps opcode_def)
  show thesis
  proof (cases "squashed d uid opcode c st")
    case True
    with assms False rd show thesis by (intro refused [OF rd True]) simp_all
  next
    case free: False
    from assms False rd free obtain r st1 where
      op: "dispatch_op d (es (Suc n)) opcode request (cp_pos c + 4) (cp_current c) (cp_saved c) st = Some (r, st1)"
      by (auto split: bind_splits)
    show thesis
    proof (cases "op_status r = NFS4_OK")
      case True
      from assms False rd free op True show thesis by (intro next_op [OF rd free op True]) simp
    next
      case err: False
      from assms False rd free op err have "st' = st1" "c' = after_op opcode r c" by simp_all
      with rd free op err show thesis by (intro failed) simp_all
    qed
  qed
qed

text \<open>
  The operations of a COMPOUND that have succeeded so far, one after the other, each with its
  code and result: from a point of the loop, that is the number of operations that remain, what the
  loop carries and the state, to a later one.
\<close>

inductive ops_succeed ::
    "deps \<Rightarrow> (nat \<Rightarrow> env) \<Rightarrow> bytes \<Rightarrow> u32 \<Rightarrow> nat \<times> compound \<times> nfs4 \<Rightarrow> (u32 \<times> opres) list \<Rightarrow> nat \<times> compound \<times> nfs4 \<Rightarrow> bool"
  for d es request uid where
  none_yet: "ops_succeed d es request uid x [] x"
| one_more: "rd32 request (cp_pos c) = Some opcode \<Longrightarrow> \<not> squashed d uid opcode c st \<Longrightarrow>
    dispatch_op d (es (Suc n)) opcode request (cp_pos c + 4) (cp_current c) (cp_saved c) st = Some (r, st1) \<Longrightarrow>
    op_status r = NFS4_OK \<Longrightarrow>
    ops_succeed d es request uid (n, after_op opcode r c, st1) rs x \<Longrightarrow>
    ops_succeed d es request uid (Suc n, c, st) ((opcode, r) # rs) x"

definition success_bytes :: "u32 \<times> opres \<Rightarrow> bytes" where
  "success_bytes x = be32 (fst x) @ be32 NFS4_OK @ op_result (snd x)"

lemma rd32_short: "rd32 request p = Some w \<Longrightarrow> \<not> length request < p + 4"
  by (auto simp: rd32_def slice_def split: if_splits)

lemma ops_succeed_loop:
  "ops_succeed d es request uid (n, c, st) rs (k, c1, st1)
     \<Longrightarrow> compound_loop d es request uid n c st = compound_loop d es request uid k c1 st1"
  by (induction "(n, c, st)" rs "(k, c1, st1)" arbitrary: n c st rule: ops_succeed.induct)
    (simp_all add: rd32_short)

lemma ops_succeed_facts:
  "ops_succeed d es request uid (n, c, st) rs (k, c1, st1) \<Longrightarrow>
     n = length rs + k \<and> cp_results c1 = cp_results c @ concat (map success_bytes rs)
     \<and> cp_count c1 = cp_count c + of_nat (length rs) \<and> (cp_status c = NFS4_OK \<longrightarrow> cp_status c1 = NFS4_OK)
     \<and> cp_pos c1 = cp_pos c + sum_list (map (\<lambda>x. 4 + advance (snd x)) rs)"
  by (induction "(n, c, st)" rs "(k, c1, st1)" arbitrary: n c st rule: ops_succeed.induct)
    (simp_all add: after_op_def success_bytes_def)

text \<open>The loop gets to a point where no operation is left or the next one does not succeed.\<close>

definition next_fails :: "deps \<Rightarrow> (nat \<Rightarrow> env) \<Rightarrow> bytes \<Rightarrow> u32 \<Rightarrow> nat \<times> compound \<times> nfs4 \<Rightarrow> bool" where
  "next_fails d es request uid x \<longleftrightarrow>
     (case x of (k, c, st) \<Rightarrow> case rd32 request (cp_pos c) of
        None \<Rightarrow> True
      | Some opcode \<Rightarrow> squashed d uid opcode c st \<or>
          (case dispatch_op d (es k) opcode request (cp_pos c + 4) (cp_current c) (cp_saved c) st of
             None \<Rightarrow> True | Some (r, st1) \<Rightarrow> op_status r \<noteq> NFS4_OK))"

lemma ops_succeed_stop:
  "\<exists>rs k c1 st1. ops_succeed d es request uid (n, c, st) rs (k, c1, st1) \<and> (k = 0 \<or> next_fails d es request uid (k, c1, st1))"
proof (induction n arbitrary: c st)
  case 0
  show ?case using none_yet by blast
next
  case (Suc n)
  show ?case
  proof (cases "next_fails d es request uid (Suc n, c, st)")
    case True
    then show ?thesis using none_yet by blast
  next
    case False
    then obtain opcode r st1 where first: "rd32 request (cp_pos c) = Some opcode" "\<not> squashed d uid opcode c st"
      "dispatch_op d (es (Suc n)) opcode request (cp_pos c + 4) (cp_current c) (cp_saved c) st = Some (r, st1)"
      "op_status r = NFS4_OK"
      by (auto simp: next_fails_def split: option.splits)
    from Suc.IH [of "after_op opcode r c" st1] one_more [where es = es, OF first] show ?thesis by blast
  qed
qed

text \<open>The header of a COMPOUND: the tag, the number of operations and where they begin.\<close>

definition compound_header :: "bytes \<Rightarrow> nat \<Rightarrow> (u32 + bytes \<times> nat \<times> nat) option" where
  "compound_header request p =
     get_len request p (Inl NFS4ERR_BADXDR) (\<lambda>tag_len.
     if tag_len > MAX_XDR_OPAQUE then Some (Inl NFS4ERR_BADXDR)
     else get_bytes request (p + 4) tag_len (Inl NFS4ERR_BADXDR) (\<lambda>tag.
     let q = p + 4 + pad4 tag_len in
     get32 request q (Inl NFS4ERR_BADXDR) (\<lambda>minor_version.
     if minor_version > 2 then Some (Inl NFS4ERR_MINOR_VERS_MISMATCH)
     else get_len request (q + 4) (Inl NFS4ERR_BADXDR) (\<lambda>opcount.
     if opcount > MAX_OPS_PER_COMPOUND then Some (Inl NFS4ERR_RESOURCE)
     else Some (Inr (tag, opcount, q + 8))))))"

definition compound_reply :: "bytes \<Rightarrow> compound \<Rightarrow> bytes" where
  "compound_reply tag c = be32 (cp_status c) @ xdr_opaque tag @ be32 (cp_count c) @ cp_results c"

definition handle_compound :: "deps \<Rightarrow> (nat \<Rightarrow> env) \<Rightarrow> bytes \<Rightarrow> nat \<Rightarrow> u32 \<Rightarrow> nfs4 \<Rightarrow> (bytes \<times> nfs4) option" where
  "handle_compound d es request args_start caller_uid st = do {
     h \<leftarrow> compound_header request args_start;
     (case h of
        Inl status \<Rightarrow> Some (make_compound_error status, st)
      | Inr (tag, opcount, p) \<Rightarrow> do {
          (c, st') \<leftarrow> compound_loop d es request caller_uid opcount (compound_start p) st;
          Some (compound_reply tag c, st')
        })
   }"

section \<open>The RPC layer\<close>

definition v4_caller_uid :: "bytes \<Rightarrow> u32 option" where
  "v4_caller_uid request =
     (if length request \<ge> 32 then do {
        cred_flavor \<leftarrow> rd32 request 24;
        cl \<leftarrow> rd32 request 28;
        if unat cl \<le> MAX_XDR_OPAQUE \<and> 32 + unat cl \<le> length request then do {
          cred \<leftarrow> slice request 32 (32 + unat cl);
          uid \<leftarrow> parse_auth_sys_uid cred_flavor cred;
          Some (case uid of Some u \<Rightarrow> u | None \<Rightarrow> - 1)
        }
        else Some (- 1)
      }
      else Some (- 1))"

text \<open>
  The position of the arguments after credential and verifier; \<open>Inl\<close> holds the accept status
  and the body of an early reply.
\<close>

definition v4_args_off :: "bytes \<Rightarrow> (u32 \<times> bytes + nat) option" where
  "v4_args_off request =
     (let short = (ACC_SUCCESS, make_compound_error NFS4ERR_BADXDR) in
      if length request < 32 then Some (Inl short)
      else do {
        cl \<leftarrow> rd32 request 28;
        if unat cl > MAX_XDR_OPAQUE then Some (Inl (1, []))
        else let off = 32 + pad4 (unat cl) in
        if length request < off + 8 then Some (Inl short)
        else do {
          vl \<leftarrow> rd32 request (off + 4);
          if unat vl > MAX_XDR_OPAQUE then Some (Inl (1, []))
          else Some (Inr (off + 8 + pad4 (unat vl)))
        }
      })"

definition v4_handle_request :: "deps \<Rightarrow> (nat \<Rightarrow> env) \<Rightarrow> bytes \<Rightarrow> nfs4 \<Rightarrow> (bytes option \<times> nfs4) option" where
  "v4_handle_request d es request st =
     (if length request < 24 then Some (None, st)
      else do {
        xid \<leftarrow> rd32 request 0;
        procedure \<leftarrow> rd32 request 20;
        caller_uid \<leftarrow> v4_caller_uid request;
        off \<leftarrow> v4_args_off request;
        (case off of
           Inl (accept_stat, body) \<Rightarrow> Some (Some (make_rpc_accepted_reply xid accept_stat body), st)
         | Inr args \<Rightarrow>
             if procedure = 0 then Some (Some (make_rpc_accepted_reply xid ACC_SUCCESS []), st)
             else if procedure = 1 then do {
               (result, st') \<leftarrow> handle_compound d es request args caller_uid st;
               Some (Some (make_rpc_accepted_reply xid ACC_SUCCESS result), st')
             }
             else Some (Some (make_rpc_accepted_reply xid 3 []), st))
      })"

end
