(* ===== verification/Nfs4_Frame.thy ===== *)
theory Nfs4_Frame
  imports Nfs4_Compound
begin

text \<open>
  What the operations of a COMPOUND may do to the state.  An operation \<open>steps_to R st\<close> when
  every result it returns is related to \<open>st\<close>; the rules for the readers of arguments carry
  such facts through the bodies of the operations.  The frame lemmas say which part of the
  state each group of operations leaves alone, and the contract \<open>op_contract\<close> lifts a fact on
  single operations to whole requests.
\<close>

section \<open>Steps of an operation\<close>

definition holds :: "('r \<Rightarrow> bool) \<Rightarrow> 'r option \<Rightarrow> bool" where
  "holds P x \<longleftrightarrow> (\<forall>y. x = Some y \<longrightarrow> P y)"

lemma holds_simps [simp]: "holds P (Some y) \<longleftrightarrow> P y" "holds P None"
  by (simp_all add: holds_def)

lemma holds_bind: "(\<And>y. x = Some y \<Longrightarrow> holds P (f y)) \<Longrightarrow> holds P (Option.bind x f)"
  by (cases x) simp_all

lemma holds_if: "(Q \<Longrightarrow> holds P x) \<Longrightarrow> (\<not> Q \<Longrightarrow> holds P y) \<Longrightarrow> holds P (if Q then x else y)"
  by simp

lemma holds_get:
  "P b \<Longrightarrow> (\<And>w. holds P (k4 w)) \<Longrightarrow> holds P (get32 rq pp b k4)"
  "P b \<Longrightarrow> (\<And>w. holds P (k8 w)) \<Longrightarrow> holds P (get64 rq pp b k8)"
  "P b \<Longrightarrow> (\<And>x. holds P (kb x)) \<Longrightarrow> holds P (get_bytes rq pp n b kb)"
  "P b \<Longrightarrow> (\<And>l. holds P (kl l)) \<Longrightarrow> holds P (get_len rq pp b kl)"
  by (simp_all add: get_simps)

definition steps_to :: "(nfs4 \<Rightarrow> nfs4 \<Rightarrow> bool) \<Rightarrow> nfs4 \<Rightarrow> v4_result \<Rightarrow> bool" where
  "steps_to R st x \<longleftrightarrow> holds (\<lambda>y. R st (snd y)) x"

lemma steps_toI: "(\<And>r st'. x = Some (r, st') \<Longrightarrow> R st st') \<Longrightarrow> steps_to R st x"
  by (simp add: steps_to_def holds_def)

lemma steps_toD: "steps_to R st x \<Longrightarrow> x = Some (r, st') \<Longrightarrow> R st st'"
  by (simp add: steps_to_def)

lemma steps_to_simps [simp]:
  "steps_to R st (Some (r, st')) \<longleftrightarrow> R st st'" "steps_to R st None"
  by (simp_all add: steps_to_def)

lemma steps_bind: "(\<And>y. x = Some y \<Longrightarrow> steps_to R st (f y)) \<Longrightarrow> steps_to R st (Option.bind x f)"
  by (cases x) simp_all

lemma steps_mono: "steps_to R st x \<Longrightarrow> (\<And>st'. R st st' \<Longrightarrow> Q st st') \<Longrightarrow> steps_to Q st x"
  by (simp add: steps_to_def holds_def)

section \<open>Argument readers\<close>

text \<open>The readers call the continuation or return early with one of the given results.\<close>

lemma holds_args:
  "(\<And>n. P (bad n)) \<Longrightarrow> (\<And>x q. holds P (k2 x q)) \<Longrightarrow> holds P (name_arg rq p pp bad k2)"
  "(\<And>n. P (bad n)) \<Longrightarrow> (\<And>t x q. holds P (k3 t x q)) \<Longrightarrow> holds P (open_args rq p bad k3)"
  "(\<And>n. P (bad n)) \<Longrightarrow> (\<And>t x q. holds P (k3 t x q)) \<Longrightarrow> holds P (create_args rq p bad k3)"
  "(\<And>n. P (bad n)) \<Longrightarrow> (\<And>v w x q. holds P (k4 v w x q)) \<Longrightarrow> holds P (setattr_args rq p bad k4)"
  "(\<And>n s. P (bad2 n s)) \<Longrightarrow> (\<And>v w x q. holds P (k5 v w x q)) \<Longrightarrow> holds P (copy_args rq p bad2 k5)"
  "P b \<Longrightarrow> (\<And>v w x. holds P (k6 v w x)) \<Longrightarrow> holds P (clone_args rq p b k6)"
  "P b \<Longrightarrow> (\<And>v w. holds P (k7 v w)) \<Longrightarrow> holds P (readdir_args rq p b k7)"
  "(\<And>n. P (bad n)) \<Longrightarrow> (\<And>v i c q. holds P (k8 v i c q)) \<Longrightarrow> holds P (setclientid_args rq p bad k8)"
  unfolding name_arg_def open_args_def open_create_args_def create_args_def setattr_args_def copy_args_def
    clone_args_def readdir_args_def setclientid_args_def Let_def
  by (auto intro!: holds_get holds_bind)

lemmas holds_rules = holds_get holds_args holds_bind holds_if

lemma steps_args:
  "R st st \<Longrightarrow> (\<And>w. steps_to R st (k32 w)) \<Longrightarrow> steps_to R st (get32 rq pp (b, st) k32)"
  "R st st \<Longrightarrow> (\<And>w. steps_to R st (k64 w)) \<Longrightarrow> steps_to R st (get64 rq pp (b, st) k64)"
  "R st st \<Longrightarrow> (\<And>x. steps_to R st (kb x)) \<Longrightarrow> steps_to R st (get_bytes rq pp n (b, st) kb)"
  "R st st \<Longrightarrow> (\<And>l. steps_to R st (kl l)) \<Longrightarrow> steps_to R st (get_len rq pp (b, st) kl)"
  "R st st \<Longrightarrow> (\<And>x q. steps_to R st (k2 x q)) \<Longrightarrow> steps_to R st (name_arg rq p pp (\<lambda>n. (bad n, st)) k2)"
  "R st st \<Longrightarrow> (\<And>t x q. steps_to R st (k3 t x q)) \<Longrightarrow> steps_to R st (open_args rq p (\<lambda>n. (bad n, st)) k3)"
  "R st st \<Longrightarrow> (\<And>t x q. steps_to R st (k3 t x q)) \<Longrightarrow> steps_to R st (create_args rq p (\<lambda>n. (bad n, st)) k3)"
  "R st st \<Longrightarrow> (\<And>v w x q. steps_to R st (k4 v w x q)) \<Longrightarrow> steps_to R st (setattr_args rq p (\<lambda>n. (bad n, st)) k4)"
  "R st st \<Longrightarrow> (\<And>v w x q. steps_to R st (k5 v w x q)) \<Longrightarrow> steps_to R st (copy_args rq p (\<lambda>n s. (bad2 n s, st)) k5)"
  "R st st \<Longrightarrow> (\<And>v w x. steps_to R st (k6 v w x)) \<Longrightarrow> steps_to R st (clone_args rq p (b, st) k6)"
  "R st st \<Longrightarrow> (\<And>v w. steps_to R st (k7 v w)) \<Longrightarrow> steps_to R st (readdir_args rq p (b, st) k7)"
  unfolding steps_to_def by (intro holds_rules; simp)+

section \<open>Operations that change nothing\<close>

lemma query_ops_keep:
  "steps_to (=) st (op_putrootfh st)" "steps_to (=) st (op_getfh cur st)"
  "steps_to (=) st (op_savefh cur st)" "steps_to (=) st (op_restorefh sv st)"
  "steps_to (=) st (op_access cur st)" "steps_to (=) st (op_open_confirm rq p cur st)"
  "steps_to (=) st (op_read d rq p cur st)" "steps_to (=) st (op_readlink d cur st)"
  "steps_to (=) st (op_delegreturn st)" "steps_to (=) st (op_commit cur st)"
  "steps_to (=) st (op_read_plus d rq p cur st)" "steps_to (=) st (op_seek d rq p cur st)"
  "steps_to (=) st (op_open_downgrade rq p st)" "steps_to (=) st (op_release_lockowner rq p st)"
  "steps_to (=) st (op_getattr d rq p cur st)" "steps_to (=) st (op_verify d opc rq p cur st)"
  "steps_to (=) st (op_readdir_root rq p st)"
  "steps_to (=) st (op_renew st)" "steps_to (=) st (op_secinfo rq p st)"
  "steps_to (=) st (op_secinfo_no_name rq p st)" "steps_to (=) st (op_bind_conn_to_session rq p st)"
  "steps_to (=) st (op_reclaim_complete st)"
  unfolding op_putrootfh_def op_getfh_def op_savefh_def op_restorefh_def op_access_def
    op_open_confirm_def op_read_def op_readlink_def op_delegreturn_def op_commit_def op_read_plus_def
    op_seek_def op_open_downgrade_def op_release_lockowner_def op_getattr_def op_verify_def
    op_readdir_root_def op_renew_def op_secinfo_def op_secinfo_no_name_def op_bind_conn_to_session_def
    op_reclaim_complete_def Let_def
  by (auto intro!: steps_args steps_bind split: option.split sum.split prod.split if_split)

section \<open>Operations that register handles\<close>

text \<open>
  The changes of the handle store.  A path is registered only under a root the store knows:
  the root of another handle or an exported path.
\<close>

definition known_root :: "exports_manager \<Rightarrow> path \<Rightarrow> bool" where
  "known_root m root \<longleftrightarrow> (\<exists>i en. fh_map m i = Some en \<and> export_root en = root)
     \<or> (\<exists>k ex. (k, ex) \<in> set (exports m) \<and> exp_path ex = root)"

inductive handle_step :: "deps \<Rightarrow> exports_manager \<Rightarrow> exports_manager \<Rightarrow> bool" for d where
  register: "get_or_create_fh d e p root m = (h, m') \<Longrightarrow> known_root m root \<Longrightarrow> handle_step d m m'"
| rebuild: "handle_step d m (try_rebuild_fh s h m)"
| synthetic: "alloc_synthetic_handle d e p m = (h, m') \<Longrightarrow> handle_step d m m'"

abbreviation handle_steps :: "deps \<Rightarrow> exports_manager \<Rightarrow> exports_manager \<Rightarrow> bool" where
  "handle_steps d \<equiv> (handle_step d)\<^sup>*\<^sup>*"

text \<open>The tables the operations on files and handles leave alone.\<close>

definition same_tables :: "nfs4 \<Rightarrow> nfs4 \<Rightarrow> bool" where
  "same_tables st st' \<longleftrightarrow> clients st' = clients st \<and> client_owner_map st' = client_owner_map st
     \<and> client_counter st' = client_counter st \<and> sessions st' = sessions st \<and> locks st' = locks st
     \<and> writeverf st' = writeverf st"

definition handle_frame :: "deps \<Rightarrow> nfs4 \<Rightarrow> nfs4 \<Rightarrow> bool" where
  "handle_frame d st st' \<longleftrightarrow> the_fs st' = the_fs st \<and> handle_steps d (em st) (em st') \<and> same_tables st st'"

definition file_frame :: "deps \<Rightarrow> nfs4 \<Rightarrow> nfs4 \<Rightarrow> bool" where
  "file_frame d st st' \<longleftrightarrow> handle_steps d (em st) (em st') \<and> same_tables st st'"

lemma frame_refl [simp]: "same_tables st st" "handle_frame d st st" "file_frame d st st"
  by (simp_all add: same_tables_def handle_frame_def file_frame_def)

lemma handle_frame_file: "handle_frame d st st' \<Longrightarrow> file_frame d st st'"
  by (simp add: handle_frame_def file_frame_def)

lemma file_frame_fs [simp]: "file_frame d st (st\<lparr>the_fs := s\<rparr>)"
  by (simp add: file_frame_def same_tables_def)

lemma known_root_or:
  assumes "resolve_st d st fh = Some q"
  shows "known_root (em st) (root_or d st fh dflt)"
proof -
  obtain i en where "verify_and_decode_fhid d (em st) fh = Some i" "i \<noteq> 0" "fh_map (em st) i = Some en"
    using resolve_fh_entry [OF assms] by metis
  then show ?thesis by (auto simp: root_or_def get_fh_export_root_def known_root_def)
qed

lemma register_new:
  assumes "known_root (em st) root" "new_fh_st d e p root st = (h, st')"
  shows "handle_frame d st st'" "known_root (em st') root"
proof -
  obtain m' where g: "get_or_create_fh d e p root (em st) = (h, m')" and st': "st' = st\<lparr>em := m'\<rparr>"
    using assms(2) by (auto simp: new_fh_st_def split: prod.splits)
  from register [OF g assms(1)] show "handle_frame d st st'"
    by (simp add: handle_frame_def same_tables_def st')
  show "known_root (em st') root"
    using g assms(1) by (auto simp: st' known_root_def get_or_create_fh_def Let_def split: option.splits)
qed

lemma register_child:
  assumes "lookup_child d e s h name m = (x, m')"
  shows "handle_steps d m m'"
proof (cases "m' = m")
  case False
  then obtain fh child where x: "x = Some (fh, child)"
    using assms by (auto simp: lookup_child_def Let_def split: if_splits option.splits prod.splits)
  from lookup_child_Some [OF assms [unfolded x]] obtain dir root where
    r: "resolve_fh d s m h = Some dir"
    and root: "root = (case get_fh_export_root d m h of Some r \<Rightarrow> r | None \<Rightarrow> dir)"
    and g: "get_or_create_fh d e child root m = (fh, m')" by metis
  obtain i en where "verify_and_decode_fhid d m h = Some i" "i \<noteq> 0" "fh_map m i = Some en"
    using resolve_fh_entry [OF r] by metis
  then have "known_root m root" by (auto simp: root get_fh_export_root_def known_root_def)
  from register [OF g this] show ?thesis by (rule r_into_rtranclp)
qed simp

lemma register_export:
  assumes "create_file_handle d e p m = (h, m')"
  shows "handle_steps d m m'"
proof (cases "resolve_export_path m p")
  case None
  with assms have "alloc_synthetic_handle d e p m = (h, m')" by (simp add: create_file_handle_def)
  then show ?thesis by (intro r_into_rtranclp synthetic)
next
  case (Some ex)
  with assms have g: "get_or_create_fh d e (exp_path ex) (exp_path ex) m = (h, m')"
    by (simp add: create_file_handle_def)
  have "known_root m (exp_path ex)" using resolve_export_in [OF Some] by (auto simp: known_root_def)
  from register [OF g this] show ?thesis by (rule r_into_rtranclp)
qed

lemma op_putfh_frame: "steps_to (handle_frame d) st (op_putfh rq p st)"
  unfolding op_putfh_def Let_def
  by (auto intro!: steps_args r_into_rtranclp rebuild simp: handle_frame_def same_tables_def)

lemma op_lookup_frame: "steps_to (handle_frame d) st (op_lookup d e rq p cur st)"
  unfolding op_lookup_def Let_def
  by (auto intro!: steps_args dest: register_child register_export split: option.split prod.split
      simp: handle_frame_def same_tables_def)

lemma op_lookupp_frame: "steps_to (handle_frame d) st (op_lookupp d e cur st)"
  unfolding op_lookupp_def Let_def
  by (auto simp: register_new(1) [OF known_root_or] split: option.split prod.split)

lemma readdir_loop_frame:
  "readdir_loop d e root bm mc ck es res n st = Some (r, n', st') \<Longrightarrow> known_root (em st) root
     \<Longrightarrow> handle_frame d st st'"
proof (induction d e root bm mc ck es res n st rule: readdir_loop.induct)
  case (2 d e root bm mc ck name path es res n st)
  obtain h st1 where g: "new_fh_st d e path root st = (h, st1)" by fastforce
  note frame = register_new [OF "2.prems"(2) g]
  from "2.prems"(1) obtain fattr where
    b: "build_fattr4 st1 (Some path) bm (if path_is_dir (the_fs st1) path then NF4DIR else NF4REG) False = Some fattr"
    by (auto simp: g Let_def split: bind_splits)
  note ih = "2.IH" [of st1, OF _ _ b refl refl]
  have trans: "handle_frame d st1 st' \<Longrightarrow> handle_frame d st st'"
    using frame(1) by (auto simp: handle_frame_def same_tables_def)
  show ?case
    using "2.prems"(1) frame ih trans by (auto simp: g b Let_def split: if_splits)
qed simp

lemma op_readdir_frame: "steps_to (handle_frame d) st (op_readdir d e rq p cur st)"
proof -
  have root: "steps_to (handle_frame d) st (op_readdir_root rq p st)"
    by (rule steps_mono [OF query_ops_keep(17)]) simp
  show ?thesis
    unfolding op_readdir_def Let_def
    by (auto intro!: steps_args steps_bind root elim!: readdir_loop_frame simp: known_root_or
        split: option.split sum.split prod.split)
qed

section \<open>Operations that change files\<close>

text \<open>The operations \<open>is_write_opcode\<close> is about that reach the file system.\<close>

lemma register_changed:
  assumes "resolve_st d st fh = Some q" "new_fh_st d e p (root_or d (st\<lparr>the_fs := s\<rparr>) fh dflt) (st\<lparr>the_fs := s\<rparr>) = (h, st')"
  shows "file_frame d st st'"
proof -
  have "root_or d (st\<lparr>the_fs := s\<rparr>) fh dflt = root_or d st fh dflt" by (simp add: root_or_def)
  with register_new(1) [OF _ assms(2)] known_root_or [OF assms(1)] show ?thesis
    by (simp add: handle_frame_def file_frame_def same_tables_def)
qed

lemma open_file_frame:
  assumes "resolve_st d st fh = Some q" and "open_file d e t name fh q st = (x, st')"
  shows "file_frame d st st'"
proof -
  define fp where "fp = (if name = [] then q else path_join q name)"
  define made where "made = (if t = OPEN4_CREATE then open_create d e fh fp st else Inr st)"
  show ?thesis
  proof (cases made)
    case (Inl y)
    then show ?thesis using assms(2) by (simp add: open_file_def fp_def [symmetric] made_def [symmetric])
  next
    case (Inr st1)
    have "st = st\<lparr>the_fs := the_fs st\<rparr>" by simp
    with Inr have "st1 = st \<or> (\<exists>s. st1 = st\<lparr>the_fs := s\<rparr>)"
      by (auto simp: made_def open_create_def split: if_splits sum.splits)
    then obtain s where st1: "st1 = st\<lparr>the_fs := s\<rparr>" using \<open>st = _\<close> by metis
    obtain h st2 where n: "new_fh_st d e fp (root_or d st1 fh q) st1 = (h, st2)" by fastforce
    from register_changed [OF assms(1) n [unfolded st1]] have "file_frame d st st2" .
    moreover have "st' = st1 \<or> (\<exists>i m. st' = st2\<lparr>open_counter := i, open_files := m\<rparr>)"
      using assms(2) Inr n
      by (auto simp: open_file_def fp_def [symmetric] made_def [symmetric] Let_def split: if_splits)
    ultimately show ?thesis by (auto simp: st1) (auto simp: file_frame_def same_tables_def)
  qed
qed

lemma op_open_frame: "steps_to (file_frame d) st (op_open d e rq p cur st)"
  unfolding op_open_def Let_def
  by (auto intro!: steps_args split: option.split sum.split prod.split
      elim!: open_file_frame)

lemma update_ops_frame:
  "steps_to (file_frame d) st (op_write d e rq p cur st)"
  "steps_to (file_frame d) st (op_remove d rq p cur st)"
  "steps_to (file_frame d) st (op_rename d rq p cur sv st)"
  "steps_to (file_frame d) st (op_setattr d e rq p cur st)"
  "steps_to (file_frame d) st (op_link d e rq p cur sv st)"
  "steps_to (file_frame d) st (op_copy d e rq p cur sv st)"
  "steps_to (file_frame d) st (op_clone d e rq p cur sv st)"
  unfolding op_write_def op_remove_def op_rename_def op_setattr_def op_link_def op_copy_def op_clone_def Let_def
  by (auto intro!: steps_args steps_bind split: option.split sum.split prod.split if_split)

lemma op_create_frame: "steps_to (file_frame d) st (op_create d e rq p cur st)"
  unfolding op_create_def Let_def
  by (auto intro!: steps_args elim!: register_changed split: option.split sum.split prod.split if_split)

lemma op_close_frame: "steps_to (handle_frame d) st (op_close rq p cur st)"
  unfolding op_close_def by (auto intro!: steps_bind simp: handle_frame_def same_tables_def)

section \<open>Operations on sessions and locks\<close>

definition same_files :: "nfs4 \<Rightarrow> nfs4 \<Rightarrow> bool" where
  "same_files st st' \<longleftrightarrow> the_fs st' = the_fs st \<and> em st' = em st \<and> writeverf st' = writeverf st"

lemma same_files_refl [simp]: "same_files st st"
  by (simp add: same_files_def)

lemma session_ops_frame:
  "steps_to (\<lambda>st st'. same_files st st' \<and> locks st' = locks st) st (op_setclientid e rq p st)"
  "steps_to (\<lambda>st st'. same_files st st' \<and> locks st' = locks st) st (op_setclientid_confirm rq p st)"
  "steps_to (\<lambda>st st'. same_files st st' \<and> locks st' = locks st) st (op_exchange_id e rq p st)"
  "steps_to (\<lambda>st st'. same_files st st' \<and> locks st' = locks st) st (op_create_session e rq p st)"
  "steps_to (\<lambda>st st'. same_files st st' \<and> locks st' = locks st) st (op_destroy_session rq p st)"
  "steps_to (\<lambda>st st'. same_files st st' \<and> locks st' = locks st) st (op_destroy_clientid rq p st)"
  "steps_to (\<lambda>st st'. same_files st st' \<and> locks st' = locks st) st (op_sequence e rq p st)"
proof -
  note d = same_files_def
  show "steps_to (\<lambda>st st'. same_files st st' \<and> locks st' = locks st) st (op_setclientid e rq p st)"
    by (intro steps_toI) (auto simp: d elim: op_setclientid_cases)
  show "steps_to (\<lambda>st st'. same_files st st' \<and> locks st' = locks st) st (op_setclientid_confirm rq p st)"
    by (auto simp: d op_setclientid_confirm_def intro!: steps_bind)
  show "steps_to (\<lambda>st st'. same_files st st' \<and> locks st' = locks st) st (op_exchange_id e rq p st)"
    by (intro steps_toI) (auto simp: d elim: op_exchange_id_cases)
  show "steps_to (\<lambda>st st'. same_files st st' \<and> locks st' = locks st) st (op_create_session e rq p st)"
    by (intro steps_toI) (auto simp: d elim: op_create_session_cases)
  show "steps_to (\<lambda>st st'. same_files st st' \<and> locks st' = locks st) st (op_destroy_session rq p st)"
    unfolding op_destroy_session_def by (intro steps_args) (auto simp: d)
  show "steps_to (\<lambda>st st'. same_files st st' \<and> locks st' = locks st) st (op_destroy_clientid rq p st)"
    unfolding op_destroy_clientid_def by (intro steps_args) (auto simp: d)
  show "steps_to (\<lambda>st st'. same_files st st' \<and> locks st' = locks st) st (op_sequence e rq p st)"
    by (intro steps_toI) (auto simp: d elim: op_sequence_cases)
qed

definition same_sessions :: "nfs4 \<Rightarrow> nfs4 \<Rightarrow> bool" where
  "same_sessions st st' \<longleftrightarrow> clients st' = clients st \<and> client_owner_map st' = client_owner_map st
     \<and> client_counter st' = client_counter st \<and> sessions st' = sessions st"

lemma lock_ops_frame:
  "steps_to (\<lambda>st st'. same_files st st' \<and> same_sessions st st') st (op_lock rq p cur st)"
  "steps_to (\<lambda>st st'. same_files st st' \<and> same_sessions st st') st (op_lockt rq p cur st)"
  "steps_to (\<lambda>st st'. same_files st st' \<and> same_sessions st st') st (op_locku rq p cur st)"
proof -
  note d = same_files_def same_sessions_def
  show "steps_to (\<lambda>st st'. same_files st st' \<and> same_sessions st st') st (op_lock rq p cur st)"
    by (intro steps_toI) (auto simp: d elim: op_lock_cases)
  show "steps_to (\<lambda>st st'. same_files st st' \<and> same_sessions st st') st (op_lockt rq p cur st)"
    by (intro steps_toI) (auto simp: d elim: op_lockt_cases)
  show "steps_to (\<lambda>st st'. same_files st st' \<and> same_sessions st st') st (op_locku rq p cur st)"
    by (intro steps_toI) (auto simp: d elim: op_locku_cases)
qed

section \<open>All operations\<close>

lemma steps_if:
  "(P \<Longrightarrow> steps_to R st x) \<Longrightarrow> (\<not> P \<Longrightarrow> steps_to R st y) \<Longrightarrow> steps_to R st (if P then x else y)"
  by simp

definition handles_evolve :: "deps \<Rightarrow> nfs4 \<Rightarrow> nfs4 \<Rightarrow> bool" where
  "handles_evolve d st st' \<longleftrightarrow> handle_steps d (em st) (em st')"

lemma frames_evolve:
  "handle_frame d st st' \<Longrightarrow> handles_evolve d st st'" "file_frame d st st' \<Longrightarrow> handles_evolve d st st'"
  "st = st' \<Longrightarrow> handles_evolve d st st'" "same_files st st' \<and> P \<Longrightarrow> handles_evolve d st st'"
  by (auto simp: handles_evolve_def handle_frame_def file_frame_def same_files_def)

lemmas ops_evolve =
  query_ops_keep [THEN steps_mono, OF frames_evolve(3)]
  op_putfh_frame [THEN steps_mono, OF frames_evolve(1)] op_lookup_frame [THEN steps_mono, OF frames_evolve(1)]
  op_lookupp_frame [THEN steps_mono, OF frames_evolve(1)] op_readdir_frame [THEN steps_mono, OF frames_evolve(1)]
  op_close_frame [THEN steps_mono, OF frames_evolve(1)]
  op_open_frame [THEN steps_mono, OF frames_evolve(2)] update_ops_frame [THEN steps_mono, OF frames_evolve(2)]
  op_create_frame [THEN steps_mono, OF frames_evolve(2)]
  session_ops_frame [THEN steps_mono, OF frames_evolve(4)] lock_ops_frame [THEN steps_mono, OF frames_evolve(4)]

lemma dispatch_evolves: "steps_to (handles_evolve d) st (dispatch_op d e opc rq p cur sv st)"
  unfolding dispatch_op_def
  by (intro steps_if ops_evolve) (simp_all add: handles_evolve_def)

section \<open>From operations to requests\<close>

text \<open>
  The contract between the operations and the COMPOUND loop.  \<open>R n\<close> relates the states before
  and after at most \<open>n\<close> operations of a caller; every dispatched operation that root squashing
  lets through is one step.  Then a COMPOUND is at most \<open>MAX_OPS_PER_COMPOUND\<close> steps.
\<close>

locale op_contract =
  fixes d :: deps and uid :: u32 and R :: "nat \<Rightarrow> nfs4 \<Rightarrow> nfs4 \<Rightarrow> bool"
  assumes R_refl: "R 0 st st"
    and R_trans: "R m st1 st2 \<Longrightarrow> R n st2 st3 \<Longrightarrow> R (m + n) st1 st3"
    and R_mono: "R m st1 st2 \<Longrightarrow> m \<le> n \<Longrightarrow> R n st1 st2"
    and R_op: "\<not> squashed d uid opc c st \<Longrightarrow>
      dispatch_op d e opc rq p (cp_current c) (cp_saved c) st = Some (r, st') \<Longrightarrow> R 1 st st'"
begin

lemma R_same: "R n st st"
  by (rule R_mono [OF R_refl]) simp

lemma loop_steps: "compound_loop d es rq uid n c st = Some (c', st') \<Longrightarrow> R n st st'"
proof (induction n arbitrary: c st)
  case 0
  then show ?case by (simp add: R_refl)
next
  case (Suc n)
  from Suc.prems show ?case
  proof (cases rule: compound_loop_SucE)
    case (failed opc r)
    from R_op [OF failed(2,3)] show ?thesis by (rule R_mono) simp
  next
    case (next_op opc r st1)
    from R_trans [OF R_op [OF next_op(2,3)] Suc.IH [OF next_op(5)]] show ?thesis by simp
  qed (simp_all add: R_same)
qed

lemma compound_steps:
  assumes "handle_compound d es rq p uid st = Some (b, st')"
  shows "R MAX_OPS_PER_COMPOUND st st'"
proof -
  obtain h where h: "compound_header rq p = Some h"
    using assms by (auto simp: handle_compound_def split: bind_splits)
  show ?thesis
  proof (cases h)
    case (Inl s)
    with assms h show ?thesis by (simp add: handle_compound_def R_same)
  next
    case (Inr x)
    obtain tag n q where x: "x = (tag, n, q)" by (cases x)
    have "n \<le> MAX_OPS_PER_COMPOUND"
      using h unfolding Inr x compound_header_def by (auto simp: get_simps Let_def split: if_splits)
    moreover obtain c where "compound_loop d es rq uid n (compound_start q) st = Some (c, st')"
      using assms h unfolding Inr x handle_compound_def by (auto split: bind_splits)
    ultimately show ?thesis using loop_steps R_mono by blast
  qed
qed

lemma request_steps:
  assumes "v4_handle_request d es rq st = Some (b, st')" and "v4_caller_uid rq = Some uid"
  shows "R MAX_OPS_PER_COMPOUND st st'"
  using assms compound_steps
  by (auto simp: v4_handle_request_def R_same split: bind_splits if_splits sum.splits)

end

text \<open>Handles are only registered, rebuilt and allocated, whatever the request.\<close>

interpretation evolve: op_contract d uid "\<lambda>n. handles_evolve d" for d uid
proof
  show "handles_evolve d st st" for st by (simp add: handles_evolve_def)
  show "handles_evolve d a b \<Longrightarrow> handles_evolve d b c \<Longrightarrow> handles_evolve d a c" for a b c
    by (simp add: handles_evolve_def)
  show "dispatch_op d e opc rq p (cp_current c) (cp_saved c) st = Some (r, st') \<Longrightarrow> handles_evolve d st st'"
    for e opc rq p c st r st'
    by (rule steps_toD [OF dispatch_evolves])
qed

end
