(* ===== verification/Nfs4_Sample.thy ===== *)
theory Nfs4_Sample
  imports Nfs4_Compound
begin

text \<open>
  A concrete server the examples run on: the drive of \<open>sample_fs\<close>, exported with chosen
  options, with handles for the directory \<open>share\<close> and the file \<open>f\<close> in it.
\<close>

definition sample_dir :: path where "sample_dir = bs ''D:/share''"

definition sample_file :: path where "sample_file = path_join sample_dir (bs ''f'')"

definition sample_export :: "export_options \<Rightarrow> export" where
  "sample_export opts = \<lparr>exp_path = sample_dir, exp_alias = Some (bs ''share''), allowed_clients = [],
     options = opts\<rparr>"

definition sample_store :: "export_options \<Rightarrow> exports_manager" where
  "sample_store opts =
     add_handle 3 2 sample_file sample_dir (add_handle 2 1 sample_dir sample_dir
       (sample_em\<lparr>exports := [(sample_dir, sample_export opts)]\<rparr>))"

definition sample_server :: "export_options \<Rightarrow> nfs4" where
  "sample_server opts = nfs4_new sample_env sample_fs (sample_store opts)"

definition sample_dir_fh :: bytes where
  "sample_dir_fh = encode_handle sample_deps sample_env sample_em 1 (fnv1a sample_dir) 1"

definition sample_file_fh :: bytes where
  "sample_file_fh = encode_handle sample_deps sample_env sample_em 2 (fnv1a sample_file) 1"

lemma sample_names: "sample_file \<noteq> sample_dir" "path_key sample_file \<noteq> path_key sample_dir"
  unfolding sample_file_def sample_dir_def by code_simp+

lemma sample_server_sel [simp]:
  "the_fs (sample_server opts) = sample_fs" "em (sample_server opts) = sample_store opts"
  "fh_hmac_key (sample_store opts) = fh_hmac_key sample_em"
  "exports (sample_store opts) = [(sample_dir, sample_export opts)]"
  by (simp_all add: sample_server_def nfs4_new_def sample_store_def add_handle_def)

lemma sample_entries:
  "fh_map (sample_store opts) i = (if i = 1
     then Some \<lparr>real_path = sample_dir, export_root = sample_dir, fh_inode = fnv1a sample_dir, fh_gen = 1\<rparr>
     else if i = 2
     then Some \<lparr>real_path = sample_file, export_root = sample_dir, fh_inode = fnv1a sample_file, fh_gen = 1\<rparr>
     else None)"
  by (simp add: sample_store_def add_handle_def sample_em_def)

lemma sample_ids:
  "verify_and_decode_fhid sample_deps (sample_store opts) sample_dir_fh = Some 1"
  "verify_and_decode_fhid sample_deps (sample_store opts) sample_file_fh = Some 2"
  unfolding sample_dir_fh_def sample_file_fh_def
  by (rule verify_issued [OF sample_mac_ok]; simp)+

lemma sample_links:
  "\<not> path_is_symlink sample_fs sample_dir" "\<not> path_is_symlink sample_fs sample_file"
  unfolding sample_file_def sample_dir_def by code_simp+

lemma sample_handles:
  "resolve_fh sample_deps sample_fs (sample_store opts) sample_dir_fh = Some sample_dir"
  "resolve_fh sample_deps sample_fs (sample_store opts) sample_file_fh = Some sample_file"
  "get_fh_export_root sample_deps (sample_store opts) sample_dir_fh = Some sample_dir"
  "get_fh_export_root sample_deps (sample_store opts) sample_file_fh = Some sample_dir"
  by (simp_all add: resolve_fh_def get_fh_export_root_def sample_ids sample_entries sample_links)

lemma sample_resolve_export: "resolve_export_path (sample_store opts) sample_dir = Some (sample_export opts)"
proof -
  have "bs ''share'' \<noteq> sample_dir" "slash # bs ''share'' \<noteq> sample_dir"
    "path_file_name sample_dir = Some (bs ''share'')" "dropWhile (\<lambda>c. c = slash) sample_dir = sample_dir"
    unfolding sample_dir_def by code_simp+
  then show ?thesis
    by (simp add: resolve_export_path_def alias_match_def leading_match_def dir_name_of_def sample_export_def Let_def)
qed

lemma sample_read_only: "is_read_only sample_deps (sample_store opts) sample_file_fh = read_only opts"
  "is_read_only sample_deps (sample_store opts) sample_dir_fh = read_only opts"
  by (simp_all add: is_read_only_def sample_handles sample_resolve_export) (simp_all add: sample_export_def)

lemma sample_reads: "fs_read sample_fs (to_extended_path None sample_file) = Inr [65, 66, 67]"
  unfolding sample_file_def sample_dir_def by code_simp

lemma sample_opens: "fs_open A_write sample_fs (to_extended_path None sample_file) = Inr 2"
  unfolding sample_file_def sample_dir_def by code_simp

lemma sample_node: "node_at sample_fs 2 = Some (File [65, 66, 67])" "max_file sample_fs = 100"
  by (simp_all add: node_at_def sample_fs_def)

lemma sample_fs_cwd [simp]: "cwd sample_fs = None"
  by (simp add: sample_fs_def)

lemma sample_ext [simp]: "ext (sample_server opts) p = to_extended_path None p"
  by (simp add: ext_def)

lemma sample_em_inv_store: "em_inv (sample_store default_options)"
  unfolding sample_store_def
  by (intro em_inv_add_handle) (simp_all add: sample_em_def add_handle_def em_inv_def)

end
