(* ===== verification/Nfs4_Guard.thy ===== *)
theory Nfs4_Guard
  imports Nfs4_Frame Nfs4_Sample
begin

text \<open>
  The export options that forbid changes: read-only exports and root squashing.  A server is
  \<open>guarded F\<close> when every root it knows belongs to an export with the option \<open>F\<close>.  No
  request leaves that set of states, and the checks of the code are enough to keep the file
  system unchanged, except that COPY and CLONE do not look at the read-only option.
\<close>

section \<open>Guarded servers\<close>

definition flag_root :: "(export_options \<Rightarrow> bool) \<Rightarrow> exports_manager \<Rightarrow> path \<Rightarrow> bool" where
  "flag_root F m root \<longleftrightarrow> (\<exists>ex. resolve_export_path m root = Some ex \<and> F (options ex))"

definition guarded :: "(export_options \<Rightarrow> bool) \<Rightarrow> exports_manager \<Rightarrow> bool" where
  "guarded F m \<longleftrightarrow> (\<forall>root. known_root m root \<longrightarrow> flag_root F m root)"

lemma flag_root_cong: "exports m' = exports m \<Longrightarrow> flag_root F m' root = flag_root F m root"
  unfolding flag_root_def by (simp only: resolve_export_path_cong [of m' m root])

text \<open>What a step adds to the store: at most one entry, under a root known before.\<close>

lemma rebuild_adds:
  assumes "fh_map (try_rebuild_fh s h m) i = Some en" and "fh_map m i \<noteq> Some en"
  shows "known_root m (export_root en)"
proof -
  obtain root p where f: "first_some (\<lambda>(_, ex). map_option (Pair (exp_path ex))
      (find_path_by_inode 8 s (u64_at h 8) (exp_path ex))) (exports m) = Some (root, p)"
    and "export_root en = root"
    using assms by (auto simp: try_rebuild_fh_def Let_def split: option.splits if_splits)
  with first_some_in [OF f] show ?thesis by (auto simp: known_root_def)
qed

lemma rebuild_exports [simp]: "exports (try_rebuild_fh s h m) = exports m"
  by (cases rule: try_rebuild_cases [of s h m]) (simp_all add: add_handle_def)

lemma handle_step_exports: "handle_step d m m' \<Longrightarrow> exports m' = exports m"
  by (induction rule: handle_step.induct)
    (auto simp: alloc_synthetic_handle_def Let_def dest: get_or_create_exports)

lemma register_adds:
  "get_or_create_fh d e p r m = (h, m') \<Longrightarrow> fh_map m' i = Some en \<Longrightarrow>
     fh_map m i = Some en \<or> export_root en = r"
  by (auto simp: get_or_create_fh_def Let_def split: option.splits if_splits)

lemma handle_step_adds:
  "handle_step d m m' \<Longrightarrow> fh_map m' i = Some en \<Longrightarrow> fh_map m i = Some en \<or> known_root m (export_root en)"
proof (induction rule: handle_step.induct)
  case (register e p r m h m')
  then show ?case using register_adds by metis
next
  case (rebuild m s h)
  then show ?case using rebuild_adds by metis
qed (auto simp: alloc_synthetic_handle_def Let_def)

lemma handle_step_roots:
  assumes "handle_step d m m'" and "known_root m' root"
  shows "known_root m root"
  using assms(2) handle_step_adds [OF assms(1)] handle_step_exports [OF assms(1)]
  unfolding known_root_def by metis

lemma guarded_step: "handle_step d m m' \<Longrightarrow> guarded F m \<Longrightarrow> guarded F m'"
  unfolding guarded_def
  using handle_step_roots flag_root_cong [OF handle_step_exports] by blast

lemma guarded_steps: "handle_steps d m m' \<Longrightarrow> guarded F m \<Longrightarrow> guarded F m'"
  by (induction rule: rtranclp_induct) (auto intro: guarded_step)

lemma guarded_resolved:
  assumes "guarded F m" and "resolve_fh d s m h = Some p"
  obtains r ex where "get_fh_export_root d m h = Some r" "resolve_export_path m r = Some ex" "F (options ex)"
proof -
  obtain i en where i: "verify_and_decode_fhid d m h = Some i" "i \<noteq> 0" "fh_map m i = Some en"
    using resolve_fh_entry [OF assms(2)] by metis
  then have g: "get_fh_export_root d m h = Some (export_root en)" by (simp add: get_fh_export_root_def)
  have "known_root m (export_root en)" using i(3) by (auto simp: known_root_def)
  with assms(1) obtain ex where "resolve_export_path m (export_root en) = Some ex" "F (options ex)"
    by (auto simp: guarded_def flag_root_def)
  with g that show thesis by blast
qed

text \<open>The two checks of the code see every handle that resolves.\<close>

lemma guarded_read_only:
  "guarded read_only m \<Longrightarrow> resolve_fh d s m h = Some p \<Longrightarrow> is_read_only d m h"
  by (erule (1) guarded_resolved) (simp add: is_read_only_def)

lemma guarded_squashed:
  "guarded root_squash m \<Longrightarrow> resolve_fh d s m h = Some p \<Longrightarrow> should_squash_root d m h 0"
  by (erule (1) guarded_resolved) (simp add: should_squash_root_def)

section \<open>When operations leave the file system alone\<close>

definition fs_kept :: "nfs4 \<Rightarrow> nfs4 \<Rightarrow> bool" where
  "fs_kept st st' \<longleftrightarrow> the_fs st' = the_fs st"

lemma fs_kept_refl [simp]: "fs_kept st st"
  by (simp add: fs_kept_def)

lemma frames_kept:
  "handle_frame d st st' \<Longrightarrow> fs_kept st st'" "st = st' \<Longrightarrow> fs_kept st st'"
  "same_files st st' \<and> P \<Longrightarrow> fs_kept st st'"
  by (simp_all add: fs_kept_def handle_frame_def same_files_def)

lemmas query_kept =
  query_ops_keep [THEN steps_mono, OF frames_kept(2)]
  op_putfh_frame [THEN steps_mono, OF frames_kept(1)] op_lookup_frame [THEN steps_mono, OF frames_kept(1)]
  op_lookupp_frame [THEN steps_mono, OF frames_kept(1)] op_readdir_frame [THEN steps_mono, OF frames_kept(1)]
  op_close_frame [THEN steps_mono, OF frames_kept(1)]
  session_ops_frame [THEN steps_mono, OF frames_kept(3)] lock_ops_frame [THEN steps_mono, OF frames_kept(3)]

text \<open>With a current handle that does not resolve, every operation stops before its change.\<close>

definition unresolved :: "deps \<Rightarrow> nfs4 \<Rightarrow> bytes option \<Rightarrow> bool" where
  "unresolved d st cur \<longleftrightarrow> (\<forall>fh. cur = Some fh \<longrightarrow> resolve_st d st fh = None)"

lemma unresolved_keeps:
  assumes "unresolved d st cur"
  shows "steps_to fs_kept st (op_write d e rq p cur st)" "steps_to fs_kept st (op_remove d rq p cur st)"
    "steps_to fs_kept st (op_rename d rq p cur sv st)" "steps_to fs_kept st (op_setattr d e rq p cur st)"
    "steps_to fs_kept st (op_create d e rq p cur st)" "steps_to fs_kept st (op_open d e rq p cur st)"
    "steps_to fs_kept st (op_link d e rq p cur sv st)"
    "steps_to fs_kept st (op_copy d e rq p cur sv st)" "steps_to fs_kept st (op_clone d e rq p cur sv st)"
  using assms
  unfolding op_write_def op_remove_def op_rename_def op_setattr_def op_create_def op_open_def op_link_def
    op_copy_def op_clone_def Let_def unresolved_def
  by (auto intro!: steps_args steps_bind split: option.split)

text \<open>With a handle of a read-only export, the operations that check it stop as well.\<close>

lemma open_file_read_only:
  assumes "is_read_only d (em st) fh" and "open_file d e t name fh q st = (x, st')"
  shows "fs_kept st st'"
  using assms
  by (auto simp: open_file_def open_create_def new_fh_st_def Let_def fs_kept_def
      split: if_splits prod.splits)

lemma read_only_keeps:
  assumes "is_read_only d (em st) fh"
  shows "steps_to fs_kept st (op_write d e rq p (Some fh) st)" "steps_to fs_kept st (op_remove d rq p (Some fh) st)"
    "steps_to fs_kept st (op_rename d rq p (Some fh) sv st)" "steps_to fs_kept st (op_setattr d e rq p (Some fh) st)"
    "steps_to fs_kept st (op_create d e rq p (Some fh) st)" "steps_to fs_kept st (op_open d e rq p (Some fh) st)"
    "steps_to fs_kept st (op_link d e rq p cur (Some fh) st)"
  using assms
  unfolding op_write_def op_remove_def op_rename_def op_setattr_def op_create_def op_open_def op_link_def Let_def
  by (auto intro!: steps_args steps_bind intro: open_file_read_only split: option.split sum.split prod.split)

lemma link_unresolved_dir:
  "unresolved d st sv \<Longrightarrow> steps_to fs_kept st (op_link d e rq p cur sv st)"
  unfolding op_link_def unresolved_def Let_def
  by (auto intro!: steps_args steps_bind split: option.split)

section \<open>Read-only exports\<close>

lemma read_only_dispatch:
  assumes g: "guarded read_only (em st)" and opc: "opc \<noteq> OP_COPY" "opc \<noteq> OP_CLONE"
  shows "steps_to fs_kept st (dispatch_op d e opc rq p cur sv st)"
proof -
  have handle: "unresolved d st h \<or> (\<exists>fh. h = Some fh \<and> is_read_only d (em st) fh)" for h
    using guarded_read_only [OF g] by (auto simp: unresolved_def)
  have ops: "steps_to fs_kept st (op_write d e rq p cur st)" "steps_to fs_kept st (op_remove d rq p cur st)"
    "steps_to fs_kept st (op_rename d rq p cur sv st)" "steps_to fs_kept st (op_setattr d e rq p cur st)"
    "steps_to fs_kept st (op_create d e rq p cur st)" "steps_to fs_kept st (op_open d e rq p cur st)"
    by (rule disjE [OF handle [of cur]]; auto intro: unresolved_keeps read_only_keeps)+
  have link: "steps_to fs_kept st (op_link d e rq p cur sv st)"
    by (rule disjE [OF handle [of sv]]; auto intro: link_unresolved_dir read_only_keeps)
  show ?thesis
    unfolding dispatch_op_def by (intro steps_if query_kept ops link) (simp_all add: opc)
qed

text \<open>
  C11: on a server all of whose exports are read-only, no operation of a COMPOUND but COPY and
  CLONE changes a byte, a name or a time of the file system, whatever its arguments and
  handles; and the server stays such a server, so this holds for every sequence of operations.
\<close>

theorem v4_read_only_exports_immutable:
  assumes "guarded read_only (em st)" and "opcode \<noteq> OP_COPY" and "opcode \<noteq> OP_CLONE"
    and "dispatch_op d e opcode request p current_fh saved_fh st = Some (r, st')"
  shows "the_fs st' = the_fs st \<and> guarded read_only (em st')"
  using steps_toD [OF read_only_dispatch [OF assms(1-3)] assms(4)]
    guarded_steps [OF _ assms(1)] steps_toD [OF dispatch_evolves assms(4)]
  by (simp add: fs_kept_def handles_evolve_def)

section \<open>Root squashing\<close>

text \<open>Squashing refuses the changing operations of uid 0 before they run.\<close>

definition squash_kept :: "nfs4 \<Rightarrow> nfs4 \<Rightarrow> bool" where
  "squash_kept st st' \<longleftrightarrow> (guarded root_squash (em st) \<longrightarrow> fs_kept st st' \<and> guarded root_squash (em st'))"

lemma squash_dispatch:
  assumes g: "guarded root_squash (em st)" and free: "\<not> squashed d 0 opc c st"
  shows "steps_to fs_kept st (dispatch_op d e opc rq p (cp_current c) sv st)"
proof (cases "is_write_opcode opc")
  case True
  have "unresolved d st (cp_current c)"
    using free True guarded_squashed [OF g] by (auto simp: squashed_def unresolved_def) (metis option.exhaust)
  then show ?thesis
    unfolding dispatch_op_def by (intro steps_if query_kept unresolved_keeps) simp_all
next
  case False
  then show ?thesis
    unfolding dispatch_op_def
    by (intro steps_if query_kept; simp add: is_write_opcode_def)
qed

interpretation squash: op_contract d 0 "\<lambda>n. squash_kept" for d
proof
  show "squash_kept st st" for st by (simp add: squash_kept_def)
  show "squash_kept a b \<Longrightarrow> squash_kept b c \<Longrightarrow> squash_kept a c" for a b c
    by (auto simp: squash_kept_def fs_kept_def)
  show "squash_kept st st'"
    if "\<not> squashed d 0 opc c st" "dispatch_op d e opc rq p (cp_current c) (cp_saved c) st = Some (r, st')"
    for opc c st e rq p r st'
    using steps_toD [OF squash_dispatch [OF _ that(1)] that(2)] steps_toD [OF dispatch_evolves that(2)]
    by (auto simp: squash_kept_def handles_evolve_def intro: guarded_steps)
qed

text \<open>
  On a server all of whose exports squash root, no NFSv4 request of uid 0 changes the
  file system, whatever operations it is composed of.
\<close>

theorem root_squash_protects:
  assumes "guarded root_squash (em st)" and "v4_caller_uid request = Some 0"
    and "v4_handle_request d es request st = Some (reply, st')"
  shows "the_fs st' = the_fs st \<and> guarded root_squash (em st')"
  using squash.request_steps [OF assms(3,2)] assms(1) by (simp add: squash_kept_def fs_kept_def)

section \<open>COPY\<close>

definition copy_request :: "u64 \<Rightarrow> u32 \<Rightarrow> u64 \<Rightarrow> bytes" where
  "copy_request src_off count dst_off =
     replicate 16 0 @ be64 src_off @ be32 count @ replicate 16 0 @ be64 dst_off @ be32 0 @ be32 0 @ be32 1"

lemma copy_request_args: "copy_args (copy_request off n doff) 0 bad k = k off n doff 64"
proof -
  let ?rq = "copy_request off n doff"
  have l: "length ?rq = 64" by (simp add: copy_request_def)
  have r: "u64_at ?rq 16 = off" "u32_at ?rq 24 = n" "u64_at ?rq 44 = doff" "u32_at ?rq 52 = 0"
    by (simp_all add: copy_request_def u32_at_append u64_at_append)
  show ?thesis by (simp add: copy_args_def get_simps rd_simps l r Let_def)
qed

lemma copy_range_within:
  assumes "fs_read s src = Inr dat" and "off + n \<le> length dat" and "0 < n"
    and "fs_open A_write s dst = Inr i" and "seek_ok doff" and "doff + n \<le> max_file s"
  obtains s' where "copy_range e s src off n dst doff = Inr (n, s')"
    "fs_write_at e i doff (take n (drop off dat)) s = Inr s'"
proof -
  have len: "length (take n (drop off dat)) = n" using assms(2) by simp
  then have ne: "take n (drop off dat) \<noteq> []" using assms(3) by (metis list.size(3) less_irrefl)
  obtain old where "node_at s i = Some (File old)"
    using assms(4) by (auto simp: fs_open_def split: option.splits prod.splits node.splits if_splits)
  with ne len assms(6) obtain s' where w: "fs_write_at e i doff (take n (drop off dat)) s = Inr s'"
    by (simp add: fs_write_at_def)
  moreover have "min n (length dat - off) = n" using assms(2) by simp
  ultimately have "copy_range e s src off n dst doff = Inr (n, s')"
    using assms(1,2,4,5) len by (simp add: copy_range_def Let_def)
  then show thesis using w by (rule that)
qed

text \<open>
  C32: COPY overwrites files of a read-only export.  When the sink handle belongs to an export that
  is read-only, so that WRITE on it is refused with ROFS, and the operating system lets the server
  open the file for writing, COPY of a range that lies in the source answers OK, and the file
  then has the bytes of the range at the given offset.
\<close>

theorem copy_overwrites_read_only:
  assumes "resolve_st d st sink_fh = Some sink" and "resolve_st d st source_fh = Some source"
    and "is_read_only d (em st) sink_fh"
    and "fs_read (the_fs st) (ext st source) = Inr dat" and "unat off + unat n \<le> length dat" and "0 < n"
    and "fs_read (the_fs st) (ext st sink) = Inr old" and "fs_open A_write (the_fs st) (ext st sink) = Inr i"
    and "seek_ok (unat doff)" and "unat doff + unat n \<le> max_file (the_fs st)"
  shows "\<exists>s. op_copy d e (copy_request off n doff) 0 (Some sink_fh) (Some source_fh) st
        = Some (op_done (be32 n @ be32 1) 64, st\<lparr>the_fs := s\<rparr>)
      \<and> fs_read s (ext st sink) = Inr (splice_bytes old (unat doff) (take (unat n) (drop (unat off) dat)))
      \<and> op_write d e request p (Some sink_fh) st = Some (op_fail 0 NFS4ERR_ROFS, st)"
proof -
  have n: "0 < unat n" using assms(6) by (simp add: word_less_nat_alt)
  obtain s where c: "copy_range e (the_fs st) (ext st source) (unat off) (unat n) (ext st sink) (unat doff) = Inr (unat n, s)"
    and w: "fs_write_at e i (unat doff) (take (unat n) (drop (unat off) dat)) (the_fs st) = Inr s"
    using copy_range_within [OF assms(4,5) n assms(8-10)] by blast
  have "length (take (unat n) (drop (unat off) dat)) = unat n" using assms(5) by simp
  with n have "take (unat n) (drop (unat off) dat) \<noteq> []" by (metis list.size(3) less_irrefl)
  from fs_write_at_read [OF assms(8) w this assms(7)] c assms(1-3) show ?thesis
    by (intro exI [of _ s]) (simp add: op_copy_def op_write_def copy_request_args)
qed

section \<open>Concrete requests\<close>

lemma sample_guarded: "F opts \<Longrightarrow> guarded F (em (sample_server opts))"
  by (auto simp: guarded_def known_root_def flag_root_def sample_entries sample_resolve_export
      sample_export_def split: if_splits)

definition ro_options :: export_options where
  "ro_options = default_options\<lparr>read_only := True\<rparr>"

lemma default_flags [simp]: "root_squash default_options" "read_only ro_options"
  by (simp_all add: default_options_def ro_options_def)

theorem v4_read_only_exports_immutable_witness:
  "\<exists>r st'. dispatch_op sample_deps sample_env OP_REMOVE (xdr_opaque (bs ''f'')) 0 (Some sample_dir_fh) None
      (sample_server ro_options) = Some (r, st') \<and> the_fs st' = sample_fs"
proof -
  have "dispatch_op sample_deps sample_env OP_REMOVE (xdr_opaque (bs ''f'')) 0 (Some sample_dir_fh) None
      (sample_server ro_options) = Some (op_fail 0 NFS4ERR_ROFS, sample_server ro_options)"
    by (simp add: dispatch_op_def opcode_defs op_remove_def sample_read_only)
  with v4_read_only_exports_immutable [OF sample_guarded _ _ this] show ?thesis
    by (auto simp: opcode_defs)
qed

text \<open>A call of uid 0.\<close>

definition root_call :: "bytes \<Rightarrow> bytes" where
  "root_call args = rpc_call_header 1 100003 4 1 1 (auth_sys_body 0 [] 0 []) 0 [] @ args"

lemma length_cred: "length (auth_sys_body 0 [] 0 []) = 12"
  by (simp add: auth_sys_body_def)

lemma root_call_prefix: "\<exists>h. root_call args = h @ args \<and> length h = 52"
  by (simp add: root_call_def rpc_call_header_def length_cred pad4_def)

lemma root_call_uid: "v4_caller_uid (root_call args) = Some 0"
proof -
  let ?cred = "auth_sys_body 0 [] 0 []"
  have fl: "rd32 (root_call args) 24 = Some 1" by (simp add: root_call_def rpc_call_header_def rd32_def)
  have cl: "rd32 (root_call args) 28 = Some 12"
    using rpc_call_header_reads(6) [where cred = ?cred] by (simp add: root_call_def length_cred)
  have len: "length (root_call args) = 52 + length args" using root_call_prefix [of args] by auto
  have "slice (root_call args) 32 44 = Some ?cred"
    by (simp add: slice_def len root_call_def) (simp add: rpc_call_header_def xdr_opaque_def length_cred)
  then show ?thesis
    using parse_auth_sys_body [of "[]" 0 0 "[]"]
    by (simp add: v4_caller_uid_def fl cl MAX_XDR_OPAQUE_def len)
qed

lemma root_call_handled:
  "v4_handle_request d es (root_call args) st = map_option (\<lambda>(b, st').
     (Some (make_rpc_accepted_reply 1 ACC_SUCCESS b), st')) (handle_compound d es (root_call args) 52 0 st)"
proof -
  let ?r = "root_call args"
  note reads = rpc_call_header_reads [where cred = "auth_sys_body 0 [] 0 []" and verif = "[]" and rest = args
    and xid = 1 and prog = 100003 and ver = 4 and proc = 1 and fl = 1 and vfl = 0,
    folded root_call_def, unfolded length_cred]
  have len: "length ?r = 52 + length args" using root_call_prefix [of args] by auto
  have "v4_args_off ?r = Some (Inr 52)"
    using reads(6,7) by (simp add: v4_args_off_def len pad4_def MAX_XDR_OPAQUE_def)
  then show ?thesis
    using reads(1,5) len
    by (cases "handle_compound d es ?r 52 0 st") (auto simp: v4_handle_request_def root_call_uid)
qed

text \<open>Reading the arguments behind the RPC header.\<close>

lemma root_call_reads:
  "length (root_call args) = 52 + length args" "drop (52 + k) (root_call args) = drop k args"
  "u32_at (root_call args) (52 + k) = u32_at args k" "rd32 (root_call args) (52 + k) = rd32 args k"
  using root_call_prefix [of args] by (auto simp: u32_at_def rd32_def)

definition compound_args :: "u32 \<Rightarrow> bytes \<Rightarrow> bytes" where
  "compound_args n ops = be32 0 @ be32 0 @ be32 n @ ops"

lemma root_call_compound:
  assumes "unat n \<le> MAX_OPS_PER_COMPOUND"
  shows "handle_compound d es (root_call (compound_args n ops)) 52 0 st
    = map_option (\<lambda>(c, st'). (compound_reply [] c, st'))
        (compound_loop d es (root_call (compound_args n ops)) 0 (unat n) (compound_start 64) st)"
proof -
  let ?rq = "root_call (compound_args n ops)"
  have "u32_at ?rq 52 = 0" "u32_at ?rq 56 = 0" "u32_at ?rq 60 = n"
    using root_call_reads(3) [of "compound_args n ops" 0] root_call_reads(3) [of "compound_args n ops" 4]
      root_call_reads(3) [of "compound_args n ops" 8]
    by (simp_all add: compound_args_def u32_at_append)
  then have "compound_header ?rq 52 = Some (Inr ([], unat n, 64))"
    using assms by (simp add: compound_header_def get_simps root_call_reads(1) compound_args_def)
  then show ?thesis
    by (cases "compound_loop d es ?rq 0 (unat n) (compound_start 64) st") (auto simp: handle_compound_def)
qed

text \<open>A COMPOUND with PUTFH of the directory and REMOVE of \<open>f\<close>.\<close>

definition remove_ops :: bytes where
  "remove_ops = be32 OP_PUTFH @ xdr_opaque sample_dir_fh @ be32 OP_REMOVE @ xdr_opaque (bs ''f'')"

lemma sample_dir_fh_facts: "length sample_dir_fh = 40" "decode_fhid sample_dir_fh = Some 1"
  unfolding sample_dir_fh_def
  using length_encode_handle [OF sample_mac_ok] by (simp_all add: FH_SIZE_def decode_encode_handle)

lemma sample_rebuild: "try_rebuild_fh s sample_dir_fh (sample_store opts) = sample_store opts"
  by (simp add: try_rebuild_fh_def sample_dir_fh_facts sample_entries)

lemma root_remove_refused:
  "handle_compound sample_deps es (root_call (compound_args 2 remove_ops)) 52 0 (sample_server default_options)
    = Some (be32 NFS4ERR_PERM @ be32 0 @ be32 2 @ be32 OP_PUTFH @ be32 NFS4_OK @ be32 OP_REMOVE @ be32 NFS4ERR_PERM,
        sample_server default_options)"
proof -
  let ?rq = "root_call (compound_args 2 remove_ops)"
  let ?st = "sample_server default_options"
  have len: "length ?rq = 124" by (simp add: root_call_reads(1) compound_args_def remove_ops_def sample_dir_fh_facts pad4_def)
  have ops: "rd32 ?rq 64 = Some OP_PUTFH" "rd32 ?rq 112 = Some OP_REMOVE" "u32_at ?rq 68 = 40"
    "take 40 (drop 72 ?rq) = sample_dir_fh"
    using root_call_reads(4) [of "compound_args 2 remove_ops" 12] root_call_reads(4) [of "compound_args 2 remove_ops" 60]
      root_call_reads(3) [of "compound_args 2 remove_ops" 16] root_call_reads(2) [of 20 "compound_args 2 remove_ops"]
    by (simp_all add: compound_args_def remove_ops_def xdr_opaque_def sample_dir_fh_facts pad4_def rd32_def u32_at_append)
  have "op_putfh ?rq 68 ?st = Some (op_moved 44 sample_dir_fh, ?st)"
    using ops by (simp add: op_putfh_def get_simps len sample_rebuild pad4_def)
  moreover have "should_squash_root sample_deps (sample_store default_options) sample_dir_fh 0"
    by (rule guarded_squashed [OF sample_guarded [of root_squash default_options, simplified] sample_handles(1)])
  ultimately have "compound_loop sample_deps es ?rq 0 (Suc (Suc 0)) (compound_start 64) ?st = Some
     (\<lparr>cp_pos = 112, cp_current = Some sample_dir_fh, cp_saved = None,
       cp_results = be32 OP_PUTFH @ be32 NFS4_OK @ be32 OP_REMOVE @ be32 NFS4ERR_PERM,
       cp_count = 2, cp_status = NFS4ERR_PERM\<rparr>, ?st)"
    using ops
    by (simp add: len compound_start_def after_op_def squashed_def dispatch_op_def opcode_defs is_write_opcode_def)
  then show ?thesis
    using root_call_compound [of 2 sample_deps es remove_ops ?st]
    by (simp add: MAX_OPS_PER_COMPOUND_def compound_reply_def xdr_opaque_def flip: numeral_2_eq_2)
qed

theorem root_squash_protects_witness:
  "\<exists>st'. v4_handle_request sample_deps (\<lambda>_. sample_env) (root_call (compound_args 2 remove_ops))
      (sample_server default_options) = Some (Some (make_rpc_accepted_reply 1 ACC_SUCCESS
        (be32 NFS4ERR_PERM @ be32 0 @ be32 2 @ be32 OP_PUTFH @ be32 NFS4_OK @ be32 OP_REMOVE @ be32 NFS4ERR_PERM)), st')
     \<and> the_fs st' = sample_fs"
proof -
  have r: "v4_handle_request sample_deps (\<lambda>_. sample_env) (root_call (compound_args 2 remove_ops))
      (sample_server default_options) = Some (Some (make_rpc_accepted_reply 1 ACC_SUCCESS
        (be32 NFS4ERR_PERM @ be32 0 @ be32 2 @ be32 OP_PUTFH @ be32 NFS4_OK @ be32 OP_REMOVE @ be32 NFS4ERR_PERM)),
      sample_server default_options)"
    unfolding root_call_handled root_remove_refused by simp
  from root_squash_protects [OF _ root_call_uid r] sample_guarded [of root_squash default_options] r
  show ?thesis by auto
qed

theorem copy_overwrites_read_only_witness:
  "\<exists>s. op_copy sample_deps sample_env (copy_request 0 3 3) 0 (Some sample_file_fh) (Some sample_file_fh)
      (sample_server ro_options) = Some (op_done (be32 3 @ be32 1) 64, (sample_server ro_options)\<lparr>the_fs := s\<rparr>) \<and>
    fs_read s (to_extended_path None sample_file) = Inr [65, 66, 67, 65, 66, 67]"
proof -
  have "\<exists>s. op_copy sample_deps sample_env (copy_request 0 3 3) 0 (Some sample_file_fh) (Some sample_file_fh)
        (sample_server ro_options) = Some (op_done (be32 3 @ be32 1) 64, (sample_server ro_options)\<lparr>the_fs := s\<rparr>)
      \<and> fs_read s (ext (sample_server ro_options) sample_file)
          = Inr (splice_bytes [65, 66, 67] (unat (3 :: u64)) (take (unat (3 :: u32)) (drop (unat (0 :: u64)) [65, 66, 67])))
      \<and> op_write sample_deps sample_env [] 0 (Some sample_file_fh) (sample_server ro_options)
          = Some (op_fail 0 NFS4ERR_ROFS, sample_server ro_options)"
    by (rule copy_overwrites_read_only [where sink = sample_file and source = sample_file and i = 2])
      (simp_all add: sample_handles sample_read_only sample_reads sample_opens sample_node seek_ok_def)
  then show ?thesis by (auto simp: splice_bytes_def)
qed

end
