(* ===== verification/Nfs4_Panic.thy ===== *)
theory Nfs4_Panic
  imports Nfs4_Guard
begin

text \<open>
  Which NFSv4 requests can make the server panic.  A panic stops the whole process: the
  release profile is built with \<open>panic = "abort"\<close>.  Every read of the operations is preceded by
  a test of the length, except one read of READDIR; and SETATTR adds a client's time to the
  epoch without a check for overflow.
\<close>

section \<open>Readers\<close>

definition returns :: "'a option \<Rightarrow> bool" where
  "returns x \<longleftrightarrow> x \<noteq> None"

lemma returns_simps [simp]: "returns (Some x)" "\<not> returns None"
  by (simp_all add: returns_def)

named_theorems no_panic

lemma bind_no_panic [no_panic]:
  "returns x \<Longrightarrow> (\<And>y. x = Some y \<Longrightarrow> returns (f y)) \<Longrightarrow> returns (Option.bind x f)"
  by (cases x) auto

lemmas get_returns [no_panic] = get_no_panic [folded returns_def]

lemma case_no_panic [no_panic]:
  "(P \<Longrightarrow> returns x) \<Longrightarrow> (\<not> P \<Longrightarrow> returns y) \<Longrightarrow> returns (if P then x else y)"
  "(opt = None \<Longrightarrow> returns x) \<Longrightarrow> (\<And>v. opt = Some v \<Longrightarrow> returns (f v)) \<Longrightarrow>
     returns (case opt of None \<Rightarrow> x | Some v \<Rightarrow> f v)"
  "(\<And>v. s = Inl v \<Longrightarrow> returns (g v)) \<Longrightarrow> (\<And>v. s = Inr v \<Longrightarrow> returns (h v)) \<Longrightarrow>
     returns (case s of Inl v \<Rightarrow> g v | Inr v \<Rightarrow> h v)"
  by (auto split: option.split sum.split)

lemma rd_no_panic [no_panic]:
  "pp + 4 \<le> length r \<Longrightarrow> returns (rd32 r pp)" "pp + 8 \<le> length r \<Longrightarrow> returns (rd64 r pp)"
  "i \<le> j \<Longrightarrow> j \<le> length r \<Longrightarrow> returns (slice r i j)"
  by (simp_all add: rd_simps)

lemma args_no_panic [no_panic]:
  "(\<And>x q. returns (k2 x q)) \<Longrightarrow> returns (name_arg rq p pp bad k2)"
  "(\<And>t x q. returns (k3 t x q)) \<Longrightarrow> returns (open_args rq p bad k3)"
  "(\<And>t x q. returns (k3 t x q)) \<Longrightarrow> returns (create_args rq p bad k3)"
  "(\<And>v w x. returns (k5 v w x)) \<Longrightarrow> returns (clone_args rq p b k5)"
  unfolding name_arg_def open_args_def open_create_args_def create_args_def clone_args_def Let_def
  by (auto intro!: no_panic)

lemma copy_args_no_panic [no_panic]:
  "(\<And>v w x q. returns (k v w x q)) \<Longrightarrow> returns (copy_args rq p bad k)"
  unfolding copy_args_def Let_def by (auto intro!: no_panic)

lemma build_fattr4_total: "returns (build_fattr4 st p bm dt rt)"
  unfolding build_fattr4_def Let_def using attr_vals_aligned by (simp add: mod_eq_0_iff_dvd)

lemma read_words_no_panic: "p + 4 * n \<le> length rq \<Longrightarrow> returns (read_words rq p n)"
  by (induction n arbitrary: p) (auto intro!: no_panic simp: rd_simps)

lemma compare_no_panic: "returns (compare_attr_vals meta b0 b1 dat)"
proof -
  have "returns (compare_attr meta k dat off)" for k off
    unfolding compare_attr_def by (auto simp: get_simps rd_simps Let_def)
  then have "returns (compare_bits meta b0 b1 ks dat off)" for ks off
    by (induction ks arbitrary: off) (auto simp: Let_def intro!: no_panic)
  then show ?thesis by (simp add: compare_attr_vals_def)
qed

section \<open>Operations\<close>

lemma file_ops_no_panic:
  "returns (op_putrootfh st)" "returns (op_putfh rq p st)" "returns (op_getfh cur st)" "returns (op_savefh cur st)"
  "returns (op_restorefh sv st)" "returns (op_lookup d e rq p cur st)" "returns (op_lookupp d e cur st)"
  "returns (op_access cur st)" "returns (op_open d e rq p cur st)" "returns (op_open_confirm rq p cur st)"
  "returns (op_close rq p cur st)" "returns (op_write d e rq p cur st)"
  "returns (op_readlink d cur st)" "returns (op_remove d rq p cur st)" "returns (op_rename d rq p cur sv st)"
  "returns (op_create d e rq p cur st)" "returns (op_link d e rq p cur sv st)" "returns (op_delegreturn st)"
  "returns (op_commit cur st)" "returns (op_read_plus d rq p cur st)" "returns (op_copy d e rq p cur sv st)"
  "returns (op_seek d rq p cur st)" "returns (op_clone d e rq p cur sv st)"
  "returns (op_open_downgrade rq p st)" "returns (op_release_lockowner rq p st)"
  unfolding op_putrootfh_def op_putfh_def op_getfh_def op_savefh_def op_restorefh_def op_lookup_def
    op_lookupp_def op_access_def op_open_def op_open_confirm_def op_close_def op_write_def op_readlink_def
    op_remove_def op_rename_def op_create_def op_link_def op_delegreturn_def op_commit_def
    op_read_plus_def op_copy_def op_seek_def op_clone_def op_open_downgrade_def op_release_lockowner_def Let_def
  by (auto intro!: no_panic split: prod.split)

lemma op_read_no_panic: "returns (op_read d rq p cur st)"
  unfolding op_read_def read_window_def Let_def
  by (auto intro!: no_panic split: prod.split)

lemma op_getattr_no_panic: "returns (op_getattr d rq p cur st)"
  unfolding op_getattr_def Let_def
  by (auto intro!: no_panic read_words_no_panic build_fattr4_total)

lemma op_verify_no_panic: "returns (op_verify d opc rq p cur st)"
  unfolding op_verify_def Let_def
  by (auto intro!: no_panic compare_no_panic split: prod.split)

lemma session_args_no_panic:
  "(\<And>v i c q. returns (k v i c q)) \<Longrightarrow> returns (setclientid_args rq p bad k)"
  "returns (skip_implids rq n pp)" "returns (skip_state_protect rq pp)"
  "returns (parse_channel_attrs rq pp)" "returns (skip_sec_parms rq n pp)"
  unfolding setclientid_args_def skip_state_protect_def parse_channel_attrs_def Let_def
  by (auto intro!: no_panic)
    (induction n arbitrary: pp; auto intro!: no_panic simp: Let_def)+

lemma session_ops_no_panic:
  "returns (op_setclientid e rq p st)" "returns (op_setclientid_confirm rq p st)" "returns (op_renew st)"
  "returns (op_secinfo rq p st)" "returns (op_exchange_id e rq p st)" "returns (op_create_session e rq p st)"
  "returns (op_destroy_session rq p st)" "returns (op_bind_conn_to_session rq p st)"
  "returns (op_destroy_clientid rq p st)" "returns (op_sequence e rq p st)" "returns (op_reclaim_complete st)"
  "returns (op_secinfo_no_name rq p st)"
  unfolding op_setclientid_def op_setclientid_confirm_def op_renew_def op_secinfo_def op_exchange_id_def
    exchange_id_args_def op_create_session_def create_session_args_def op_destroy_session_def
    op_bind_conn_to_session_def op_destroy_clientid_def op_sequence_def op_reclaim_complete_def
    op_secinfo_no_name_def Let_def
  by (auto intro!: no_panic session_args_no_panic split: prod.split)

lemma bitmap_args_no_panic: "returns (bitmap_args rq n pp)" "returns (bitmap_args_root rq n pp)"
  by (induction n arbitrary: pp) (auto intro!: no_panic split: prod.split)

lemma readdir_loop_no_panic: "returns (readdir_loop d e root bm mc ck es res n st)"
  by (induction d e root bm mc ck es res n st rule: readdir_loop.induct)
    (auto intro!: no_panic build_fattr4_total simp: Let_def)

lemma readdir_root_loop_no_panic: "returns (readdir_root_loop st bm ck i es)"
  by (induction st bm ck i es rule: readdir_root_loop.induct)
    (auto intro!: no_panic build_fattr4_total simp: Let_def)

text \<open>READDIR checks for 20 bytes and reads 24.\<close>

lemma readdir_args_panics:
  "p + 20 \<le> length rq \<Longrightarrow> length rq < p + 24 \<Longrightarrow> readdir_args rq p bad k = None"
  unfolding readdir_args_def by (auto simp: rd_simps split: bind_splits dest!: rd32_short)

lemma readdir_args_returns:
  "\<not> (p + 20 \<le> length rq \<and> length rq < p + 24) \<Longrightarrow> (\<And>v w. returns (k v w)) \<Longrightarrow> returns (readdir_args rq p bad k)"
  unfolding readdir_args_def by (auto intro!: no_panic)

lemma op_readdir_returns:
  assumes "\<not> (p + 20 \<le> length rq \<and> length rq < p + 24)"
  shows "returns (op_readdir d e rq p cur st)"
  using assms unfolding op_readdir_def op_readdir_root_def Let_def
  by (auto intro!: no_panic readdir_args_returns bitmap_args_no_panic readdir_root_loop_no_panic
      readdir_loop_no_panic split: prod.split)

lemma op_readdir_panics:
  "op_readdir d e rq p cur st = None \<longleftrightarrow> cur \<noteq> None \<and> p + 20 \<le> length rq \<and> length rq < p + 24"
proof (cases "p + 20 \<le> length rq \<and> length rq < p + 24")
  case True
  then show ?thesis
    by (auto simp: op_readdir_def op_readdir_root_def readdir_args_panics split: option.split)
next
  case False
  with op_readdir_returns [OF this, of d e cur st] show ?thesis by (auto simp: returns_def)
qed

text \<open>
  SETATTR adds the time of a client to the epoch.  Where an attribute begins depends on those
  before it: the position after one attribute, or \<open>None\<close> where the values end too early.
\<close>

definition setattr_next :: "bytes \<Rightarrow> nat \<Rightarrow> nat \<Rightarrow> nat option" where
  "setattr_next dat b off =
     (let len = (if b = 1 then 4 else if b = 33 \<or> b = 4 then 8
                 else if b = 36 \<or> b = 37 then 4 + pad4 (unat (u32_at dat off))
                 else if (b = 53 \<or> b = 54) \<and> u32_at dat off = 0 then 16
                 else 4);
          needed = (if b = 1 \<or> b = 33 then 0 else if b = 4 then 8
                    else if b = 54 \<and> off + 4 \<le> length dat then len else 4)
      in if off + needed \<le> length dat \<or> needed = 0 then Some (off + len) else None)"

text \<open>Among the attributes is a modification time that does not fit a \<open>SystemTime\<close>.\<close>

fun time_overflows :: "bytes \<Rightarrow> nat list \<Rightarrow> nat \<Rightarrow> bool" where
  "time_overflows dat [] off \<longleftrightarrow> False"
| "time_overflows dat (b # bits) off \<longleftrightarrow>
     b = 54 \<and> off + 16 \<le> length dat \<and> u32_at dat off = 0
       \<and> unix_time (u64_at dat (off + 4)) (u32_at dat (off + 12)) = None
     \<or> (case setattr_next dat b off of None \<Rightarrow> False | Some off' \<Rightarrow> time_overflows dat bits off')"

lemma set_of_offset [simp]:
  "sa_offset (set_size_of e pth n a) = sa_offset a" "sa_offset (set_mtime_of pth t a) = sa_offset a"
  by (auto simp: set_size_of_def set_mtime_of_def split: sum.split)

lemma setattr_bit_panics:
  "setattr_bit e pth dat b a = None \<longleftrightarrow>
     b = 54 \<and> sa_offset a + 16 \<le> length dat \<and> u32_at dat (sa_offset a) = 0
       \<and> unix_time (u64_at dat (sa_offset a + 4)) (u32_at dat (sa_offset a + 12)) = None"
  unfolding setattr_bit_def Let_def get_simps
  by (auto simp: rd_simps split: if_splits bind_splits)

lemma setattr_bit_next:
  assumes "setattr_bit e pth dat b a = Some r"
  shows "setattr_next dat b (sa_offset a) = (case r of Inl s \<Rightarrow> None | Inr a' \<Rightarrow> Some (sa_offset a'))"
  using assms unfolding setattr_bit_def setattr_next_def Let_def get_simps
  by (auto simp: rd_simps split: if_splits bind_splits)

lemma setattr_loop_panics:
  "setattr_loop e pth dat bits a = None \<longleftrightarrow> time_overflows dat bits (sa_offset a)"
proof (induction bits arbitrary: a)
  case (Cons b bits)
  show ?case
  proof (cases "setattr_bit e pth dat b a")
    case None
    then show ?thesis by (simp add: setattr_bit_panics [THEN iffD1, OF None])
  next
    case (Some r)
    then have "\<not> (b = 54 \<and> sa_offset a + 16 \<le> length dat \<and> u32_at dat (sa_offset a) = 0
        \<and> unix_time (u64_at dat (sa_offset a + 4)) (u32_at dat (sa_offset a + 12)) = None)"
      using setattr_bit_panics [of e pth dat b a] by auto
    with Some setattr_bit_next [OF Some] Cons.IH show ?thesis
      by (cases r) auto
  qed
qed simp

text \<open>The attribute values of the arguments at \<open>p\<close> contain such a time.\<close>

definition setattr_overflows :: "bytes \<Rightarrow> nat \<Rightarrow> bool" where
  "setattr_overflows request p \<longleftrightarrow>
     setattr_args request p (\<lambda>_. False)
       (\<lambda>bm0 bm1 attr_data _. Some (time_overflows attr_data (bits_of bm0 bm1) 0)) = Some True"

text \<open>The arguments of SETATTR: where they end too early, or the bitmap, the values and the end.\<close>

definition setattr_parts :: "bytes \<Rightarrow> nat \<Rightarrow> nat + u32 \<times> u32 \<times> bytes \<times> nat" where
  "setattr_parts request p =
     (let m = unat (u32_at request (p + 16));
          q = p + 28 + (m - 2) * 4;
          len = unat (u32_at request q)
      in if length request < p + 20 then Inl 16
         else if length request < p + 20 + m * 4 then Inl 20
         else if length request < q + 4 then Inl (q - p)
         else if length request < q + 4 + len then Inl (q + 4 - p)
         else Inr (if m > 0 then u32_at request (p + 20) else 0, if m > 1 then u32_at request (p + 24) else 0,
                take len (drop (q + 4) request), q + 4 + pad4 len))"

lemma setattr_args_eq:
  "setattr_args rq p bad k = (case setattr_parts rq p of Inl n \<Rightarrow> Some (bad n) | Inr (bm0, bm1, dat, pp) \<Rightarrow> k bm0 bm1 dat pp)"
  unfolding setattr_args_def setattr_parts_def get_simps Let_def
  by (auto simp: rd_simps)

lemma op_setattr_panics:
  "op_setattr d e rq p cur st = None \<longleftrightarrow>
     (\<exists>fh. cur = Some fh \<and> \<not> is_read_only d (em st) fh \<and> resolve_st d st fh \<noteq> None \<and> setattr_overflows rq p)"
proof (cases cur)
  case (Some fh)
  show ?thesis
    by (cases "resolve_st d st fh"; cases "setattr_parts rq p")
      (auto simp: op_setattr_def setattr_overflows_def Some setattr_args_eq Let_def setattr_loop_panics
        Option.bind_eq_None_conv)
qed (simp add: op_setattr_def)

section \<open>Requests\<close>

lemma lock_ops_return:
  "returns (op_lock rq p cur st)" "returns (op_lockt rq p cur st)" "returns (op_locku rq p cur st)"
  by (simp_all add: returns_def lock_ops_no_panic)

text \<open>An operation whose handler panics.\<close>

definition op_panics :: "deps \<Rightarrow> u32 \<Rightarrow> bytes \<Rightarrow> nat \<Rightarrow> bytes option \<Rightarrow> nfs4 \<Rightarrow> bool" where
  "op_panics d opcode request p current_fh st \<longleftrightarrow>
     (case current_fh of
        None \<Rightarrow> False
      | Some fh \<Rightarrow>
          opcode = OP_READDIR \<and> p + 20 \<le> length request \<and> length request < p + 24 \<or>
          opcode = OP_SETATTR \<and> \<not> is_read_only d (em st) fh \<and> resolve_st d st fh \<noteq> None
            \<and> setattr_overflows request p)"

lemma dispatch_panics:
  "dispatch_op d e opc rq p cur sv st = None \<longleftrightarrow> op_panics d opc rq p cur st"
proof (cases "opc = OP_READDIR \<or> opc = OP_SETATTR")
  case True
  then have "dispatch_op d e opc rq p cur sv st
      = (if opc = OP_READDIR then op_readdir d e rq p cur st else op_setattr d e rq p cur st)"
    by (auto simp: dispatch_op_def opcode_defs)
  with True show ?thesis
    by (auto simp: op_panics_def op_readdir_panics op_setattr_panics opcode_defs split: option.split)
next
  case False
  then have "returns (dispatch_op d e opc rq p cur sv st)"
    unfolding dispatch_op_def
    by (intro case_no_panic(1) file_ops_no_panic op_read_no_panic op_getattr_no_panic op_verify_no_panic
        session_ops_no_panic lock_ops_return) simp_all
  with False show ?thesis by (cases cur) (simp_all add: returns_def op_panics_def)
qed

text \<open>A point of the loop whose next operation panics.\<close>

definition panics_at :: "deps \<Rightarrow> bytes \<Rightarrow> u32 \<Rightarrow> nat \<times> compound \<times> nfs4 \<Rightarrow> bool" where
  "panics_at d request uid x \<longleftrightarrow>
     (case x of (n, c, st) \<Rightarrow> n > 0 \<and> (case rd32 request (cp_pos c) of
        None \<Rightarrow> False
      | Some opcode \<Rightarrow> \<not> squashed d uid opcode c st \<and> op_panics d opcode request (cp_pos c + 4) (cp_current c) st))"

lemma compound_loop_panics_at:
  "panics_at d rq uid (n, c, st) \<Longrightarrow> compound_loop d es rq uid n c st = None"
  by (cases n) (auto simp: panics_at_def rd32_short dispatch_panics Option.bind_eq_None_conv split: option.splits)

lemma compound_loop_panics:
  "compound_loop d es rq uid n c st = None \<longleftrightarrow>
     (\<exists>rs x. ops_succeed d es rq uid (n, c, st) rs x \<and> panics_at d rq uid x)"
proof
  assume none: "compound_loop d es rq uid n c st = None"
  obtain rs k c1 st1 where run: "ops_succeed d es rq uid (n, c, st) rs (k, c1, st1)"
    and stop: "k = 0 \<or> next_fails d es rq uid (k, c1, st1)"
    using ops_succeed_stop by blast
  from ops_succeed_loop [OF run] none have none1: "compound_loop d es rq uid k c1 st1 = None" by simp
  then obtain m where k: "k = Suc m" by (cases k) auto
  with none1 have "cp_pos c1 + 4 \<le> length rq" by (auto split: if_splits)
  then have rd: "rd32 rq (cp_pos c1) = Some (u32_at rq (cp_pos c1))" by (simp add: rd_simps)
  let ?op = "dispatch_op d (es k) (u32_at rq (cp_pos c1)) rq (cp_pos c1 + 4) (cp_current c1) (cp_saved c1) st1"
  from none1 stop k rd \<open>cp_pos c1 + 4 \<le> length rq\<close> have "\<not> squashed d uid (u32_at rq (cp_pos c1)) c1 st1 \<and> ?op = None"
    by (cases ?op) (auto simp: next_fails_def split: if_splits)
  with rd k have "panics_at d rq uid (k, c1, st1)"
    by (simp add: panics_at_def dispatch_panics)
  with run show "\<exists>rs x. ops_succeed d es rq uid (n, c, st) rs x \<and> panics_at d rq uid x" by blast
next
  assume "\<exists>rs x. ops_succeed d es rq uid (n, c, st) rs x \<and> panics_at d rq uid x"
  then obtain rs k c1 st1 where "ops_succeed d es rq uid (n, c, st) rs (k, c1, st1)" "panics_at d rq uid (k, c1, st1)"
    by (metis prod_cases3)
  with ops_succeed_loop compound_loop_panics_at show "compound_loop d es rq uid n c st = None" by metis
qed

lemma v4_header_returns: "returns (v4_caller_uid rq)" "returns (v4_args_off rq)" "returns (compound_header rq p)"
  unfolding v4_caller_uid_def v4_args_off_def compound_header_def Let_def
  using parse_auth_sys_uid_no_panic by (auto intro!: no_panic simp: returns_def [of "parse_auth_sys_uid _ _"])

text \<open>The COMPOUND a request holds: the caller, the number of operations and where they begin.\<close>

definition compound_of :: "bytes \<Rightarrow> (u32 \<times> nat \<times> nat) option" where
  "compound_of request =
     (if length request < 24 \<or> rd32 request 20 \<noteq> Some 1 then None
      else case (v4_caller_uid request, v4_args_off request) of
        (Some uid, Some (Inr args)) \<Rightarrow>
          (case compound_header request args of
             Some (Inr (tag, opcount, p)) \<Rightarrow> Some (uid, opcount, p)
           | _ \<Rightarrow> None)
      | _ \<Rightarrow> None)"

text \<open>
  C16: an NFSv4 request makes the server panic exactly when it is a COMPOUND that, after
  operations that all succeeded, comes to one of two operations, not refused by root squashing and
  with a current handle: a READDIR whose arguments end after 20 to 23 bytes; or a SETATTR, on a
  handle that resolves and whose export is not read-only, whose attribute values have at the place of
  the modification time one that does not fit a \<open>SystemTime\<close>.  Every other request, whatever its
  bytes, is answered or ignored.
\<close>

theorem v4_panics_exactly:
  "v4_handle_request d es request st = None \<longleftrightarrow>
     (\<exists>uid opcount p rs x. compound_of request = Some (uid, opcount, p)
        \<and> ops_succeed d es request uid (opcount, compound_start p, st) rs x \<and> panics_at d request uid x)"
proof (cases "length request < 24")
  case True
  then show ?thesis by (simp add: v4_handle_request_def compound_of_def)
next
  case False
  obtain uid off where u: "v4_caller_uid request = Some uid" and o: "v4_args_off request = Some off"
    using v4_header_returns(1,2) [of request] by (auto simp: returns_def)
  show ?thesis
  proof (cases off)
    case (Inl x)
    with False u o show ?thesis
      by (cases x) (simp add: v4_handle_request_def compound_of_def rd_simps)
  next
    case (Inr args)
    obtain h where h: "compound_header request args = Some h"
      using v4_header_returns(3) [of request args] by (auto simp: returns_def)
    have "handle_compound d es request args uid st = None \<longleftrightarrow>
        (\<exists>tag opcount p. h = Inr (tag, opcount, p) \<and> compound_loop d es request uid opcount (compound_start p) st = None)"
      by (auto simp: handle_compound_def h split: sum.split bind_splits)
    with False u o Inr h show ?thesis
      by (auto simp: v4_handle_request_def compound_of_def rd_simps compound_loop_panics split: sum.split bind_splits)
  qed
qed

text \<open>PUTROOTFH, then a READDIR with 20 bytes of arguments: 92 bytes from any client.\<close>

definition readdir_attack :: bytes where
  "readdir_attack = root_call (compound_args 2 (be32 OP_PUTROOTFH @ be32 OP_READDIR @ replicate 20 0))"

lemma readdir_attack_facts:
  "v4_handle_request d es readdir_attack st = None \<and> length readdir_attack = 92"
proof -
  let ?ops = "be32 OP_PUTROOTFH @ be32 OP_READDIR @ replicate 20 (0 :: u8)"
  let ?fh = "encode_synthetic_handle (- 1) (bs ''nfs4root'')"
  have len: "length readdir_attack = 92"
    by (simp add: readdir_attack_def root_call_reads(1) compound_args_def)
  have ops: "rd32 readdir_attack 64 = Some OP_PUTROOTFH" "rd32 readdir_attack 68 = Some OP_READDIR"
    using root_call_reads(4) [of "compound_args 2 ?ops" 12] root_call_reads(4) [of "compound_args 2 ?ops" 16]
    by (simp_all add: compound_args_def rd32_def readdir_attack_def)
  have root: "is_root_handle ?fh"
    by (simp add: is_root_handle_def encode_synthetic_handle_def Let_def u64_at_def)
  have "op_readdir d e readdir_attack 72 (Some ?fh) st = None" for e st
    by (simp add: op_readdir_def root op_readdir_root_def readdir_args_def len rd_simps) (simp add: rd32_def len)
  then have "compound_loop d es readdir_attack 0 (Suc (Suc 0)) (compound_start 64) st = None"
    by (simp add: len ops compound_start_def squashed_def dispatch_op_def opcode_defs is_write_opcode_def
        op_putrootfh_def after_op_def)
  then have "handle_compound d es readdir_attack 52 0 st = None"
    using root_call_compound [of 2 d es ?ops st]
    by (simp add: MAX_OPS_PER_COMPOUND_def readdir_attack_def flip: numeral_2_eq_2)
  then show ?thesis
    using len root_call_handled [of d es "compound_args 2 ?ops" st] by (simp add: readdir_attack_def)
qed

theorem v4_panics_exactly_witness:
  "\<exists>uid opcount p rs x. compound_of readdir_attack = Some (uid, opcount, p)
     \<and> ops_succeed sample_deps (\<lambda>_. sample_env) readdir_attack uid (opcount, compound_start p, sample_server default_options) rs x
     \<and> panics_at sample_deps readdir_attack uid x"
  using v4_panics_exactly [of sample_deps "\<lambda>_. sample_env" readdir_attack] readdir_attack_facts by blast

text \<open>
  One COMPOUND stops the server in every state, for every client: the listing of the
  root with four bytes missing.
\<close>

theorem v4_readdir_panics:
  "v4_handle_request d es readdir_attack st = None \<and> length readdir_attack = 92"
  by (rule readdir_attack_facts)

end
