(* ===== verification/Nfs4_Reply.thy ===== *)
theory Nfs4_Reply
  imports Nfs4_Panic
begin

text \<open>
  COMPOUND replies: the results of which operations they hold, in which order, and that every
  reply is a whole number of 32-bit words.
\<close>

section \<open>Results of a COMPOUND\<close>

definition compound_body :: "bytes \<Rightarrow> u32 \<Rightarrow> nat \<Rightarrow> bytes \<Rightarrow> bytes" where
  "compound_body tag status m results = be32 status @ xdr_opaque tag @ be32 (of_nat m) @ results"

text \<open>How the loop ends at a point where the next operation does not succeed.\<close>

lemma compound_loop_next_fails:
  assumes "compound_loop d es rq uid (Suc n) c st = Some (c', st')" and "next_fails d es rq uid (Suc n, c, st)"
  obtains (short) "length rq < cp_pos c + 4" "st' = st"
      "c' = c\<lparr>cp_results := cp_results c @ be32 OP_ILLEGAL @ be32 NFS4ERR_BADXDR, cp_status := NFS4ERR_BADXDR\<rparr>"
  | (refused) opcode where "rd32 rq (cp_pos c) = Some opcode" "squashed d uid opcode c st" "st' = st"
      "c' = c\<lparr>cp_results := cp_results c @ be32 opcode @ be32 NFS4ERR_PERM, cp_count := cp_count c + 1,
              cp_status := NFS4ERR_PERM\<rparr>"
  | (failed) opcode r where "rd32 rq (cp_pos c) = Some opcode" "\<not> squashed d uid opcode c st"
      "dispatch_op d (es (Suc n)) opcode rq (cp_pos c + 4) (cp_current c) (cp_saved c) st = Some (r, st')"
      "op_status r \<noteq> NFS4_OK" "c' = after_op opcode r c"
  using assms(1)
proof (cases rule: compound_loop_SucE)
  case (next_op opcode r st1)
  with assms(2) show ?thesis by (simp add: next_fails_def)
qed (blast intro: that)+

lemma compound_header_count: "compound_header rq p = Some (Inr (tag, n, q)) \<Longrightarrow> n \<le> MAX_OPS_PER_COMPOUND"
  unfolding compound_header_def by (auto simp: get_simps Let_def split: if_splits)

text \<open>
  C19: a COMPOUND performs the operations it asks for in their order, each on the state, the
  position and the handles the one before left, until one does not succeed; and its reply holds the
  results of exactly these.  When the header is good, there are some that succeed (\<open>rs\<close>), after
  which \<open>k\<close> of the \<open>n\<close> requested are left, and then: none is left and the status is OK; or the
  request ends before the next code, which gives a last result that is not counted; or root squashing
  refuses the next one; or the next one fails, and its status is that of the reply.
\<close>

theorem compound_runs_until_failure:
  assumes "handle_compound d es request a uid st = Some (reply, st')"
  shows "case compound_header request a of
      None \<Rightarrow> False
    | Some (Inl status) \<Rightarrow> reply = make_compound_error status \<and> st' = st
    | Some (Inr (tag, n, p)) \<Rightarrow> n \<le> MAX_OPS_PER_COMPOUND \<and>
        (\<exists>rs k c1 st1. ops_succeed d es request uid (n, compound_start p, st) rs (k, c1, st1)
           \<and> n = length rs + k \<and> (let out = concat (map success_bytes rs); m = length rs in
             k = 0 \<and> st' = st1 \<and> reply = compound_body tag NFS4_OK m out
           \<or> k > 0 \<and> length request < cp_pos c1 + 4 \<and> st' = st1
               \<and> reply = compound_body tag NFS4ERR_BADXDR m (out @ be32 OP_ILLEGAL @ be32 NFS4ERR_BADXDR)
           \<or> k > 0 \<and> (\<exists>opcode. rd32 request (cp_pos c1) = Some opcode \<and> squashed d uid opcode c1 st1 \<and> st' = st1
               \<and> reply = compound_body tag NFS4ERR_PERM (m + 1) (out @ be32 opcode @ be32 NFS4ERR_PERM))
           \<or> k > 0 \<and> (\<exists>opcode r. rd32 request (cp_pos c1) = Some opcode \<and> \<not> squashed d uid opcode c1 st1
               \<and> dispatch_op d (es k) opcode request (cp_pos c1 + 4) (cp_current c1) (cp_saved c1) st1 = Some (r, st')
               \<and> op_status r \<noteq> NFS4_OK
               \<and> reply = compound_body tag (op_status r) (m + 1) (out @ be32 opcode @ be32 (op_status r)))))"
proof -
  obtain h where h: "compound_header request a = Some h"
    using assms by (auto simp: handle_compound_def split: bind_splits)
  show ?thesis
  proof (cases h)
    case (Inl s)
    with assms h show ?thesis by (auto simp: handle_compound_def)
  next
    case (Inr x)
    obtain tag n q where x: "x = (tag, n, q)" by (cases x)
    with h Inr have n: "n \<le> MAX_OPS_PER_COMPOUND" by (auto dest: compound_header_count)
    obtain c where c: "compound_loop d es request uid n (compound_start q) st = Some (c, st')"
      and reply: "reply = compound_reply tag c"
      using assms h unfolding Inr x handle_compound_def by (auto split: bind_splits)
    obtain rs k c1 st1 where run: "ops_succeed d es request uid (n, compound_start q, st) rs (k, c1, st1)"
      and stop: "k = 0 \<or> next_fails d es request uid (k, c1, st1)"
      using ops_succeed_stop by blast
    let ?out = "concat (map success_bytes rs)"
    from ops_succeed_facts [OF run] have facts: "n = length rs + k" "cp_results c1 = ?out"
      "cp_count c1 = of_nat (length rs)" "cp_status c1 = NFS4_OK"
      by (simp_all add: compound_start_def)
    from ops_succeed_loop [OF run] c have c1: "compound_loop d es request uid k c1 st1 = Some (c, st')" by simp
    have body: "compound_reply tag c2 = compound_body tag s m res"
      if "cp_status c2 = s" "cp_count c2 = of_nat m" "cp_results c2 = res" for c2 s m res
      using that by (simp add: compound_reply_def compound_body_def)
    have "?thesis" if "k = 0"
      using that c1 run n facts unfolding h Inr x reply
      by (auto simp: Let_def intro!: exI [of _ rs] exI [of _ k] exI [of _ c1] exI [of _ st1] body)
    moreover have "?thesis" if "k = Suc j" for j
    proof -
      from stop that have fails: "next_fails d es request uid (Suc j, c1, st1)" by simp
      have k: "k > 0" using that by simp
      from c1 [unfolded that] fails show ?thesis
      proof (cases rule: compound_loop_next_fails)
        case short
        have "reply = compound_body tag NFS4ERR_BADXDR (length rs) (?out @ be32 OP_ILLEGAL @ be32 NFS4ERR_BADXDR)"
          unfolding reply short(3) by (rule body) (simp_all add: facts)
        with short(1,2) k run n facts(1) show ?thesis unfolding h Inr x Let_def option.case sum.case prod.case by blast
      next
        case (refused opcode)
        have "reply = compound_body tag NFS4ERR_PERM (length rs + 1) (?out @ be32 opcode @ be32 NFS4ERR_PERM)"
          unfolding reply refused(4) by (rule body) (simp_all add: facts)
        with refused(1-3) k run n facts(1) show ?thesis unfolding h Inr x Let_def option.case sum.case prod.case by blast
      next
        case (failed opcode r)
        have "reply = compound_body tag (op_status r) (length rs + 1) (?out @ be32 opcode @ be32 (op_status r))"
          unfolding reply failed(5) by (rule body) (use failed(4) in \<open>simp_all add: after_op_def facts\<close>)
        with failed(1-4) k run n facts(1) show ?thesis
          unfolding h Inr x Let_def option.case sum.case prod.case that by blast
      qed
    qed
    ultimately show ?thesis by (cases k) blast+
  qed
qed

theorem compound_runs_until_failure_witness:
  "\<exists>tag n p rs k c1 st1. compound_header (root_call (compound_args 2 remove_ops)) 52 = Some (Inr (tag, n, p))
     \<and> ops_succeed sample_deps (\<lambda>_. sample_env) (root_call (compound_args 2 remove_ops)) 0
         (n, compound_start p, sample_server default_options) rs (k, c1, st1)
     \<and> n = length rs + k \<and> k > 0"
proof -
  let ?rq = "root_call (compound_args 2 remove_ops)"
  let ?b = "be32 NFS4ERR_PERM @ be32 0 @ be32 2 @ be32 OP_PUTFH @ be32 NFS4_OK @ be32 OP_REMOVE @ be32 NFS4ERR_PERM"
  note run = compound_runs_until_failure [OF root_remove_refused [of "\<lambda>_. sample_env"]]
  have "?b \<noteq> make_compound_error s" for s
    by (auto simp: make_compound_error_def dest: arg_cong [where f = length])
  with run obtain tag n p where h: "compound_header ?rq 52 = Some (Inr (tag, n, p))"
    by (auto split: option.splits sum.splits)
  have "?b \<noteq> compound_body tag NFS4_OK m res" for m res
    by (auto simp: compound_body_def nfs4_status_defs dest: arg_cong [where f = "take 4"])
  with run [unfolded h Let_def option.case sum.case prod.case] h show ?thesis by blast
qed

section \<open>Well-formed states and replies\<close>

text \<open>
  The byte arrays of fixed length in the state, which are lists here: the write verifier and
  the state ids of the locks.
\<close>

definition state_wf :: "nfs4 \<Rightarrow> bool" where
  "state_wf st \<longleftrightarrow> length (writeverf st) = 8
     \<and> (\<forall>k. \<forall>l \<in> set (table_entry st k). length (fl_stateid l) = 12)"

definition wf_kept :: "nfs4 \<Rightarrow> nfs4 \<Rightarrow> bool" where
  "wf_kept st st' \<longleftrightarrow> (state_wf st \<longrightarrow> state_wf st')"

lemma state_wf_new: "state_wf (nfs4_new e s m)"
  by (simp add: state_wf_def nfs4_new_def table_entry_def)

lemma state_wf_same: "writeverf st' = writeverf st \<Longrightarrow> locks st' = locks st \<Longrightarrow> wf_kept st st'"
  by (simp add: wf_kept_def state_wf_def table_entry_def)

lemma frames_wf:
  "file_frame d st st' \<Longrightarrow> wf_kept st st'" "handle_frame d st st' \<Longrightarrow> wf_kept st st'"
  "st = st' \<Longrightarrow> wf_kept st st'" "same_files st st' \<and> locks st' = locks st \<Longrightarrow> wf_kept st st'"
  by (auto intro!: state_wf_same simp: file_frame_def handle_frame_def same_tables_def same_files_def)

lemma wf_kept_put:
  assumes "state_wf st \<Longrightarrow> \<forall>l \<in> set ls. length (fl_stateid l) = 12"
    and "writeverf st' = writeverf st" "locks st' = (locks st)(k \<mapsto> ls)"
  shows "wf_kept st st'"
  using assms by (simp add: wf_kept_def state_wf_def table_entry_def)

lemma locks_entry: "locks st k = Some ls \<Longrightarrow> table_entry st k = ls"
  by (simp add: table_entry_def)

lemma op_lock_wf: "steps_to wf_kept st (op_lock rq p cur st)"
proof (intro steps_toI)
  fix r st' assume "op_lock rq p cur st = Some (r, st')"
  then show "wf_kept st st'"
  proof (cases rule: op_lock_cases)
    case (3 a)
    have "state_wf st \<Longrightarrow> \<forall>l \<in> set (table_entry st (u64_at rq (p + 32)) @ [granted a (lock_counter st)]).
        length (fl_stateid l) = 12" by (simp add: state_wf_def granted_def)
    then show ?thesis unfolding 3(5) by (rule wf_kept_put) simp_all
  qed (simp_all add: wf_kept_def)
qed

lemma op_lockt_wf: "steps_to wf_kept st (op_lockt rq p cur st)"
  by (intro steps_toI) (auto simp: wf_kept_def elim: op_lockt_cases)

lemma op_locku_wf: "steps_to wf_kept st (op_locku rq p cur st)"
proof (intro steps_toI)
  fix r st' assume "op_locku rq p cur st = Some (r, st')"
  then show "wf_kept st st'"
  proof (cases rule: op_locku_cases)
    case (3 a ls sid)
    then have "state_wf st \<Longrightarrow> \<forall>l \<in> set (filter (\<lambda>l. \<not> unlocks a l) ls). length (fl_stateid l) = 12"
      using locks_entry [OF 3(3)] by (auto simp: state_wf_def)
    then show ?thesis unfolding 3(4) by (rule wf_kept_put) simp_all
  qed (simp_all add: wf_kept_def)
qed

lemmas lock_ops_wf = op_lock_wf op_lockt_wf op_locku_wf

lemmas ops_wf =
  query_ops_keep [THEN steps_mono, OF frames_wf(3)]
  op_putfh_frame [THEN steps_mono, OF frames_wf(2)] op_lookup_frame [THEN steps_mono, OF frames_wf(2)]
  op_lookupp_frame [THEN steps_mono, OF frames_wf(2)] op_readdir_frame [THEN steps_mono, OF frames_wf(2)]
  op_close_frame [THEN steps_mono, OF frames_wf(2)]
  op_open_frame [THEN steps_mono, OF frames_wf(1)] update_ops_frame [THEN steps_mono, OF frames_wf(1)]
  op_create_frame [THEN steps_mono, OF frames_wf(1)]
  session_ops_frame [THEN steps_mono, OF frames_wf(4)] lock_ops_wf

lemma dispatch_wf: "steps_to wf_kept st (dispatch_op d e opc rq p cur sv st)"
  unfolding dispatch_op_def by (intro steps_if ops_wf) (simp_all add: wf_kept_def)

text \<open>The body of a success is a whole number of words.\<close>

definition word_body :: "opres \<times> nfs4 \<Rightarrow> bool" where
  "word_body y \<longleftrightarrow> (op_status (fst y) = NFS4_OK \<longrightarrow> 4 dvd length (op_result (fst y)))"

lemma word_body_simps [simp]:
  "word_body (op_done b n, st) \<longleftrightarrow> 4 dvd length b" "word_body (op_moved n fh, st)"
  "word_body (r\<lparr>new_fh := h\<rparr>, st) \<longleftrightarrow> word_body (r, st)"
  "word_body (r\<lparr>new_saved_fh := h\<rparr>, st) \<longleftrightarrow> word_body (r, st)"
  "word_body (op_fail n s, st)"
  by (simp_all add: word_body_def)

lemma wire_lengths:
  "4 dvd length (encode_fh_for_result fh)" "length (open_result i) = 48" "length change_info = 20"
  "length (confirm_verifier e i) = 8" "length (exchange_id_result i s) = 52"
  "length (create_session_result i ca) = 80"
  by (simp_all add: encode_fh_for_result_def open_result_def change_info_def confirm_verifier_def
      exchange_id_result_def create_session_result_def)

lemma file_ops_words:
  "holds word_body (op_putrootfh st)" "holds word_body (op_putfh rq p st)"
  "holds word_body (op_getfh cur st)" "holds word_body (op_savefh cur st)"
  "holds word_body (op_restorefh sv st)" "holds word_body (op_lookup d e rq p cur st)"
  "holds word_body (op_lookupp d e cur st)" "holds word_body (op_access cur st)"
  "holds word_body (op_open d e rq p cur st)" "holds word_body (op_open_confirm rq p cur st)"
  "holds word_body (op_close rq p cur st)" "holds word_body (op_readlink d cur st)"
  "holds word_body (op_delegreturn st)" "holds word_body (op_open_downgrade rq p st)"
  "holds word_body (op_release_lockowner rq p st)"
  unfolding op_putrootfh_def op_putfh_def op_getfh_def op_savefh_def op_restorefh_def op_lookup_def
    op_lookupp_def op_access_def op_open_def op_open_confirm_def op_close_def op_readlink_def
    op_delegreturn_def op_open_downgrade_def op_release_lockowner_def Let_def
  by (auto intro!: holds_rules dest!: slice_length simp: wire_lengths split: option.split sum.split prod.split)

lemma data_ops_words:
  "holds word_body (op_read d rq p cur st)" "state_wf st \<Longrightarrow> holds word_body (op_write d e rq p cur st)"
  "holds word_body (op_remove d rq p cur st)" "holds word_body (op_rename d rq p cur sv st)"
  "holds word_body (op_setattr d e rq p cur st)" "holds word_body (op_create d e rq p cur st)"
  "holds word_body (op_link d e rq p cur sv st)" "holds word_body (op_read_plus d rq p cur st)"
  "holds word_body (op_copy d e rq p cur sv st)" "holds word_body (op_clone d e rq p cur sv st)"
  "state_wf st \<Longrightarrow> holds word_body (op_commit cur st)"
  unfolding op_read_def op_write_def op_remove_def op_rename_def op_setattr_def op_create_def op_link_def
    op_read_plus_def op_copy_def op_clone_def op_commit_def state_wf_def Let_def
  by (auto intro!: holds_rules simp: wire_lengths split: option.split sum.split prod.split)

lemma seek_words: "holds word_body (op_seek d rq p cur st)"
  unfolding op_seek_def
  by (auto intro!: holds_rules simp: seek_result_def Let_def split: option.split)

lemma fattr_words: "build_fattr4 st path bm dt r = Some f \<Longrightarrow> 4 dvd length f"
  by (auto simp: build_fattr4_def Let_def split: if_splits)

lemma attr_ops_words:
  "holds word_body (op_getattr d rq p cur st)" "holds word_body (op_verify d opc rq p cur st)"
  unfolding op_getattr_def op_verify_def Let_def
  by (auto intro!: holds_rules dest: fattr_words split: option.split sum.split)

lemma dir_entry_words: "4 dvd length f \<Longrightarrow> 4 dvd length (dir_entry ck name f)"
  by (simp add: dir_entry_def)

lemma add_entry_words: "4 dvd length f \<Longrightarrow> 4 dvd k + length (dir_entry ck name f) \<longleftrightarrow> 4 dvd k"
  by (simp add: dir_entry_words dvd_add_left_iff)

lemma readdir_loop_words:
  "readdir_loop d e root bm mc ck es res n st = Some (b, k, st') \<Longrightarrow> 4 dvd length res \<Longrightarrow> 4 dvd length b"
  by (induction d e root bm mc ck es res n st rule: readdir_loop.induct)
    (auto simp: Let_def split: bind_splits if_splits dest!: fattr_words simp: add_entry_words)

lemma readdir_root_loop_words: "readdir_root_loop st bm ck i exs = Some b \<Longrightarrow> 4 dvd length b"
  by (induction st bm ck i exs arbitrary: b rule: readdir_root_loop.induct)
    (auto simp: Let_def split: bind_splits if_splits dest!: fattr_words intro!: dvd_add dir_entry_words)

lemma readdir_words: "holds word_body (op_readdir d e rq p cur st)"
  unfolding op_readdir_def op_readdir_root_def Let_def
  by (auto intro!: holds_rules dest!: readdir_loop_words readdir_root_loop_words
      split: option.split sum.split prod.split)

lemma session_ops_words:
  "holds word_body (op_setclientid e rq p st)" "holds word_body (op_setclientid_confirm rq p st)"
  "holds word_body (op_renew st)" "holds word_body (op_secinfo rq p st)"
  "holds word_body (op_exchange_id e rq p st)" "holds word_body (op_create_session e rq p st)"
  "holds word_body (op_destroy_session rq p st)" "holds word_body (op_bind_conn_to_session rq p st)"
  "holds word_body (op_destroy_clientid rq p st)" "holds word_body (op_sequence e rq p st)"
  "holds word_body (op_reclaim_complete st)" "holds word_body (op_secinfo_no_name rq p st)"
  unfolding op_setclientid_def op_setclientid_confirm_def op_renew_def op_secinfo_def op_exchange_id_def
    op_create_session_def op_destroy_session_def op_bind_conn_to_session_def op_destroy_clientid_def
    op_sequence_def op_reclaim_complete_def op_secinfo_no_name_def Let_def
  by (auto intro!: holds_rules dest!: slice_length simp: wire_lengths split: option.split sum.split prod.split)

lemma fold_unlocks_in:
  "fold (\<lambda>l sid. if unlocks a l then Some (fl_stateid l) else sid) ls x = Some s
     \<Longrightarrow> x = Some s \<or> (\<exists>l \<in> set ls. s = fl_stateid l)"
  by (induction ls arbitrary: x) (auto split: if_splits)

lemma lock_ops_words:
  "holds word_body (op_lock rq p cur st)" "holds word_body (op_lockt rq p cur st)"
  "state_wf st \<Longrightarrow> holds word_body (op_locku rq p cur st)"
proof -
  have denied: "word_body (op_denied l n, st')" for l n st'
    by (simp add: word_body_def op_denied_def nfs4_status_defs)
  show "holds word_body (op_lock rq p cur st)"
    unfolding holds_def by (auto elim!: op_lock_cases simp: denied)
  show "holds word_body (op_lockt rq p cur st)"
    unfolding holds_def by (auto elim!: op_lockt_cases simp: denied split: option.split)
  show "holds word_body (op_locku rq p cur st)" if wf: "state_wf st"
  proof -
    have "4 dvd length (be32 1 @ s)"
      if "locks st k = Some ls" "fold (\<lambda>l sid. if unlocks a l then Some (fl_stateid l) else sid) ls None = Some s"
      for a ls s k
      using fold_unlocks_in [OF that(2)] wf locks_entry [OF that(1)] by (auto simp: state_wf_def)
    then show ?thesis unfolding holds_def by (auto elim!: op_locku_cases split: option.split)
  qed
qed

lemma dispatch_words: "state_wf st \<Longrightarrow> holds word_body (dispatch_op d e opc rq p cur sv st)"
  unfolding dispatch_op_def
  by (intro holds_if file_ops_words data_ops_words seek_words attr_ops_words readdir_words
      session_ops_words lock_ops_words) simp_all

text \<open>The loop and the request keep well-formed states and append whole words.\<close>

interpretation typed: op_contract d uid "\<lambda>n. wf_kept" for d uid
proof
  show "wf_kept st st" for st by (simp add: wf_kept_def)
  show "wf_kept a b \<Longrightarrow> wf_kept b c \<Longrightarrow> wf_kept a c" for a b c by (simp add: wf_kept_def)
  show "dispatch_op d e opc rq p (cp_current c) (cp_saved c) st = Some (r, st') \<Longrightarrow> wf_kept st st'"
    for e opc rq p c st r st'
    by (rule steps_toD [OF dispatch_wf])
qed

lemma loop_words:
  "compound_loop d es rq uid n c st = Some (c', st') \<Longrightarrow> state_wf st \<Longrightarrow> 4 dvd length (cp_results c)
     \<Longrightarrow> 4 dvd length (cp_results c')"
proof (induction n arbitrary: c st)
  case (Suc n)
  have op: "4 dvd length (cp_results (after_op opc r c)) \<and> state_wf st1"
    if "dispatch_op d (es (Suc n)) opc rq (cp_pos c + 4) (cp_current c) (cp_saved c) st = Some (r, st1)" for opc r st1
  proof -
    have "word_body (r, st1)" using dispatch_words [OF Suc.prems(2)] that by (auto simp: holds_def)
    moreover have "wf_kept st st1" by (rule steps_toD [OF dispatch_wf that])
    ultimately show ?thesis using Suc.prems(2,3) by (auto simp: after_op_def word_body_def wf_kept_def)
  qed
  from Suc.prems(1) show ?case
  proof (cases rule: compound_loop_SucE)
    case (failed opc r)
    with op [OF failed(3)] show ?thesis by simp
  next
    case (next_op opc r st1)
    with op [OF next_op(3)] Suc.IH [OF next_op(5)] show ?thesis by blast
  qed (use Suc.prems in simp_all)
qed simp

lemma compound_words:
  assumes "handle_compound d es rq p uid st = Some (b, st')" and "state_wf st"
  shows "4 dvd length b"
proof -
  obtain h where h: "compound_header rq p = Some h"
    using assms by (auto simp: handle_compound_def split: bind_splits)
  show ?thesis
  proof (cases h)
    case (Inl s)
    with assms h show ?thesis by (auto simp: handle_compound_def make_compound_error_def)
  next
    case (Inr x)
    obtain tag n q where x: "x = (tag, n, q)" by (cases x)
    obtain c where c: "compound_loop d es rq uid n (compound_start q) st = Some (c, st')"
      and b: "b = compound_reply tag c"
      using assms h unfolding Inr x handle_compound_def by (auto split: bind_splits)
    from loop_words [OF c assms(2)] show ?thesis by (simp add: b compound_reply_def compound_start_def)
  qed
qed

lemma take_u32: "4 \<le> length rq \<Longrightarrow> be32 (u32_at rq 0) = take 4 rq"
  by (simp add: u32_at_def be32_of_be)

text \<open>
  C18: every NFSv4 reply is a well-formed RPC reply: it echoes the transaction id, has the
  message type REPLY and is a whole number of 32-bit words; no reply is sent only to a request
  shorter than an RPC header.  The byte arrays the state keeps for replies stay of their fixed
  length.
\<close>

theorem v4_reply_is_well_formed:
  assumes "state_wf st" and "v4_handle_request d es rq st = Some (b, st')"
  shows "state_wf st' \<and> (case b of
      None \<Rightarrow> length rq < 24 \<and> st' = st
    | Some reply \<Rightarrow> 24 \<le> length rq \<and> take 4 reply = take 4 rq \<and> u32_at reply 4 = RPC_REPLY
        \<and> 24 \<le> length reply \<and> 4 dvd length reply)"
proof (cases "length rq < 24")
  case True
  with assms show ?thesis by (simp add: v4_handle_request_def)
next
  case False
  obtain uid where "v4_caller_uid rq = Some uid"
    using assms(2) False by (auto simp: v4_handle_request_def split: bind_splits)
  from typed.request_steps [OF assms(2) this] have wf: "state_wf st'" using assms(1) by (simp add: wf_kept_def)
  obtain acc body where b: "b = Some (make_rpc_accepted_reply (u32_at rq 0) acc body)" and "4 dvd length body"
  proof -
    have short: "4 dvd length (make_compound_error s)" for s by (simp add: make_compound_error_def)
    have "v4_args_off rq = Some (Inl (acc, body)) \<Longrightarrow> 4 dvd length body" for acc body
      by (auto simp: v4_args_off_def Let_def short split: if_splits bind_splits)
    then show thesis
      using assms(2) False compound_words [OF _ assms(1)] that
      by (fastforce simp: v4_handle_request_def rd_simps split: bind_splits sum.splits if_splits prod.splits)
  qed
  then show ?thesis
    using False wf by (simp add: make_rpc_accepted_reply_def take_u32 u32_at_append)
qed

theorem v4_reply_is_well_formed_witness:
  "\<exists>b st'. v4_handle_request sample_deps (\<lambda>_. sample_env) (root_call (compound_args 2 remove_ops))
      (sample_server default_options) = Some (Some b, st') \<and> state_wf st'
     \<and> take 4 b = take 4 (root_call (compound_args 2 remove_ops)) \<and> 4 dvd length b"
proof -
  let ?st = "sample_server default_options"
  have wf: "state_wf ?st" by (simp add: sample_server_def state_wf_new)
  obtain b where r: "v4_handle_request sample_deps (\<lambda>_. sample_env) (root_call (compound_args 2 remove_ops)) ?st
      = Some (Some b, ?st)"
    unfolding root_call_handled root_remove_refused by simp
  from v4_reply_is_well_formed [OF wf r] r show ?thesis by auto
qed

end
