(* ===== verification/Nfs4_Listing.thy ===== *)
theory Nfs4_Listing
  imports Nfs4_Panic
begin

text \<open>
  READDIR as a client sees it: the entries of a page and how the pages make up the listing.
  The client of this theory parses the reply, passes the cookie of the last entry to the next
  request and stops at the end-of-file flag; it receives the sorted names of the directory,
  each once, after at most as many pages as there are entries.
\<close>

section \<open>Pages\<close>

definition entry_fattr :: "nfs4 \<Rightarrow> u32 list \<Rightarrow> path \<Rightarrow> bytes" where
  "entry_fattr st bm path =
     (case build_fattr4 st (Some path) bm (if path_is_dir (the_fs st) path then NF4DIR else NF4REG) False of
        Some f \<Rightarrow> f | None \<Rightarrow> [])"

text \<open>The encodings of entries with consecutive cookies.\<close>

fun page :: "nfs4 \<Rightarrow> u32 list \<Rightarrow> nat \<Rightarrow> (bytes \<times> path) list \<Rightarrow> bytes" where
  "page st bm ck [] = []"
| "page st bm ck ((name, path) # es) = dir_entry ck name (entry_fattr st bm path) @ page st bm (ck + 1) es"

definition entry_size :: "nfs4 \<Rightarrow> u32 list \<Rightarrow> bytes \<times> path \<Rightarrow> nat" where
  "entry_size st bm e = 16 + pad4 (length (fst e)) + length (entry_fattr st bm (snd e))"

lemma length_dir_entry [simp, len_simps]: "length (dir_entry ck name f) = 16 + pad4 (length name) + length f"
  by (simp add: dir_entry_def)

lemma length_page: "length (page st bm ck es) = sum_list (map (entry_size st bm) es)"
  by (induction st bm ck es rule: page.induct) (simp_all add: entry_size_def)

lemma build_fattr4_cong:
  assumes "the_fs st' = the_fs st"
  shows "build_fattr4 st' p bm dt r = build_fattr4 st p bm dt r"
  by (simp add: build_fattr4_def meta_of_def ext_def assms split: option.split)

lemma entry_fattr_cong:
  assumes "the_fs st' = the_fs st"
  shows "entry_fattr st' bm p = entry_fattr st bm p"
  by (simp add: entry_fattr_def build_fattr4_cong [OF assms] assms)

lemma page_cong:
  assumes "the_fs st' = the_fs st"
  shows "page st' bm ck es = page st bm ck es"
  by (induction es arbitrary: ck) (auto simp: entry_fattr_cong [OF assms])

lemma build_fattr4_entry:
  "build_fattr4 st (Some path) bm (if path_is_dir (the_fs st) path then NF4DIR else NF4REG) False
     = Some (entry_fattr st bm path)"
  using build_fattr4_total [of st "Some path" bm "if path_is_dir (the_fs st) path then NF4DIR else NF4REG" False]
  by (auto simp: entry_fattr_def returns_def)

text \<open>What registering the entries of a page keeps.\<close>

definition registers :: "nat \<Rightarrow> nfs4 \<Rightarrow> nfs4 \<Rightarrow> bool" where
  "registers n st st' \<longleftrightarrow> the_fs st' = the_fs st \<and> (em_inv (em st) \<longrightarrow> n < em_room (em st) \<longrightarrow>
     em_inv (em st') \<and> em_room (em st) \<le> em_room (em st') + n \<and> fh_map (em st) \<subseteq>\<^sub>m fh_map (em st')
     \<and> fh_hmac_key (em st') = fh_hmac_key (em st))"

lemma registers_refl [simp]: "registers 0 st st"
  by (simp add: registers_def)

lemma registers_trans:
  assumes "registers m st1 st2" and "registers n st2 st3"
  shows "registers (m + n) st1 st3"
  using assms unfolding registers_def by (auto intro: map_le_trans)

lemma registers_new: "registers 1 st (snd (new_fh_st d e path root st))"
proof -
  obtain h m where g: "get_or_create_fh d e path root (em st) = (h, m)" by fastforce
  then show ?thesis
    using get_or_create_inv [OF _ _ g] get_or_create_keeps [OF _ g]
    by (auto simp: registers_def new_fh_st_def)
qed

lemma readdir_loop_page:
  assumes "readdir_loop d e root bm mc ck es res n st = Some (res', n', st')"
  shows "\<exists>k \<le> length es. n' = n + k \<and> res' = res @ page st bm ck (take k es) \<and> registers (k + 1) st st'
    \<and> (k < length es \<longrightarrow> mc < 16 + (length res' - 8) + entry_size st bm (es ! k))
    \<and> (0 < k \<longrightarrow> 16 + (length res' - 8) \<le> mc)"
  using assms
proof (induction es arbitrary: ck res n st)
  case Nil
  then show ?case by (auto simp: registers_def)
next
  case (Cons a es)
  obtain name path where a: "a = (name, path)" by (cases a)
  define st1 where "st1 = snd (new_fh_st d e path root st)"
  have r1: "registers 1 st st1" unfolding st1_def by (rule registers_new)
  then have fs1: "the_fs st1 = the_fs st" by (simp add: registers_def)
  let ?f = "entry_fattr st bm path"
  let ?total = "8 + (length res - 8) + (4 + 8 + 4 + pad4 (length name) + length ?f) + 4 + 4"
  have step: "(if ?total > mc then Some (res, n, st1)
      else readdir_loop d e root bm mc (ck + 1) es (res @ dir_entry ck name ?f) (n + 1) st1) = Some (res', n', st')"
    using Cons.prems
    by (simp add: a st1_def [symmetric] build_fattr4_entry entry_fattr_cong [OF fs1] cong: if_cong)
  show ?case
  proof (cases "?total > mc")
    case True
    with step have "res' = res" "n' = n" "st' = st1" by simp_all
    with True r1 show ?thesis by (intro exI [of _ 0]) (simp add: a entry_size_def)
  next
    case False
    with step have "readdir_loop d e root bm mc (ck + 1) es (res @ dir_entry ck name ?f) (n + 1) st1
        = Some (res', n', st')" by simp
    from Cons.IH [OF this] obtain k where k: "k \<le> length es" "n' = n + 1 + k"
      "res' = (res @ dir_entry ck name ?f) @ page st1 bm (ck + 1) (take k es)" "registers (k + 1) st1 st'"
      "k < length es \<longrightarrow> mc < 16 + (length res' - 8) + entry_size st1 bm (es ! k)"
      "0 < k \<longrightarrow> 16 + (length res' - 8) \<le> mc"
      by blast
    have "16 + (length res' - 8) \<le> mc"
    proof (cases "k = 0")
      case True
      then show ?thesis using \<open>\<not> ?total > mc\<close> k(3) by simp
    qed (use k(6) in simp)
    moreover note k
    moreover have "registers (Suc k + 1) st st'" using registers_trans [OF r1 k(4)] by simp
    ultimately show ?thesis
      by (intro exI [of _ "Suc k"])
        (simp add: a page_cong [OF fs1] entry_size_def entry_fattr_cong [OF fs1])
  qed
qed

text \<open>The arguments of READDIR: cookie, verifier, \<open>dircount\<close>, \<open>maxcount\<close> and two bitmap words.\<close>

definition readdir_request :: "u32 list \<Rightarrow> u32 \<Rightarrow> u64 \<Rightarrow> bytes" where
  "readdir_request bm maxcount cookie = be64 cookie @ replicate 8 0 @ be32 0 @ be32 maxcount
     @ be32 2 @ be32 (word_of bm 0) @ be32 (word_of bm 1)"

lemma readdir_request_reads:
  "length (readdir_request bm mc ck) = 36" "rd64 (readdir_request bm mc ck) 0 = Some ck"
  "slice (readdir_request bm mc ck) 8 16 = Some (replicate 8 0)"
  "rd32 (readdir_request bm mc ck) 16 = Some 0" "rd32 (readdir_request bm mc ck) 20 = Some mc"
  "u32_at (readdir_request bm mc ck) 24 = 2"
  "u32_at (readdir_request bm mc ck) 28 = word_of bm 0" "u32_at (readdir_request bm mc ck) 32 = word_of bm 1"
  by (simp_all add: readdir_request_def rd_simps u32_at_append u64_at_append slice_def)

lemma readdir_request_bitmap:
  "bitmap_args (readdir_request bm mc ck) 2 28 = Some (Inr ([word_of bm 0, word_of bm 1], 36))"
  by (simp add: numeral_2_eq_2 get_simps readdir_request_reads)

text \<open>A page: the longest run of entries from the cookie that fits \<open>maxcount\<close>, and the end flag.\<close>

lemma readdir_page:
  assumes "resolve_st d st fh = Some dir" and "\<not> is_root_handle fh"
    and "fs_read_dir (the_fs st) (ext st dir) = Inr L" and "names = sort_key fst L"
    and "s = start_index cookie" and "b = [word_of bm 0, word_of bm 1]"
  shows "\<exists>k st'. op_readdir d e (readdir_request bm mc cookie) 0 (Some fh) st = Some (op_done
        (replicate 8 1 @ page st b (COOKIE_BASE + s) (take k (drop s names)) @ [0, 0, 0, 0]
          @ be32 (u32_bool (length L \<le> s + k))) 36, st')
     \<and> k \<le> length L - s \<and> registers (k + 1) st st'
     \<and> (s + k < length L \<longrightarrow>
         unat mc < 16 + length (page st b (COOKIE_BASE + s) (take k (drop s names))) + entry_size st b (names ! (s + k)))
     \<and> (0 < k \<longrightarrow> 16 + length (page st b (COOKIE_BASE + s) (take k (drop s names))) \<le> unat mc)"
proof -
  let ?root = "root_or d st fh dir" and ?es = "drop s names"
  have len: "length names = length L" by (simp add: assms(4))
  obtain res' n' st' where loop: "readdir_loop d e ?root b (unat mc) (COOKIE_BASE + s) ?es (replicate 8 1) 0 st
      = Some (res', n', st')"
    using readdir_loop_no_panic by (metis returns_def surj_pair option.exhaust)
  from readdir_loop_page [OF this] obtain k where k: "k \<le> length ?es" "n' = k"
    "res' = replicate 8 1 @ page st b (COOKIE_BASE + s) (take k ?es)" "registers (k + 1) st st'"
    "k < length ?es \<longrightarrow> unat mc < 16 + (length res' - 8) + entry_size st b (?es ! k)"
    "0 < k \<longrightarrow> 16 + (length res' - 8) \<le> unat mc" by auto
  have "drop (min s (length names)) names = ?es" by (simp add: min_def)
  then have "op_readdir d e (readdir_request bm mc cookie) 0 (Some fh) st
      = Some (op_done (res' @ [0, 0, 0, 0] @ be32 (u32_bool (length L \<le> s + n'))) 36, st')"
    using assms loop
    by (simp add: op_readdir_def readdir_args_def readdir_request_reads readdir_request_bitmap get_simps Let_def len)
  with k len show ?thesis by (intro exI [of _ k] exI [of _ st']) auto
qed

section \<open>The client\<close>

text \<open>Parsers of the reply: the rest after an \<open>opaque<>\<close>, after a \<open>fattr4\<close>, and the entries.\<close>

definition parse_opaque :: "bytes \<Rightarrow> bytes \<times> bytes" where
  "parse_opaque b = (let n = unat (u32_at b 0) in (take n (drop 4 b), drop (4 + pad4 n) b))"

definition skip_fattr :: "bytes \<Rightarrow> bytes" where
  "skip_fattr b = snd (parse_opaque (drop (4 + 4 * unat (u32_at b 0)) b))"

fun parse_entries :: "nat \<Rightarrow> bytes \<Rightarrow> (u64 \<times> bytes) list \<times> bytes" where
  "parse_entries 0 b = ([], b)"
| "parse_entries (Suc n) b =
     (if u32_at b 0 = 1 then
        (let (name, r) = parse_opaque (drop 12 b); (es, r') = parse_entries n (skip_fattr r)
         in ((u64_at b 4, name) # es, r'))
      else ([], drop 4 b))"

definition parse_listing :: "bytes \<Rightarrow> (u64 \<times> bytes) list \<times> bool" where
  "parse_listing b = (let (es, r) = parse_entries (length b) (drop 8 b) in (es, u32_at r 0 \<noteq> 0))"

text \<open>The names a client gets in at most \<open>n\<close> pages; \<open>None\<close> is a failure or no end after \<open>n\<close> pages.\<close>

fun list_dir :: "deps \<Rightarrow> env \<Rightarrow> bytes \<Rightarrow> u32 list \<Rightarrow> u32 \<Rightarrow> nat \<Rightarrow> u64 \<Rightarrow> nfs4 \<Rightarrow> (bytes list \<times> nfs4) option" where
  "list_dir d e fh bm mc 0 cookie st = None"
| "list_dir d e fh bm mc (Suc n) cookie st = do {
     (r, st1) \<leftarrow> op_readdir d e (readdir_request bm mc cookie) 0 (Some fh) st;
     let (es, eof) = parse_listing (op_result r);
     if op_status r \<noteq> NFS4_OK then None
     else if eof then Some (map snd es, st1)
     else do {
       (names, st2) \<leftarrow> list_dir d e fh bm mc n (if es = [] then cookie else fst (last es)) st1;
       Some (map snd es @ names, st2)
     }
   }"

lemma parse_opaque_xdr:
  "length x < 2 ^ 32 \<Longrightarrow> parse_opaque (xdr_opaque x @ r) = (x, r)"
  by (simp add: parse_opaque_def xdr_opaque_def unat_of_nat take_bit_nat_eq_self)

lemma skip_fattr_entry:
  assumes "length (entry_fattr st bm path) < 2 ^ 32"
  shows "skip_fattr (entry_fattr st bm path @ r) = r"
proof -
  obtain w0 w1 v where f: "entry_fattr st bm path = be32 2 @ be32 w0 @ be32 w1 @ xdr_opaque v"
    using build_fattr4_entry [of st path bm] unfolding build_fattr4_def Let_def
    by (metis option.distinct(1) option.inject)
  have "pad4 (length v) < 2 ^ 32" using assms by (simp add: f)
  then have "length v < 2 ^ 32" by (rule le_less_trans [OF pad4_ge])
  then show ?thesis by (simp add: skip_fattr_def f parse_opaque_xdr)
qed

definition small_entry :: "nfs4 \<Rightarrow> u32 list \<Rightarrow> bytes \<times> path \<Rightarrow> bool" where
  "small_entry st bm e \<longleftrightarrow> length (fst e) < 2 ^ 32 \<and> length (entry_fattr st bm (snd e)) < 2 ^ 32"

lemma small_entryI: "entry_size st bm x < 2 ^ 32 \<Longrightarrow> small_entry st bm x"
  unfolding small_entry_def entry_size_def using pad4_ge [of "length (fst x)"] by linarith

lemma parse_entries_page:
  assumes "length es < n" and "\<forall>x \<in> set es. small_entry st bm x"
  shows "parse_entries n (page st bm ck es @ [0, 0, 0, 0] @ r)
    = (zip (map of_nat [ck..<ck + length es]) (map fst es), r)"
  using assms
proof (induction es arbitrary: n ck)
  case Nil
  then obtain m where "n = Suc m" by (cases n) auto
  moreover have "u32_at ([0, 0, 0, 0] @ r) 0 = 0" by (simp add: u32_at_def of_be_def)
  ultimately show ?case by simp
next
  case (Cons a es)
  obtain name path where a: "a = (name, path)" by (cases a)
  obtain m where n: "n = Suc m" using Cons.prems(1) by (cases n) auto
  define rest where "rest = page st bm (ck + 1) es @ [0, 0, 0, 0] @ r"
  let ?b = "be32 1 @ be64 (of_nat ck) @ xdr_opaque name @ entry_fattr st bm path @ rest"
  have one: "[0, 0, 0, 1] = be32 1" by code_simp
  have b: "page st bm ck (a # es) @ [0, 0, 0, 0] @ r = ?b" by (simp add: a dir_entry_def one rest_def)
  have small: "length name < 2 ^ 32" "length (entry_fattr st bm path) < 2 ^ 32"
    using Cons.prems(2) by (simp_all add: a small_entry_def)
  have reads: "u32_at ?b 0 = 1" "u64_at ?b 4 = of_nat ck"
    "drop 12 ?b = xdr_opaque name @ entry_fattr st bm path @ rest"
    by (simp_all add: u64_at_append)
  have tail: "parse_entries m rest = (zip (map of_nat [ck + 1..<ck + 1 + length es]) (map fst es), r)"
    unfolding rest_def using Cons.IH [of m "ck + 1"] Cons.prems n by simp
  have "parse_entries n ?b = ((of_nat ck, name) # zip (map of_nat [ck + 1..<ck + 1 + length es]) (map fst es), r)"
    unfolding n parse_entries.simps(2) reads parse_opaque_xdr [OF small(1)]
    by (simp add: skip_fattr_entry [OF small(2)] tail del: upt_Suc)
  moreover have "[ck..<ck + length (a # es)] = ck # [ck + 1..<ck + 1 + length es]"
    by (simp add: upt_conv_Cons del: upt_Suc)
  ultimately show ?case unfolding b by (simp add: a)
qed

section \<open>The whole listing\<close>

lemma word_of_pair [simp]: "word_of [x, y] 0 = x" "word_of [x, y] (Suc 0) = y"
  by (simp_all add: word_of_def)

lemma start_index_last:
  assumes "0 < m" and "m < 2 ^ 63"
  shows "start_index (of_nat (COOKIE_BASE + m - 1)) = m"
proof -
  define k where "k = COOKIE_BASE + m - 1"
  have "k < 2 ^ 64" "3 \<le> k" using assms by (simp_all add: k_def COOKIE_BASE_def)
  then have u: "unat (of_nat k :: u64) = k" by (simp add: unat_of_nat take_bit_nat_eq_self)
  with \<open>3 \<le> k\<close> have "(of_nat k :: u64) \<noteq> 0" by (metis unat_0 not_numeral_le_zero)
  with u assms(1) show ?thesis by (simp add: k_def [symmetric] start_index_def) (simp add: k_def COOKIE_BASE_def)
qed

lemma resolve_registered:
  assumes "registers n st st'" and "em_inv (em st)" and "n < em_room (em st)"
    and "resolve_st d st fh = Some dir"
  shows "resolve_st d st' fh = Some dir"
proof -
  have keep: "the_fs st' = the_fs st" "fh_map (em st) \<subseteq>\<^sub>m fh_map (em st')" "fh_hmac_key (em st') = fh_hmac_key (em st)"
    using assms(1-3) by (simp_all add: registers_def)
  have v: "verify_and_decode_fhid d (em st') fh = verify_and_decode_fhid d (em st) fh"
    by (simp add: verify_and_decode_fhid_def verify_fh_mac_def compute_fh_mac_def keep(3))
  obtain i en where i: "verify_and_decode_fhid d (em st) fh = Some i" "i \<noteq> 0" "fh_map (em st) i = Some en"
    using resolve_fh_entry [OF assms(4)] by metis
  moreover from this(3) have "fh_map (em st') i = Some en" using keep(2) by (auto simp: map_le_def dom_def)
  ultimately show ?thesis using assms(4) by (simp add: resolve_fh_def v keep(1) cong: option.case_cong)
qed

lemma map_fst_insort: "map fst (insort_key fst x xs) = insort (fst x) (map fst xs)"
  by (induction xs) simp_all

lemma sort_key_fst: "map fst (sort_key fst xs) = sort (map fst xs)"
  by (induction xs) (simp_all add: map_fst_insort)

lemma length_le_page: "length es \<le> length (page st bm ck es)"
  by (induction st bm ck es rule: page.induct) simp_all

lemma parse_listing_page:
  assumes "\<forall>x \<in> set es. small_entry st bm x"
  shows "parse_listing (replicate 8 1 @ page st bm ck es @ [0, 0, 0, 0] @ be32 (u32_bool f))
    = (zip (map of_nat [ck..<ck + length es]) (map fst es), f)"
proof -
  have "length es < length (replicate 8 1 @ page st bm ck es @ [0, 0, 0, 0] @ be32 (u32_bool f))"
    using length_le_page [of es st bm ck] by simp
  from parse_entries_page [OF this assms] show ?thesis by (simp add: parse_listing_def u32_bool_def)
qed

lemma last_cookie:
  assumes "0 < k" and "length ns = k"
  shows "fst (last (zip (map of_nat [ck..<ck + k]) ns)) = of_nat (ck + k - 1)"
proof -
  have "[ck..<ck + k] \<noteq> []" using assms(1) by simp
  then show ?thesis using assms by (subst last_zip) (auto simp: last_map last_upt simp del: upt_eq_Nil_conv)
qed

text \<open>A directory whose entries each fit in a reply.\<close>

definition listing_of :: "deps \<Rightarrow> nfs4 \<Rightarrow> bytes \<Rightarrow> u32 list \<Rightarrow> u32 \<Rightarrow> (bytes \<times> path) list \<Rightarrow> bool" where
  "listing_of d st fh bm mc L \<longleftrightarrow> \<not> is_root_handle fh
     \<and> (\<exists>dir. resolve_st d st fh = Some dir \<and> fs_read_dir (the_fs st) (ext st dir) = Inr L)
     \<and> (\<forall>x \<in> set L. 16 + entry_size st [word_of bm 0, word_of bm 1] x \<le> unat mc) \<and> length L < 2 ^ 63"

lemma listing_of_registered:
  assumes "listing_of d st fh bm mc L" and "registers n st st'" and "em_inv (em st)" and "n < em_room (em st)"
  shows "listing_of d st' fh bm mc L"
proof -
  have fs: "the_fs st' = the_fs st" using assms(2) by (simp add: registers_def)
  show ?thesis
    using assms(1) resolve_registered [OF assms(2-4)]
    by (auto simp: listing_of_def fs ext_def entry_size_def entry_fattr_cong [OF fs])
qed

text \<open>One page of the client: the entries from \<open>s\<close> on, at least one unless the list ends.\<close>

lemma list_dir_page:
  assumes "listing_of d st fh bm mc L" and "names = sort_key fst L" and "s = start_index cookie" and "s \<le> length L"
  obtains k r st1 where
    "op_readdir d e (readdir_request bm mc cookie) 0 (Some fh) st = Some (r, st1)" "op_status r = NFS4_OK"
    "parse_listing (op_result r) = (zip (map of_nat [COOKIE_BASE + s..<COOKIE_BASE + (s + k)])
        (map fst (take k (drop s names))), length L \<le> s + k)"
    "s + k \<le> length L" "registers (k + 1) st st1" "s < length L \<longrightarrow> 0 < k"
proof -
  let ?b = "[word_of bm 0, word_of bm 1]"
  from assms(1) obtain dir where dir: "resolve_st d st fh = Some dir" "\<not> is_root_handle fh"
    "fs_read_dir (the_fs st) (ext st dir) = Inr L"
    and fits: "\<forall>x \<in> set L. 16 + entry_size st ?b x \<le> unat mc"
    by (auto simp: listing_of_def)
  from readdir_page [OF dir assms(2,3) refl, where e = e and mc = mc] obtain k st1 where
    page: "op_readdir d e (readdir_request bm mc cookie) 0 (Some fh) st = Some (op_done
        (replicate 8 1 @ page st ?b (COOKIE_BASE + s) (take k (drop s names)) @ [0, 0, 0, 0]
          @ be32 (u32_bool (length L \<le> s + k))) 36, st1)"
    and k: "k \<le> length L - s" and reg: "registers (k + 1) st st1"
    and stop: "s + k < length L \<longrightarrow>
         unat mc < 16 + length (page st ?b (COOKIE_BASE + s) (take k (drop s names))) + entry_size st ?b (names ! (s + k))"
    by blast
  have names: "length names = length L" "set names = set L" by (simp_all add: assms(2))
  have "small_entry st ?b x" if "x \<in> set (take k (drop s names))" for x
  proof -
    have "entry_size st ?b x < 2 ^ 32"
    proof -
      have "x \<in> set L" using that names(2) by (auto dest: in_set_takeD in_set_dropD)
      with fits have "entry_size st ?b x \<le> unat mc" by fastforce
      also have "unat mc < 2 ^ 32" using unsigned_less [of mc] by simp
      finally show ?thesis .
    qed
    then show ?thesis by (rule small_entryI)
  qed
  then have small: "\<forall>x \<in> set (take k (drop s names)). small_entry st ?b x" by blast
  have lk: "length (take k (drop s names)) = k" using k by (simp add: names(1))
  show thesis
  proof (rule that [OF page])
    show "parse_listing (op_result (op_done (replicate 8 1 @ page st ?b (COOKIE_BASE + s) (take k (drop s names))
          @ [0, 0, 0, 0] @ be32 (u32_bool (length L \<le> s + k))) 36))
        = (zip (map of_nat [COOKIE_BASE + s..<COOKIE_BASE + (s + k)]) (map fst (take k (drop s names))), length L \<le> s + k)"
      unfolding opres_sel parse_listing_page [OF small] lk by (simp only: add.assoc)
    show "s < length L \<longrightarrow> 0 < k"
    proof (intro impI, rule ccontr)
      assume s: "s < length L" and "\<not> 0 < k"
      with stop have "unat mc < 16 + entry_size st ?b (names ! s)" by simp
      moreover have "names ! s \<in> set L" using s names by (metis nth_mem)
      ultimately show False using fits by fastforce
    qed
  qed (use k reg assms(4) in simp_all)
qed

lemma list_dir_from:
  assumes "listing_of d st fh bm mc L" and "names = sort_key fst L" and "s = start_index cookie"
    and "s \<le> length L" and "length L - s < n" and "em_inv (em st)" and "2 * (length L - s) + 1 < em_room (em st)"
  shows "\<exists>st'. list_dir d e fh bm mc n cookie st = Some (map fst (drop s names), st') \<and> the_fs st' = the_fs st"
  using assms
proof (induction n arbitrary: s cookie st)
  case (Suc n)
  have len: "length names = length L" by (simp add: Suc.prems(2))
  obtain k r st1 where
    page: "op_readdir d e (readdir_request bm mc cookie) 0 (Some fh) st = Some (r, st1)" "op_status r = NFS4_OK"
      "parse_listing (op_result r) = (zip (map of_nat [COOKIE_BASE + s..<COOKIE_BASE + (s + k)])
        (map fst (take k (drop s names))), length L \<le> s + k)"
    and k: "s + k \<le> length L" "s < length L \<longrightarrow> 0 < k" and reg: "registers (k + 1) st st1"
    by (rule list_dir_page [OF Suc.prems(1-4)])
  have fs: "the_fs st1 = the_fs st" using reg by (simp add: registers_def)
  have got: "map snd (zip (map (of_nat :: nat \<Rightarrow> u64) [COOKIE_BASE + s..<COOKIE_BASE + (s + k)])
      (map fst (take k (drop s names)))) = map fst (take k (drop s names))"
    using k len by simp
  show ?case
  proof (cases "length L \<le> s + k")
    case True
    then have "take k (drop s names) = drop s names" using len by simp
    then show ?thesis using True page got fs by simp
  next
    case False
    then have pos: "0 < k" using k by auto
    let ?es = "zip (map (of_nat :: nat \<Rightarrow> u64) [COOKIE_BASE + s..<COOKIE_BASE + (s + k)]) (map fst (take k (drop s names)))"
    have "fst (last ?es) = of_nat (COOKIE_BASE + (s + k) - 1)"
      unfolding add.assoc [symmetric] by (rule last_cookie) (use pos k len in simp_all)
    moreover have "?es \<noteq> []"
    proof -
      have "length ?es = k" using k len by simp
      then show ?thesis using pos by (metis less_not_refl list.size(3))
    qed
    moreover have "s + k = start_index (of_nat (COOKIE_BASE + (s + k) - 1))"
      using start_index_last [of "s + k"] pos False Suc.prems(1) by (simp add: listing_of_def)
    moreover have room: "k + 1 < em_room (em st)" using Suc.prems(7) k pos by linarith
    moreover have em1: "em_inv (em st1)" "em_room (em st) \<le> em_room (em st1) + (k + 1)"
      using reg Suc.prems(6) room by (simp_all add: registers_def)
    moreover have "2 * (length L - (s + k)) + 1 < em_room (em st1)"
      using em1(2) Suc.prems(7) k pos by linarith
    ultimately obtain st' where
      "list_dir d e fh bm mc n (if ?es = [] then cookie else fst (last ?es)) st1 = Some (map fst (drop (s + k) names), st')"
      "the_fs st' = the_fs st1"
      using Suc.IH [OF listing_of_registered [OF Suc.prems(1) reg Suc.prems(6) room] Suc.prems(2), of "s + k"]
        Suc.prems(5) k pos by fastforce
    moreover have "take k (drop s names) @ drop (s + k) names = drop s names"
      by (metis append_take_drop_id drop_drop add.commute)
    then have "map fst (take k (drop s names)) @ map fst (drop (s + k) names) = map fst (drop s names)"
      by (metis map_append)
    ultimately show ?thesis using False page got fs by simp
  qed
qed simp

text \<open>
  C23: a client that follows the cookies of READDIR terminates: when every entry of the directory
  fits in a reply of \<open>maxcount\<close> bytes (\<open>listing_of\<close>) and the handle counter has room for two
  registrations of each, it has received the sorted names of the directory, each once, after at most
  one page more than there are entries, and the listing changes no file.  Without the first
  condition it need not end: see \<open>readdir_too_small\<close>.
\<close>

theorem readdir_lists_directory:
  assumes "listing_of d st fh bm mc L" and "em_inv (em st)" and "2 * length L + 1 < em_room (em st)"
  shows "\<exists>st'. list_dir d e fh bm mc (length L + 1) 0 st = Some (sort (map fst L), st') \<and> the_fs st' = the_fs st"
  using list_dir_from [OF assms(1) refl, of 0 0 "length L + 1"] assms(2,3)
  by (simp add: start_index_def sort_key_fst)

text \<open>
  READDIR with a \<open>maxcount\<close> too small for the next entry answers OK with no entry and the
  end flag unset instead of an error, so a client repeats the same request for ever.
\<close>

theorem readdir_too_small:
  assumes "resolve_st d st fh = Some dir" and "\<not> is_root_handle fh"
    and "fs_read_dir (the_fs st) (ext st dir) = Inr L" and "start_index cookie < length L"
    and "unat mc < 16 + entry_size st [word_of bm 0, word_of bm 1] (sort_key fst L ! start_index cookie)"
  shows "\<exists>r st'. op_readdir d e (readdir_request bm mc cookie) 0 (Some fh) st = Some (r, st')
    \<and> op_status r = NFS4_OK \<and> parse_listing (op_result r) = ([], False)"
proof -
  let ?b = "[word_of bm 0, word_of bm 1]" and ?s = "start_index cookie" and ?names = "sort_key fst L"
  from readdir_page [OF assms(1-3) refl refl refl, where e = e and mc = mc and cookie = cookie and bm = bm]
  obtain k st' where page: "op_readdir d e (readdir_request bm mc cookie) 0 (Some fh) st = Some (op_done
        (replicate 8 1 @ page st ?b (COOKIE_BASE + ?s) (take k (drop ?s ?names)) @ [0, 0, 0, 0]
          @ be32 (u32_bool (length L \<le> ?s + k))) 36, st')"
    and fits: "0 < k \<longrightarrow> 16 + length (page st ?b (COOKIE_BASE + ?s) (take k (drop ?s ?names))) \<le> unat mc"
    by blast
  have "drop ?s ?names = ?names ! ?s # drop (Suc ?s) ?names" using assms(4) by (simp add: Cons_nth_drop_Suc)
  then have k: "k = 0" using fits assms(5) by (cases k) (simp_all add: length_page)
  have "parse_listing (op_result (op_done (replicate 8 1 @ page st ?b (COOKIE_BASE + ?s) [] @ [0, 0, 0, 0]
      @ be32 (u32_bool (length L \<le> ?s))) 36)) = ([], False)"
    unfolding opres_sel using assms(4) by (subst parse_listing_page) simp_all
  with page k show ?thesis by simp
qed

text \<open>The exported directory of the sample server.\<close>

lemma sample_listing:
  "fs_read_dir sample_fs (to_extended_path None sample_dir)
     = Inr [(bs ''f'', path_join (to_extended_path None sample_dir) (bs ''f''))]"
  unfolding sample_dir_def by code_simp

lemma sample_not_root: "\<not> is_root_handle sample_dir_fh"
  by (simp add: is_root_handle_def sample_dir_fh_def encode_handle_def Let_def)

lemma no_attrs_size: "entry_size st [0, 0] (n, p) = 32 + pad4 (length n)"
  by (simp add: entry_size_def entry_fattr_def build_fattr4_def attr_vals0_def attr_vals1_def attr_if_def)

theorem readdir_lists_directory_witness:
  "\<exists>st'. list_dir sample_deps sample_env sample_dir_fh [] 512 2 0 (sample_server default_options)
      = Some ([bs ''f''], st') \<and> the_fs st' = sample_fs"
proof -
  let ?st = "sample_server default_options" and ?L = "[(bs ''f'', path_join (to_extended_path None sample_dir) (bs ''f''))]"
  have "listing_of sample_deps ?st sample_dir_fh [] 512 ?L"
    by (simp add: listing_of_def sample_not_root sample_handles sample_listing word_of_def no_attrs_size pad4_def)
  moreover have "2 * length ?L + 1 < em_room (em ?st)"
    by (simp add: em_room_def sample_store_def add_handle_def)
  moreover have "em_inv (em ?st)" by (simp add: sample_em_inv_store)
  moreover have "length ?L + 1 = 2" "sort (map fst ?L) = [bs ''f'']" by simp_all
  ultimately show ?thesis
    using readdir_lists_directory [of sample_deps ?st sample_dir_fh "[]" 512 ?L sample_env]
    by (simp add: numeral_2_eq_2 del: list_dir.simps)
qed

theorem readdir_too_small_witness:
  "\<exists>r st'. op_readdir sample_deps sample_env (readdir_request [] 32 0) 0 (Some sample_dir_fh)
      (sample_server default_options) = Some (r, st')
    \<and> op_status r = NFS4_OK \<and> parse_listing (op_result r) = ([], False)"
proof -
  let ?st = "sample_server default_options" and ?L = "[(bs ''f'', path_join (to_extended_path None sample_dir) (bs ''f''))]"
  have "resolve_st sample_deps ?st sample_dir_fh = Some sample_dir"
    "fs_read_dir (the_fs ?st) (ext ?st sample_dir) = Inr ?L"
    by (simp_all add: sample_handles sample_listing)
  from readdir_too_small [OF this(1) sample_not_root this(2), of 0 32 "[]" sample_env] show ?thesis
    by (simp add: start_index_def word_of_def no_attrs_size)
qed

end
