(* ===== verification/Record_Stream.thy ===== *)
theory Record_Stream
  imports Rpc
begin

text \<open>
  The transports of \<open>src/nfs/mod.rs\<close>: the record-marking loop of
  \<open>handle_nfs_stream\<close> over TCP and the datagram handler of \<open>start_unified_nfs\<close>
  over UDP, with the routing between the two protocol versions.

  The protocol handlers are arguments: \<open>h3\<close> and \<open>h4\<close> take the server state and
  a request and return the optional reply and the new state, or \<open>None\<close> when they
  panic (the release profile aborts the process on a panic).  \<open>Server\<close> at the end of the
  development passes the model's own handlers.
\<close>

section \<open>Constants and routing\<close>

definition NFS_PROGRAM :: u32 where "NFS_PROGRAM = 100003"
definition NFS_V3 :: u32 where "NFS_V3 = 3"
definition NFS_V4 :: u32 where "NFS_V4 = 4"
definition NFS_ACL_PROGRAM :: u32 where "NFS_ACL_PROGRAM = 100227"
definition MAX_RECV_BUF :: nat where "MAX_RECV_BUF = 4 * 1024 * 1024"
definition MAX_RECORD_LENGTH :: nat where "MAX_RECORD_LENGTH = 1024 * 1024"
definition MAX_UDP_RESPONSE_SIZE :: nat where "MAX_UDP_RESPONSE_SIZE = 65536"

lemmas stream_const_defs = NFS_PROGRAM_def NFS_V3_def NFS_V4_def NFS_ACL_PROGRAM_def
  MAX_RECV_BUF_def MAX_RECORD_LENGTH_def MAX_UDP_RESPONSE_SIZE_def

type_synonym 's handler = "'s \<Rightarrow> bytes \<Rightarrow> (bytes option \<times> 's) option"

definition tcp_route :: "'s handler \<Rightarrow> 's handler \<Rightarrow> 's \<Rightarrow> bytes \<Rightarrow> (bytes option \<times> 's) option" where
  "tcp_route h3 h4 s rpc_data = do {
     program \<leftarrow> rd32 rpc_data 12;
     version \<leftarrow> rd32 rpc_data 16;
     if program = NFS_PROGRAM then
       (if version = NFS_V4 then h4 s rpc_data
        else if version = NFS_V3 then h3 s rpc_data
        else Some (None, s))
     else if program = NFS_ACL_PROGRAM then Some (make_rpc_error_reply rpc_data 1, s)
     else Some (None, s)
   }"

text \<open>The UDP datagram handler, with the size check before a reply is sent.\<close>

definition udp_limit :: "bytes option \<times> 's \<Rightarrow> bytes option \<times> 's" where
  "udp_limit x =
     (case x of
        (Some response, s') \<Rightarrow>
          if length response > MAX_UDP_RESPONSE_SIZE then (None, s') else (Some response, s')
      | (None, s') \<Rightarrow> (None, s'))"

definition udp_datagram :: "'s handler \<Rightarrow> 's handler \<Rightarrow> 's \<Rightarrow> bytes \<Rightarrow> (bytes option \<times> 's) option" where
  "udp_datagram h3 h4 s datagram =
     (if length datagram < 20 then Some (None, s)
      else do {
        program \<leftarrow> rd32 datagram 12;
        version \<leftarrow> rd32 datagram 16;
        if program = NFS_PROGRAM then
          (if version = NFS_V3 then map_option udp_limit (h3 s datagram)
           else if version = NFS_V4 then map_option udp_limit (h4 s datagram)
           else Some (None, s))
        else if program = NFS_ACL_PROGRAM then Some (make_rpc_error_reply datagram 1, s)
        else Some (None, s)
      })"

section \<open>The record loop\<close>

text \<open>
  One turn of the inner \<open>while recv_buf.len() >= 4\<close>: the loop is left (\<open>More\<close>), the
  connection dropped (\<open>Drop\<close>), four bytes skipped, or one record taken out of the buffer.
\<close>

datatype rec_step = More | Drop | Skip4 bytes | Rec bytes bytes

definition next_record :: "bytes \<Rightarrow> rec_step" where
  "next_record recv_buf =
     (if length recv_buf < 4 then More
      else let record_marking = u32_at recv_buf 0;
               is_last_record = record_marking AND 0x80000000 \<noteq> 0;
               record_length = unat (record_marking AND 0x7FFFFFFF)
           in if \<not> is_last_record then Drop
              else if record_length < 20 then Skip4 (drop 4 recv_buf)
              else if record_length > MAX_RECORD_LENGTH then Drop
              else let total_msg_len = 4 + record_length
                   in if length recv_buf < total_msg_len then More
                      else Rec (drop 4 (take total_msg_len recv_buf)) (drop total_msg_len recv_buf))"

text \<open>A reply with its record mark.\<close>

definition frame :: "bytes \<Rightarrow> bytes" where
  "frame response = be32 (0x80000000 OR of_nat (length response)) @ response"

text \<open>
  The state of a connection: the receive buffer, what has been written to the socket, how
  the task ended and the server state.  \<open>write_fails n\<close> says that \<open>write_all\<close> fails once
  \<open>n\<close> replies have been written.
\<close>

datatype stream_status = Open | Dropped | Panicked

record 's conn =
  recv_buf :: bytes
  sent :: "bytes list"
  conn_status :: stream_status
  server :: 's

definition send_response :: "(nat \<Rightarrow> bool) \<Rightarrow> bytes option \<Rightarrow> 's conn \<Rightarrow> 's conn" where
  "send_response write_fails response_opt c =
     (case response_opt of
        None \<Rightarrow> c
      | Some response \<Rightarrow>
          if write_fails (length (sent c)) then c\<lparr>conn_status := Dropped\<rparr>
          else c\<lparr>sent := sent c @ [frame response]\<rparr>)"

lemma next_record_shorter:
  "next_record b = Skip4 r \<Longrightarrow> length r < length b"
  "next_record b = Rec x r \<Longrightarrow> length r < length b"
  by (auto simp: next_record_def Let_def split: if_splits)

lemma next_record_split: "next_record b = Rec x r \<Longrightarrow> length b = 4 + length x + length r"
  by (auto simp: next_record_def Let_def split: if_splits)

lemma next_record_long:
  assumes "next_record b = Rec x r"
  shows "20 \<le> length x" "length x \<le> MAX_RECORD_LENGTH"
  using assms by (auto simp: next_record_def Let_def split: if_splits)

function drain_records :: "(nat \<Rightarrow> bool) \<Rightarrow> 's handler \<Rightarrow> bytes \<Rightarrow> 's conn \<Rightarrow> 's conn" where
  "drain_records wfail h b c =
     (if conn_status c \<noteq> Open then c\<lparr>recv_buf := b\<rparr>
      else case next_record b of
        More \<Rightarrow> c\<lparr>recv_buf := b\<rparr>
      | Drop \<Rightarrow> c\<lparr>recv_buf := b, conn_status := Dropped\<rparr>
      | Skip4 r \<Rightarrow> drain_records wfail h r c
      | Rec rpc_data r \<Rightarrow>
          (case h (server c) rpc_data of
             None \<Rightarrow> c\<lparr>recv_buf := r, conn_status := Panicked\<rparr>
           | Some (resp, s') \<Rightarrow>
               drain_records wfail h r (send_response wfail resp (c\<lparr>server := s'\<rparr>))))"
  by pat_completeness auto
termination
  by (relation "measure (\<lambda>(wfail, h, b, c). length b)") (auto dest: next_record_shorter)

declare drain_records.simps [simp del]

text \<open>
  What \<open>reader.read\<close> delivers (\<open>Ok(0)\<close> is \<open>Data []\<close>), and the outer loop.  The list
  of events may end while the connection is open: the task then waits in \<open>read\<close>.
\<close>

datatype read_event = Data bytes | Read_error

fun serve :: "(nat \<Rightarrow> bool) \<Rightarrow> 's handler \<Rightarrow> read_event list \<Rightarrow> 's conn \<Rightarrow> 's conn" where
  "serve wfail h evs c =
     (let c1 = drain_records wfail h (recv_buf c) c
      in if conn_status c1 \<noteq> Open then c1
         else case evs of
           [] \<Rightarrow> c1
         | Read_error # _ \<Rightarrow> c1\<lparr>conn_status := Dropped\<rparr>
         | Data d # rest \<Rightarrow>
             if d = [] then c1\<lparr>conn_status := Dropped\<rparr>
             else let buf = recv_buf c1 @ d
                  in if length buf > MAX_RECV_BUF then c1\<lparr>recv_buf := buf, conn_status := Dropped\<rparr>
                     else serve wfail h rest (c1\<lparr>recv_buf := buf\<rparr>))"

declare serve.simps [simp del]

definition conn_start :: "'s \<Rightarrow> 's conn" where
  "conn_start s = \<lparr>recv_buf = [], sent = [], conn_status = Open, server = s\<rparr>"

definition handle_nfs_stream :: "(nat \<Rightarrow> bool) \<Rightarrow> 's handler \<Rightarrow> 's handler \<Rightarrow> read_event list \<Rightarrow> 's \<Rightarrow> 's conn" where
  "handle_nfs_stream wfail h3 h4 evs s = serve wfail (tcp_route h3 h4) evs (conn_start s)"

section \<open>Splitting the byte stream\<close>

lemma next_record_append:
  "next_record b = Drop \<Longrightarrow> next_record (b @ x) = Drop"
  "next_record b = Skip4 r \<Longrightarrow> next_record (b @ x) = Skip4 (r @ x)"
  "next_record b = Rec d r \<Longrightarrow> next_record (b @ x) = Rec d (r @ x)"
  by (auto simp: next_record_def Let_def u32_at_def split: if_splits)

lemma send_response_simps [simp]:
  "recv_buf (send_response f r c) = recv_buf c"
  "server (send_response f r c) = server c"
  "send_response f r (c\<lparr>recv_buf := z\<rparr>) = (send_response f r c)\<lparr>recv_buf := z\<rparr>"
  by (auto simp: send_response_def split: option.splits)

lemma drain_recv_buf_irrelevant:
  "drain_records f h b (c\<lparr>recv_buf := z\<rparr>) = drain_records f h b c"
proof (induction f h b c arbitrary: z rule: drain_records.induct)
  case (1 f h b c)
  have u: "c\<lparr>recv_buf := z, server := s\<rparr> = (c\<lparr>server := s\<rparr>)\<lparr>recv_buf := z\<rparr>" for s by simp
  show ?case
    by (subst (1 2) drain_records.simps)
       (auto split: rec_step.splits option.splits simp: 1 u simp del: conn.update_convs)
qed

lemma drain_append:
  "conn_status (drain_records f h b c) = Open \<Longrightarrow>
     drain_records f h (b @ x) c =
       drain_records f h (recv_buf (drain_records f h b c) @ x) (drain_records f h b c)"
  "conn_status (drain_records f h b c) \<noteq> Open \<Longrightarrow>
     drain_records f h (b @ x) c =
       (drain_records f h b c)\<lparr>recv_buf := recv_buf (drain_records f h b c) @ x\<rparr>"
proof (induction f h b c rule: drain_records.induct)
  case (1 f h b c)
  {
    case 1
    show ?case
    proof (cases "conn_status c = Open")
      case False
      with 1 show ?thesis by (simp add: drain_records.simps)
    next
      case o: True
      show ?thesis
      proof (cases "next_record b")
        case More
        with o show ?thesis
          by (simp add: drain_records.simps [of f h b] drain_recv_buf_irrelevant)
      next
        case Drop
        with o 1 show ?thesis by (simp add: drain_records.simps [of f h b])
      next
        case (Skip4 r)
        with o 1 "1.IH"(1) show ?thesis
          by (simp add: drain_records.simps [of f h b] drain_records.simps [of f h "b @ x"]
              next_record_append)
      next
        case (Rec d r)
        with o 1 "1.IH"(3) show ?thesis
          by (auto simp: drain_records.simps [of f h b] drain_records.simps [of f h "b @ x"]
              next_record_append split: option.splits)
      qed
    qed
  next
    case 2
    show ?case
    proof (cases "conn_status c = Open")
      case False
      then show ?thesis by (simp add: drain_records.simps)
    next
      case o: True
      show ?thesis
      proof (cases "next_record b")
        case More
        with o 2 show ?thesis by (simp add: drain_records.simps [of f h b])
      next
        case Drop
        with o show ?thesis
          by (simp add: drain_records.simps [of f h b] drain_records.simps [of f h "b @ x"]
              next_record_append)
      next
        case (Skip4 r)
        with o 2 "1.IH"(2) show ?thesis
          by (simp add: drain_records.simps [of f h b] drain_records.simps [of f h "b @ x"]
              next_record_append)
      next
        case (Rec d r)
        with o 2 "1.IH"(4) show ?thesis
          by (auto simp: drain_records.simps [of f h b] drain_records.simps [of f h "b @ x"]
              next_record_append split: option.splits)
      qed
    qed
  }
qed

lemma drain_idle:
  assumes "conn_status (drain_records f h b c) = Open"
  shows "length (recv_buf (drain_records f h b c)) < 4 + MAX_RECORD_LENGTH
    \<and> next_record (recv_buf (drain_records f h b c)) = More"
  using assms
proof (induction f h b c rule: drain_records.induct)
  case (1 f h b c)
  from 1 show ?case
    by (subst (1 2) drain_records.simps)
       (auto simp: drain_records.simps [of f h b] split: rec_step.splits option.splits if_splits,
        auto simp: next_record_def Let_def split: if_splits)
qed

definition small_chunks :: "bytes list \<Rightarrow> bool" where
  "small_chunks cs \<longleftrightarrow> (\<forall>d \<in> set cs. d \<noteq> [] \<and> length d \<le> 65536)"

text \<open>
  What a connection does depends on the bytes only: reading them in chunks gives what one
  drain of the whole stream gives.
\<close>

definition same_conn :: "'s conn \<Rightarrow> 's conn \<Rightarrow> bool" where
  "same_conn c d \<longleftrightarrow> sent c = sent d \<and> conn_status c = conn_status d \<and> server c = server d
     \<and> (conn_status c = Open \<longrightarrow> recv_buf c = recv_buf d)"

lemma serve_chunks:
  assumes "small_chunks cs"
  shows "same_conn (serve f h (map Data cs) c) (drain_records f h (recv_buf c @ concat cs) c)"
  using assms
proof (induction cs arbitrary: c)
  case Nil
  then show ?case by (simp add: serve.simps same_conn_def Let_def)
next
  case (Cons d cs)
  let ?c1 = "drain_records f h (recv_buf c) c"
  show ?case
  proof (cases "conn_status ?c1 = Open")
    case False
    then show ?thesis
      using drain_append(2) [of f h "recv_buf c" c "concat (d # cs)"]
      by (simp add: serve.simps [of f h "Data d # map Data cs"] same_conn_def Let_def)
  next
    case True
    have l: "length (recv_buf ?c1) < 4 + MAX_RECORD_LENGTH" using drain_idle [OF True] by simp
    have d: "d \<noteq> []" "length d \<le> 65536" and cs: "small_chunks cs"
      using Cons.prems by (auto simp: small_chunks_def)
    have buf: "length (recv_buf ?c1 @ d) \<le> MAX_RECV_BUF"
      using l d by (simp add: stream_const_defs)
    have "serve f h (map Data (d # cs)) c
        = serve f h (map Data cs) (?c1\<lparr>recv_buf := recv_buf ?c1 @ d\<rparr>)"
      using True d buf by (simp add: serve.simps [of f h "Data d # map Data cs"] Let_def)
    moreover have "drain_records f h (recv_buf c @ concat (d # cs)) c
        = drain_records f h ((recv_buf ?c1 @ d) @ concat cs) (?c1\<lparr>recv_buf := recv_buf ?c1 @ d\<rparr>)"
      using drain_append(1) [OF True, of "concat (d # cs)"]
      by (simp add: drain_recv_buf_irrelevant)
    ultimately show ?thesis
      using Cons.IH [OF cs, of "?c1\<lparr>recv_buf := recv_buf ?c1 @ d\<rparr>"] by simp
  qed
qed

text \<open>
  C21: however TCP cuts a byte stream into reads of at most 65536 bytes, the connection
  writes the same replies, ends in the same status and leaves the server in the same
  state.
\<close>

theorem stream_segmentation_independent:
  assumes "concat cs = concat ds" and "small_chunks cs" and "small_chunks ds"
  shows "same_conn (handle_nfs_stream f h3 h4 (map Data cs) s)
    (handle_nfs_stream f h3 h4 (map Data ds) s)"
proof -
  let ?h = "tcp_route h3 h4"
  have "same_conn (serve f ?h (map Data cs) (conn_start s)) (drain_records f ?h (concat ds) (conn_start s))"
    "same_conn (serve f ?h (map Data ds) (conn_start s)) (drain_records f ?h (concat ds) (conn_start s))"
    using serve_chunks [OF assms(2), of f ?h "conn_start s"]
      serve_chunks [OF assms(3), of f ?h "conn_start s"] assms(1)
    by (simp_all add: conn_start_def)
  then show ?thesis by (simp add: handle_nfs_stream_def same_conn_def)
qed

text \<open>A server that counts its NULL calls and echoes the transaction id.\<close>

definition echo_handler :: "nat handler" where
  "echo_handler s req = Some (Some (take 4 req), s + 1)"

theorem stream_segmentation_independent_witness:
  "same_conn (handle_nfs_stream (\<lambda>_. False) echo_handler echo_handler (map Data [[1, 2], [3]]) 0)
    (handle_nfs_stream (\<lambda>_. False) echo_handler echo_handler (map Data [[1], [2, 3]]) 0)"
  by (rule stream_segmentation_independent) (simp_all add: small_chunks_def)

section \<open>Every request is answered, in order\<close>

definition well_sized :: "bytes \<Rightarrow> bool" where
  "well_sized req \<longleftrightarrow> 20 \<le> length req \<and> length req \<le> MAX_RECORD_LENGTH"

fun answers :: "'s handler \<Rightarrow> bytes list \<Rightarrow> 's \<Rightarrow> (bytes list \<times> 's) option" where
  "answers h [] s = Some ([], s)"
| "answers h (req # reqs) s = do {
     (resp, s1) \<leftarrow> h s req;
     (out, s2) \<leftarrow> answers h reqs s1;
     Some ((case resp of None \<Rightarrow> [] | Some r \<Rightarrow> [frame r]) @ out, s2)
   }"

lemma record_mark:
  assumes "n < 2 ^ 31"
  shows "(0x80000000 OR of_nat n :: u32) AND 0x80000000 \<noteq> 0"
    and "unat ((0x80000000 OR of_nat n :: u32) AND 0x7FFFFFFF) = n"
proof -
  have m: "(0x7FFFFFFF :: u32) = mask 31" by (simp add: mask_eq_exp_minus_1)
  have e: "(0x80000000 :: u32) = 2 ^ 31" by simp
  have b: "bit (0x80000000 :: u32) k \<longleftrightarrow> k = 31" for k
    unfolding e by (simp only: bit_exp_iff possible_bit_word) auto
  have "bit ((0x80000000 OR of_nat n :: u32) AND 0x80000000) 31"
    by (simp only: bit_and_iff bit_or_iff b simp_thms)
  then show "(0x80000000 OR of_nat n :: u32) AND 0x80000000 \<noteq> 0" by (metis bit_0_eq bot_apply bot_bool_def)
  have "(0x80000000 OR of_nat n :: u32) AND 0x7FFFFFFF = of_nat n AND mask 31"
    unfolding m by (rule bit_word_eqI) (auto simp only: bit_and_iff bit_or_iff b bit_mask_iff)
  moreover have "unat (of_nat n AND mask 31 :: u32) = n"
    unfolding take_bit_eq_mask [symmetric] unsigned_take_bit_eq
    using assms by (simp add: unat_of_nat take_bit_nat_eq_self)
  ultimately show "unat ((0x80000000 OR of_nat n :: u32) AND 0x7FFFFFFF) = n" by simp
qed

lemma next_record_frame:
  assumes "well_sized req"
  shows "next_record (frame req @ rest) = Rec req rest"
proof -
  have "length req < 2 ^ 31" using assms by (simp add: well_sized_def stream_const_defs)
  then show ?thesis
    using assms record_mark [of "length req"]
    by (simp add: next_record_def frame_def well_sized_def Let_def)
qed

lemma send_response_all_written:
  "send_response (\<lambda>_. False) resp c
     = c\<lparr>sent := sent c @ (case resp of None \<Rightarrow> [] | Some r \<Rightarrow> [frame r])\<rparr>"
  by (auto simp: send_response_def split: option.splits)

lemma drain_answers:
  assumes "answers h reqs (server c) = Some (out, s')"
    and "\<forall>r \<in> set reqs. well_sized r" and "conn_status c = Open"
  shows "drain_records (\<lambda>_. False) h (concat (map frame reqs)) c
    = c\<lparr>recv_buf := [], sent := sent c @ out, server := s'\<rparr>"
  using assms
proof (induction reqs arbitrary: c out)
  case Nil
  then show ?case by (simp add: drain_records.simps next_record_def)
next
  case (Cons r reqs)
  obtain resp s1 out1 where h: "h (server c) r = Some (resp, s1)"
    and a: "answers h reqs s1 = Some (out1, s')"
    and o: "out = (case resp of None \<Rightarrow> [] | Some x \<Rightarrow> [frame x]) @ out1"
    using Cons.prems(1) by (auto simp: Option.bind_eq_Some_conv)
  have n: "next_record (concat (map frame (r # reqs))) = Rec r (concat (map frame reqs))"
    using next_record_frame Cons.prems(2) by simp
  let ?c = "send_response (\<lambda>_. False) resp (c\<lparr>server := s1\<rparr>)"
  have "drain_records (\<lambda>_. False) h (concat (map frame reqs)) ?c
      = ?c\<lparr>recv_buf := [], sent := sent ?c @ out1, server := s'\<rparr>"
    using Cons.prems a by (intro Cons.IH) (auto simp: send_response_all_written)
  then show ?case
    using Cons.prems(3) n h o by (subst drain_records.simps) (simp add: send_response_all_written)
qed

text \<open>
  C22: when the requests a client sends have a legal record size and no handler panics, the
  connection handles every one of them, in order, and writes exactly the handlers' replies,
  each with its record mark, whatever way TCP cuts the stream; the buffer ends empty.
\<close>

theorem stream_answers_in_order:
  assumes "answers (tcp_route h3 h4) reqs s = Some (out, s')"
    and "\<forall>r \<in> set reqs. well_sized r"
    and "concat cs = concat (map frame reqs)" and "small_chunks cs"
  shows "handle_nfs_stream (\<lambda>_. False) h3 h4 (map Data cs) s
    = \<lparr>recv_buf = [], sent = out, conn_status = Open, server = s'\<rparr>"
proof -
  let ?h = "tcp_route h3 h4"
  have "same_conn (serve (\<lambda>_. False) ?h (map Data cs) (conn_start s))
      (drain_records (\<lambda>_. False) ?h (concat (map frame reqs)) (conn_start s))"
    using serve_chunks [OF assms(4), of "\<lambda>_. False" ?h "conn_start s"] assms(3)
    by (simp add: conn_start_def)
  moreover have "drain_records (\<lambda>_. False) ?h (concat (map frame reqs)) (conn_start s)
      = \<lparr>recv_buf = [], sent = out, conn_status = Open, server = s'\<rparr>"
    using drain_answers [of ?h reqs "conn_start s"] assms by (simp add: conn_start_def)
  ultimately show ?thesis
    by (simp add: handle_nfs_stream_def same_conn_def)
qed

theorem stream_answers_in_order_witness:
  "handle_nfs_stream (\<lambda>_. False) echo_handler echo_handler
     [Data [128, 0, 0], Data ([20] @ be32 7 @ be32 0 @ be32 2 @ be32 100003),
      Data (be32 4)] 0
   = \<lparr>recv_buf = [], sent = [[128, 0, 0, 4, 0, 0, 0, 7]], conn_status = Open, server = 1\<rparr>"
proof -
  let ?req = "be32 7 @ be32 0 @ be32 2 @ be32 100003 @ be32 4"
  let ?cs = "[[128, 0, 0], [20] @ be32 7 @ be32 0 @ be32 2 @ be32 100003, be32 4]"
  have a: "answers (tcp_route echo_handler echo_handler) [?req] 0
      = Some ([[128, 0, 0, 4, 0, 0, 0, 7]], 1)"
    by (simp add: tcp_route_def echo_handler_def stream_const_defs rd32_def of_be_def be32_def frame_def)
  have c: "concat ?cs = concat (map frame [?req])"
    by (simp add: frame_def be32_def)
  show ?thesis
    using stream_answers_in_order [OF a _ c]
    by (simp add: well_sized_def small_chunks_def stream_const_defs be32_def)
qed

text \<open>
  A UDP reply to an NFS call is never larger than 65536 bytes, the anti-amplification
  limit, whatever the handlers return.
\<close>

theorem udp_reply_bounded:
  assumes "udp_datagram h3 h4 s d = Some (Some r, s')"
  shows "length r \<le> MAX_UDP_RESPONSE_SIZE"
proof -
  have e: "length x \<le> MAX_UDP_RESPONSE_SIZE" if "make_rpc_error_reply d 1 = Some x" for x
  proof -
    have "length x \<le> 24"
      using that by (simp add: make_rpc_error_reply_def split: if_splits) (clarsimp simp: min_def)
    then show ?thesis by (simp add: MAX_UDP_RESPONSE_SIZE_def)
  qed
  have l: "length x \<le> MAX_UDP_RESPONSE_SIZE"
    if "map_option udp_limit y = Some (Some x, s')" for x y and s' :: 'a
  proof (cases y)
    case None
    with that show ?thesis by simp
  next
    case (Some z)
    then show ?thesis
      using that by (cases z; cases "fst z") (simp_all add: udp_limit_def split: if_splits)
  qed
  from assms obtain prog ver where p: "rd32 d 12 = Some prog" "rd32 d 16 = Some ver"
    and len: "\<not> length d < 20"
    by (cases "rd32 d 12"; cases "rd32 d 16") (simp_all add: udp_datagram_def split: if_splits)
  from assms have "map_option udp_limit (h3 s d) = Some (Some r, s')
      \<or> map_option udp_limit (h4 s d) = Some (Some r, s') \<or> make_rpc_error_reply d 1 = Some r"
    unfolding udp_datagram_def using p len by (simp del: map_option_eq_Some split: if_splits)
  then show ?thesis using e l by blast
qed

theorem udp_reply_bounded_witness:
  "udp_datagram echo_handler echo_handler 0 (be32 9 @ be32 0 @ be32 2 @ be32 100003 @ be32 4)
     = Some (Some (be32 9), 1) \<and> length (be32 9) \<le> MAX_UDP_RESPONSE_SIZE"
proof -
  let ?d = "be32 9 @ be32 0 @ be32 2 @ be32 100003 @ be32 4"
  have r: "rd32 ?d 12 = Some 100003" "rd32 ?d 16 = Some 4" by (simp_all add: rd32_def)
  have "udp_datagram echo_handler echo_handler 0 ?d = Some (Some (be32 9), 1)"
    unfolding udp_datagram_def r by (simp add: echo_handler_def stream_const_defs udp_limit_def)
  then show ?thesis using udp_reply_bounded [of echo_handler echo_handler 0 ?d "be32 9" 1] by simp
qed

end
