(* ===== verification/Mount.thy ===== *)
theory Mount
  imports Exports
begin

text \<open>
  The MOUNT server of \<open>src/nfs/mount.rs\<close>: the request handler, which checks the client
  against the export's networks before it gives out the root file handle, and lists to a
  client only the exports it may mount.  The outer option is a panic, the inner one no
  reply.
\<close>

definition MOUNTPROC_NULL :: u32 where "MOUNTPROC_NULL = 0"
definition MOUNTPROC_MNT :: u32 where "MOUNTPROC_MNT = 1"
definition MOUNTPROC_DUMP :: u32 where "MOUNTPROC_DUMP = 2"
definition MOUNTPROC_UMNT :: u32 where "MOUNTPROC_UMNT = 3"
definition MOUNTPROC_UMNTALL :: u32 where "MOUNTPROC_UMNTALL = 4"
definition MOUNTPROC_EXPORT :: u32 where "MOUNTPROC_EXPORT = 5"

lemmas mount_proc_defs = MOUNTPROC_NULL_def MOUNTPROC_MNT_def MOUNTPROC_DUMP_def
  MOUNTPROC_UMNT_def MOUNTPROC_UMNTALL_def MOUNTPROC_EXPORT_def

text \<open>The body of a successful MNT reply.\<close>

definition mnt_ok_body :: "bytes \<Rightarrow> bytes" where
  "mnt_ok_body fh = be32 0 @ be32 (of_nat (length fh)) @ fh @ be32 1 @ be32 1"

definition mount_mnt :: "deps \<Rightarrow> env \<Rightarrow> u32 \<Rightarrow> bytes \<Rightarrow> nat \<Rightarrow> ip_addr \<Rightarrow> exports_manager
    \<Rightarrow> (bytes option \<times> exports_manager) option" where
  "mount_mnt d e xid request offset client_ip m =
     (if length request < offset + 4 then Some (Some (mount_accept_reply xid ACC_GARBAGE_ARGS []), m)
      else do {
        pl \<leftarrow> rd32 request offset;
        let path_len = unat pl;
        let offset = offset + 4;
        if length request < offset + path_len
        then Some (Some (mount_accept_reply xid ACC_GARBAGE_ARGS []), m)
        else do {
          path_bytes \<leftarrow> slice request offset (offset + path_len);
          let path = utf8_lossy path_bytes;
          if \<not> is_client_allowed d m client_ip path
          then Some (Some (mount_accept_reply xid ACC_SUCCESS (be32 13)), m)
          else if get_export m path = None
          then Some (Some (mount_accept_reply xid ACC_SUCCESS (be32 2)), m)
          else (let (fh, m') = create_file_handle d e path m
                in Some (Some (mount_accept_reply xid ACC_SUCCESS (mnt_ok_body fh)), m'))
        }
      })"

text \<open>One entry of the EXPORT reply, and the list.\<close>

definition export_name :: "bytes \<times> bytes option \<Rightarrow> bytes" where
  "export_name pa = (case snd pa of Some a \<Rightarrow> a | None \<Rightarrow> fst pa)"

definition export_item :: "bytes \<times> bytes option \<Rightarrow> bytes" where
  "export_item pa =
     (let name = export_name pa;
          name_pad = (4 - length name mod 4) mod 4
      in [0, 0, 0, 1] @ be32 (of_nat (length name)) @ name @ replicate name_pad 0 @ [0, 0, 0, 0])"

definition mount_export_body :: "deps \<Rightarrow> exports_manager \<Rightarrow> ip_addr \<Rightarrow> bytes" where
  "mount_export_body d m client_ip =
     concat (map export_item
       (filter (\<lambda>pa. is_client_allowed d m client_ip (fst pa)) (list_exports_with_aliases m)))
     @ [0, 0, 0, 0]"

definition mount_handle_request :: "deps \<Rightarrow> env \<Rightarrow> bytes \<Rightarrow> ip_addr \<Rightarrow> exports_manager
    \<Rightarrow> (bytes option \<times> exports_manager) option" where
  "mount_handle_request d e request client_ip m =
     (if length request < 24 then Some (None, m)
      else do {
        xid \<leftarrow> rd32 request 0;
        msg_type \<leftarrow> rd32 request 4;
        if msg_type \<noteq> RPC_CALL then Some (None, m)
        else do {
          procedure \<leftarrow> rd32 request 20;
          if length request < 32 then Some (Some (mount_accept_reply xid ACC_GARBAGE_ARGS []), m)
          else do {
            cl \<leftarrow> rd32 request 28;
            let offset = 24 + (8 + pad4 (unat cl));
            if length request < offset + 8
            then Some (Some (mount_accept_reply xid ACC_GARBAGE_ARGS []), m)
            else do {
              vl \<leftarrow> rd32 request (offset + 4);
              let offset = offset + (8 + pad4 (unat vl));
              if procedure = MOUNTPROC_NULL then Some (Some (mount_accept_reply xid ACC_SUCCESS []), m)
              else if procedure = MOUNTPROC_MNT then mount_mnt d e xid request offset client_ip m
              else if procedure = MOUNTPROC_DUMP
              then Some (Some (mount_accept_reply xid ACC_SUCCESS [0, 0, 0, 0]), m)
              else if procedure = MOUNTPROC_UMNT \<or> procedure = MOUNTPROC_UMNTALL
              then Some (Some (mount_accept_reply xid ACC_SUCCESS []), m)
              else if procedure = MOUNTPROC_EXPORT
              then Some (Some (mount_accept_reply xid ACC_SUCCESS (mount_export_body d m client_ip)), m)
              else Some (Some (mount_accept_reply xid ACC_PROC_UNAVAIL []), m)
            }
          }
        }
      })"

section \<open>Properties\<close>

lemma not_None_Some: "x = Some y \<Longrightarrow> x \<noteq> None" by simp

lemma mount_mnt_total: "mount_mnt d e xid request off ip m \<noteq> None"
  by (simp add: mount_mnt_def rd_simps Let_def split: prod.splits del: not_None_eq)

text \<open>
  The MOUNT server never panics, whatever the bytes of the request (with
  \<open>panic = "abort"\<close> in the release profile a panic would end the process).
\<close>

theorem mount_never_panics: "mount_handle_request d e request ip m \<noteq> None"
  by (simp add: mount_handle_request_def rd_simps mount_mnt_total Let_def del: not_None_eq)

text \<open>An MNT call for \<open>path\<close> as a client encodes it.\<close>

definition mnt_call :: "u32 \<Rightarrow> u32 \<Rightarrow> bytes \<Rightarrow> bytes \<Rightarrow> bytes" where
  "mnt_call xid flavor cred path =
     rpc_call_header xid 100005 3 MOUNTPROC_MNT flavor cred 0 [] @ xdr_opaque path"

lemma mnt_call_dispatch:
  assumes "length cred < 2 ^ 32" and "length path < 2 ^ 32"
  shows "mount_handle_request d e (mnt_call xid fl cred path) ip m =
    (let p = utf8_lossy path in
     if \<not> is_client_allowed d m ip p then Some (Some (mount_accept_reply xid ACC_SUCCESS (be32 13)), m)
     else (let (fh, m') = create_file_handle d e p m
           in Some (Some (mount_accept_reply xid ACC_SUCCESS (mnt_ok_body fh)), m')))"
proof -
  let ?b = "mnt_call xid fl cred path"
  let ?off = "40 + pad4 (length cred)"
  note r = rpc_call_header_reads [of xid 100005 3 MOUNTPROC_MNT fl cred 0 "[]" "xdr_opaque path", folded mnt_call_def]
  have len: "length ?b = ?off + 4 + pad4 (length path)"
    using r(8) by simp
  have h: "length (rpc_call_header xid 100005 3 MOUNTPROC_MNT fl cred 0 []) = ?off"
    by (simp add: rpc_call_header_def)
  have pl: "rd32 ?b ?off = Some (of_nat (length path))"
    unfolding mnt_call_def xdr_opaque_def [of path]
    using u32.dec_at [of ?off "rpc_call_header xid 100005 3 MOUNTPROC_MNT fl cred 0 []"] h by simp
  have sl: "slice ?b (?off + 4) (?off + 4 + length path) = Some path"
    using len pad4_ge [of "length path"]
    by (simp add: slice_def mnt_call_def xdr_opaque_def h)
  have u: "unat (of_nat (length cred) :: u32) = length cred" "unat (of_nat (length path) :: u32) = length path"
    using assms by (simp_all add: unat_of_nat)
  have off: "24 + (8 + pad4 (length cred)) = 32 + pad4 (length cred)"
    "32 + pad4 (length cred) + 4 = 36 + pad4 (length cred)" by simp_all
  have mnt: "mount_mnt d e xid ?b ?off ip m =
    (let p = utf8_lossy path in
     if \<not> is_client_allowed d m ip p then Some (Some (mount_accept_reply xid ACC_SUCCESS (be32 13)), m)
     else (let (fh, m') = create_file_handle d e p m
           in Some (Some (mount_accept_reply xid ACC_SUCCESS (mnt_ok_body fh)), m')))"
  proof -
    have n: "get_export m p \<noteq> None" if "is_client_allowed d m ip p" for p
      using that by (auto simp: is_client_allowed_def get_export_def split: option.splits)
    show ?thesis
      using n [of "utf8_lossy path"] sl pad4_ge [of "length path"]
      by (auto simp: mount_mnt_def pl u len Let_def)
  qed
  have v: "rd32 ?b (pad4 (length cred) + 36) = Some 0"
    using r(7) by (simp add: add.commute)
  show ?thesis
    using mnt
    by (simp add: mount_handle_request_def r(1-6,8) v u len off mount_proc_defs RPC_CALL_def Let_def
        add.commute add.left_commute)
qed

text \<open>
  C14: MNT is an access check.  For every well-formed call the server answers
  \<open>MNT3ERR_ACCES\<close> and keeps its state when the client's address is in none of the networks
  of the export the path resolves to; otherwise it answers \<open>MNT3_OK\<close> with a 40-byte handle
  that denotes the root directory of that export.
\<close>

theorem mnt_grants_only_allowed:
  assumes "length cred < 2 ^ 32" and "length path < 2 ^ 32" and "mac_ok d" and "em_inv m"
  shows "(\<not> is_client_allowed d m ip (utf8_lossy path) \<longrightarrow>
      mount_handle_request d e (mnt_call xid fl cred path) ip m
        = Some (Some (mount_accept_reply xid ACC_SUCCESS (be32 13)), m))
    \<and> (is_client_allowed d m ip (utf8_lossy path) \<longrightarrow>
      (\<exists>ex fh m'. resolve_export_path m (utf8_lossy path) = Some ex
        \<and> mount_handle_request d e (mnt_call xid fl cred path) ip m
            = Some (Some (mount_accept_reply xid ACC_SUCCESS (mnt_ok_body fh)), m')
        \<and> length fh = FH_SIZE \<and> fh_denotes d m' fh = Some (path_key (exp_path ex))))"
proof (intro conjI impI)
  note dispatch = mnt_call_dispatch [OF assms(1,2), of d e xid fl ip m]
  show "mount_handle_request d e (mnt_call xid fl cred path) ip m
      = Some (Some (mount_accept_reply xid ACC_SUCCESS (be32 13)), m)"
    if "\<not> is_client_allowed d m ip (utf8_lossy path)"
    using that by (simp add: dispatch)
  assume a: "is_client_allowed d m ip (utf8_lossy path)"
  then obtain ex where ex: "resolve_export_path m (utf8_lossy path) = Some ex"
    by (auto simp: is_client_allowed_def split: option.splits)
  obtain fh m' where c: "create_file_handle d e (utf8_lossy path) m = (fh, m')" by fastforce
  have g: "get_or_create_fh d e (exp_path ex) (exp_path ex) m = (fh, m')"
    using c ex by (simp add: create_file_handle_def)
  have "length fh = FH_SIZE"
    using g length_encode_handle [OF assms(3)]
    by (auto simp: get_or_create_fh_def Let_def split: option.splits)
  then show "\<exists>ex fh m'. resolve_export_path m (utf8_lossy path) = Some ex
        \<and> mount_handle_request d e (mnt_call xid fl cred path) ip m
            = Some (Some (mount_accept_reply xid ACC_SUCCESS (mnt_ok_body fh)), m')
        \<and> length fh = FH_SIZE \<and> fh_denotes d m' fh = Some (path_key (exp_path ex))"
    using a ex c get_or_create_denotes [OF assms(3,4) g] by (auto simp: dispatch)
qed

lemma utf8_share: "utf8_lossy (bs ''share'') = bs ''share''"
  by (rule utf8_lossy_ascii) code_simp

theorem mnt_grants_only_allowed_witness:
  "mount_handle_request sample_deps sample_env (mnt_call 7 0 [] (bs ''share'')) (IpV4 0x0B000001) sample_em
     = Some (Some (mount_accept_reply 7 ACC_SUCCESS (be32 13)), sample_em)
   \<and> (\<exists>fh m'. mount_handle_request sample_deps sample_env (mnt_call 7 0 [] (bs ''share'')) (IpV4 0x0A000001) sample_em
     = Some (Some (mount_accept_reply 7 ACC_SUCCESS (mnt_ok_body fh)), m') \<and> length fh = FH_SIZE)"
proof -
  have "\<not> is_client_allowed sample_deps sample_em (IpV4 0x0B000001) (bs ''share'')"
    "is_client_allowed sample_deps sample_em (IpV4 0x0A000001) (bs ''share'')"
    by code_simp+
  then show ?thesis
    using mnt_grants_only_allowed [OF _ _ sample_mac_ok sample_em_inv, of "[]" "bs ''share''" "IpV4 0x0B000001" sample_env 7 0]
      mnt_grants_only_allowed [OF _ _ sample_mac_ok sample_em_inv, of "[]" "bs ''share''" "IpV4 0x0A000001" sample_env 7 0]
    by (auto simp: utf8_share)
qed

text \<open>A client's decoder of the export list.\<close>

fun parse_export_list :: "nat \<Rightarrow> bytes \<Rightarrow> bytes list option" where
  "parse_export_list 0 b = None"
| "parse_export_list (Suc n) b = do {
     follows \<leftarrow> rd32 b 0;
     if follows = 0 then Some []
     else do {
       len \<leftarrow> rd32 b 4;
       name \<leftarrow> slice b 8 (8 + unat len);
       rest \<leftarrow> parse_export_list n (drop (12 + pad4 (unat len)) b);
       Some (name # rest)
     }
   }"

declare parse_export_list.simps(2) [simp del]

lemma pad_mod4: "(4 - n mod 4) mod 4 = pad4 n - n" for n :: nat
proof -
  define q r where "q = n div 4" and "r = n mod 4"
  then have n: "n = 4 * q + r" and "r < 4" by simp_all
  then have "r = 0 \<or> r = 1 \<or> r = 2 \<or> r = 3" by arith
  moreover have "n mod 4 = r" by (simp add: r_def)
  moreover have "pad4 n = 4 * q + (if r = 0 then 0 else 4)"
    using \<open>r < 4\<close> by (simp add: n pad4_def) presburger
  ultimately show ?thesis by (elim disjE) (simp_all add: n)
qed

lemma parse_export_item:
  assumes "length (export_name pa) < 2 ^ 32"
  shows "parse_export_list (Suc n) (export_item pa @ r)
    = map_option ((#) (export_name pa)) (parse_export_list n r)"
proof -
  let ?name = "export_name pa"
  have one: "[0, 0, 0, 1] = be32 1" by (simp add: be32_def)
  have it: "export_item pa = be32 1 @ be32 (of_nat (length ?name)) @ ?name
      @ replicate (pad4 (length ?name) - length ?name) 0 @ [0, 0, 0, 0]"
    unfolding export_item_def Let_def pad_mod4 one by simp
  have len: "length (export_item pa) = 12 + pad4 (length ?name)" by (simp add: it)
  have "rd32 (export_item pa @ r) 0 = Some 1" by (simp add: it rd32_def)
  moreover have "rd32 (export_item pa @ r) 4 = Some (of_nat (length ?name))" by (simp add: it rd32_def)
  moreover have "slice (export_item pa @ r) 8 (8 + length ?name) = Some ?name" by (simp add: it slice_def)
  moreover have "drop (12 + pad4 (length ?name)) (export_item pa @ r) = r" by (simp add: len [symmetric])
  moreover have "unat (of_nat (length ?name) :: u32) = length ?name"
    using assms by (simp add: unat_of_nat)
  ultimately show ?thesis
    by (cases "parse_export_list n r") (simp_all add: parse_export_list.simps(2))
qed

lemma parse_export_items:
  assumes "\<forall>pa \<in> set pas. length (export_name pa) < 2 ^ 32" and "length pas \<le> n"
  shows "parse_export_list (Suc n) (concat (map export_item pas) @ [0, 0, 0, 0]) = Some (map export_name pas)"
  using assms
proof (induction pas arbitrary: n)
  case Nil
  show ?case by (simp add: parse_export_list.simps(2) rd32_def of_be_def)
next
  case (Cons pa pas)
  then obtain k where n: "n = Suc k" by (cases n) auto
  with Cons show ?case by (simp add: parse_export_item)
qed

text \<open>
  The EXPORT list a client sees contains exactly the exports it is allowed to mount
  (SEC-016), in table order, each under its alias when it has one, and the list is
  terminated.
\<close>

theorem export_list_filtered:
  assumes "\<forall>pa \<in> set (list_exports_with_aliases m). length (export_name pa) < 2 ^ 32"
  shows "parse_export_list (length (exports m) + 1) (mount_export_body d m ip)
    = Some (map export_name
        (filter (\<lambda>pa. is_client_allowed d m ip (fst pa)) (list_exports_with_aliases m)))"
proof -
  let ?pas = "filter (\<lambda>pa. is_client_allowed d m ip (fst pa)) (list_exports_with_aliases m)"
  have "length ?pas \<le> length (exports m)"
    using length_filter_le [of _ "list_exports_with_aliases m"] by (simp add: list_exports_with_aliases_def)
  with parse_export_items [of ?pas "length (exports m)"] assms show ?thesis
    by (simp add: mount_export_body_def)
qed

theorem export_list_filtered_witness:
  "parse_export_list (length (exports sample_em) + 1) (mount_export_body sample_deps sample_em (IpV4 0x0A000001))
     = Some [bs ''share'']"
proof -
  have "map export_name (filter (\<lambda>pa. is_client_allowed sample_deps sample_em (IpV4 0x0A000001) (fst pa))
      (list_exports_with_aliases sample_em)) = [bs ''share'']" by code_simp
  moreover have "\<forall>pa \<in> set (list_exports_with_aliases sample_em). length (export_name pa) < 2 ^ 32"
    by (simp add: sample_em_def list_exports_with_aliases_def export_name_def)
  ultimately show ?thesis using export_list_filtered by simp
qed

end
