(* ===== verification/Server.thy ===== *)
theory Server
  imports Nfs4_Reply Nfs4_Listing Record_Stream Mount
begin

text \<open>
  The whole server: the steps the tasks of the process take on the shared state (NFSv3 and
  NFSv4 requests, MOUNT requests, reloads of the exports and the lease cleanup), and the TCP
  transport of \<open>Record_Stream\<close> with the model's own protocol handlers.
\<close>

section \<open>NFSv3 requests and the NFSv4 tables\<close>

lemma holds_with_fh:
  "P (None, st) \<Longrightarrow> (\<And>fh n. holds P (k fh n)) \<Longrightarrow> holds P (with_fh rq off st k)"
  unfolding with_fh_def by (rule holds_bind) (auto split: option.split)

lemma holds_with_name:
  "P (None, st) \<Longrightarrow> (\<And>n. holds P (k n)) \<Longrightarrow> holds P (with_name rq off st k)"
  unfolding with_name_def Let_def by (auto intro!: holds_bind)

text \<open>NFSv3 reads and changes the file system and the handle store only.\<close>

definition v3_frame :: "nfs4 \<Rightarrow> bytes option \<times> nfs4 \<Rightarrow> bool" where
  "v3_frame st x \<longleftrightarrow> same_tables st (snd x)"

lemma v3_frame_simps [simp]:
  "v3_frame st (r, st)" "v3_frame st (r, st\<lparr>the_fs := s\<rparr>)" "v3_frame st (r, st\<lparr>em := m\<rparr>)"
  "v3_frame st (r, st\<lparr>the_fs := s, em := m\<rparr>)" "v3_frame st (r, st\<lparr>em := m, the_fs := s\<rparr>)"
  by (simp_all add: v3_frame_def same_tables_def)

lemma v3_made_frame:
  "holds (v3_frame st) (v3_made d e xid fh dp p (st\<lparr>the_fs := s\<rparr>))" "holds (v3_frame st) (v3_made d e xid fh dp p st)"
  by (simp_all add: v3_made_def new_fh_st_def Let_def split: prod.split)

lemma v3_queries_frame:
  "holds (v3_frame st) (v3_getattr d xid rq off st)" "holds (v3_frame st) (v3_setattr d xid rq off st)"
  "holds (v3_frame st) (v3_access d xid rq off st)" "holds (v3_frame st) (v3_readlink d xid rq off st)"
  "holds (v3_frame st) (v3_fsstat d xid rq off st)" "holds (v3_frame st) (v3_fsinfo d xid rq off st)"
  "holds (v3_frame st) (v3_pathconf d xid rq off st)" "holds (v3_frame st) (v3_commit xid st)"
  "holds (v3_frame st) (v3_read d xid rq off st)" "holds (v3_frame st) (v3_lookup d e xid rq off st)"
  "holds (v3_frame st) (v3_readdir d e xid rq off st)"
  unfolding v3_getattr_def v3_setattr_def v3_access_def v3_readlink_def v3_fsstat_def v3_fsinfo_def
    v3_pathconf_def v3_commit_def v3_read_def v3_lookup_def v3_readdir_def Let_def
  by (auto intro!: holds_with_fh holds_with_name holds_bind split: option.split prod.split sum.split)

lemma v3_updates_frame:
  "holds (v3_frame st) (v3_write d e xid rq off st)" "holds (v3_frame st) (v3_create d e xid rq off st)"
  "holds (v3_frame st) (v3_mkdir d e xid rq off st)" "holds (v3_frame st) (v3_remove d xid rq off st)"
  "holds (v3_frame st) (v3_rmdir d xid rq off st)" "holds (v3_frame st) (v3_rename d xid rq off st)"
  unfolding v3_write_def v3_create_def v3_mkdir_def v3_remove_def v3_rmdir_def v3_rename_def
    v3_rofs_def Let_def
  by (auto intro!: holds_with_fh holds_with_name holds_bind v3_made_frame
      split: option.split prod.split sum.split if_split)

lemma v3_request_frame:
  assumes "v3_handle_request d e rq st = Some (r, st')"
  shows "same_tables st st'"
proof -
  have "holds (v3_frame st) (v3_dispatch d e procedure xid rq off st)" for procedure xid off
    unfolding v3_dispatch_def v3_readdirplus_def
    by (intro holds_if v3_queries_frame v3_updates_frame) simp_all
  then have "holds (v3_frame st) (v3_handle_request d e rq st)"
    unfolding v3_handle_request_def by (auto intro!: holds_bind split: option.split)
  then show ?thesis using assms by (simp add: v3_frame_def)
qed

section \<open>The tables of the server\<close>

text \<open>
  The invariant of the tables: client ids and session ids are unique and issued, owners have
  different ids, the granted locks are compatible, and the byte arrays have their lengths.
\<close>

definition tables_ok :: "nfs4 \<Rightarrow> bool" where
  "tables_ok st \<longleftrightarrow> client_inv st \<and> lock_inv st \<and> state_wf st"

text \<open>Steps that issue at most \<open>n\<close> client ids.\<close>

definition issues :: "nat \<Rightarrow> nfs4 \<Rightarrow> nfs4 \<Rightarrow> bool" where
  "issues n st st' \<longleftrightarrow> (tables_ok st \<and> unat (client_counter st) + n < 2 ^ 64 \<longrightarrow>
     tables_ok st' \<and> unat (client_counter st') \<le> unat (client_counter st) + n)"

lemma issues_refl [simp]: "issues n st st"
  by (simp add: issues_def)

lemma issues_trans: "issues m st1 st2 \<Longrightarrow> issues n st2 st3 \<Longrightarrow> issues (m + n) st1 st3"
  by (auto simp: issues_def)

lemma issues_mono: "issues m st1 st2 \<Longrightarrow> m \<le> n \<Longrightarrow> issues n st1 st2"
  by (auto simp: issues_def)

lemma same_tables_ok: "same_tables st st' \<Longrightarrow> tables_ok st \<longleftrightarrow> tables_ok st'"
  by (simp add: same_tables_def tables_ok_def client_inv_def lock_inv_def state_wf_def table_entry_def)

lemma frames_issue:
  "file_frame d st st' \<Longrightarrow> issues 1 st st'" "handle_frame d st st' \<Longrightarrow> issues 1 st st'"
  "st = st' \<Longrightarrow> issues 1 st st'" "same_tables st st' \<Longrightarrow> issues 1 st st'"
  using same_tables_ok [of st st']
  by (auto simp: file_frame_def handle_frame_def issues_def same_tables_def)

lemma session_step_counter:
  "session_step st st' \<Longrightarrow> unat (client_counter st') \<le> unat (client_counter st) + 1"
proof (induction rule: session_step.induct)
  case (step_setclientid st e rq p r st')
  from step_setclientid(2) show ?case
    by (cases rule: op_setclientid_cases) (use u64_less_succ(2) [OF step_setclientid(1)] in auto)
next
  case (step_exchange_id st e rq p r st')
  from step_exchange_id(2) show ?case
    by (cases rule: op_exchange_id_cases) (use u64_less_succ(2) [OF step_exchange_id(1)] in auto)
next
  case (step_create_session e rq p st r st')
  then show ?case by (cases rule: op_create_session_cases) auto
next
  case (step_sequence e rq p st r st')
  then show ?case by (cases rule: op_sequence_cases) auto
qed (auto simp: op_setclientid_confirm_def op_destroy_session_def op_destroy_clientid_def
    get_simps rd_simps split: if_splits)

lemma session_issues:
  assumes "same_files st st' \<and> locks st' = locks st" and "client_counter st \<noteq> - 1 \<Longrightarrow> session_step st st'"
  shows "issues 1 st st'"
proof -
  have "session_step st st'" if "unat (client_counter st) + 1 < 2 ^ 64"
    using that by (intro assms(2)) (auto simp: unsigned_minus_1_eq_mask mask_eq_exp_minus_1)
  then show ?thesis
    using assms(1) session_step_inv session_step_counter frames_wf(4) [of st st']
    by (auto simp: issues_def tables_ok_def lock_inv_def wf_kept_def)
qed

lemma session_ops_issue:
  "steps_to (issues 1) st (op_setclientid e rq p st)" "steps_to (issues 1) st (op_setclientid_confirm rq p st)"
  "steps_to (issues 1) st (op_exchange_id e rq p st)" "steps_to (issues 1) st (op_create_session e rq p st)"
  "steps_to (issues 1) st (op_destroy_session rq p st)" "steps_to (issues 1) st (op_destroy_clientid rq p st)"
  "steps_to (issues 1) st (op_sequence e rq p st)"
  by (intro steps_toI session_issues; erule steps_toD [OF session_ops_frame(1)] steps_toD [OF session_ops_frame(2)]
      steps_toD [OF session_ops_frame(3)] steps_toD [OF session_ops_frame(4)] steps_toD [OF session_ops_frame(5)]
      steps_toD [OF session_ops_frame(6)] steps_toD [OF session_ops_frame(7)] session_step.intros;
      assumption)+

lemma lock_issues: "lock_step st st' \<Longrightarrow> same_sessions st st' \<Longrightarrow> wf_kept st st' \<Longrightarrow> issues 1 st st'"
  using lock_step_inv [of st st']
  by (auto simp: issues_def tables_ok_def same_sessions_def client_inv_def wf_kept_def)

lemma lock_ops_issue:
  "steps_to (issues 1) st (op_lock rq p cur st)" "steps_to (issues 1) st (op_lockt rq p cur st)"
  "steps_to (issues 1) st (op_locku rq p cur st)"
proof -
  show "steps_to (issues 1) st (op_lock rq p cur st)"
    using steps_toD [OF lock_ops_frame(1)] steps_toD [OF op_lock_wf]
    by (intro steps_toI lock_issues step_lock) auto
  show "steps_to (issues 1) st (op_lockt rq p cur st)"
    using steps_toD [OF lock_ops_frame(2)] steps_toD [OF op_lockt_wf]
    by (intro steps_toI lock_issues step_lockt) auto
  show "steps_to (issues 1) st (op_locku rq p cur st)"
    using steps_toD [OF lock_ops_frame(3)] steps_toD [OF op_locku_wf]
    by (intro steps_toI lock_issues step_locku) auto
qed

lemmas ops_issue =
  query_ops_keep [THEN steps_mono, OF frames_issue(3)]
  op_putfh_frame [THEN steps_mono, OF frames_issue(2)] op_lookup_frame [THEN steps_mono, OF frames_issue(2)]
  op_lookupp_frame [THEN steps_mono, OF frames_issue(2)] op_readdir_frame [THEN steps_mono, OF frames_issue(2)]
  op_close_frame [THEN steps_mono, OF frames_issue(2)]
  op_open_frame [THEN steps_mono, OF frames_issue(1)] update_ops_frame [THEN steps_mono, OF frames_issue(1)]
  op_create_frame [THEN steps_mono, OF frames_issue(1)]
  session_ops_issue lock_ops_issue

lemma dispatch_issues: "steps_to (issues 1) st (dispatch_op d e opc rq p cur sv st)"
  unfolding dispatch_op_def by (intro steps_if ops_issue) simp_all

interpretation tables: op_contract d uid issues for d uid
proof
  show "issues m a b \<Longrightarrow> issues n b c \<Longrightarrow> issues (m + n) a c" for m n a b c by (rule issues_trans)
  show "issues m a b \<Longrightarrow> m \<le> n \<Longrightarrow> issues n a b" for m n a b by (rule issues_mono)
  show "dispatch_op d e opc rq p (cp_current c) (cp_saved c) st = Some (r, st') \<Longrightarrow> issues 1 st st'"
    for e opc rq p c st r st'
    by (rule steps_toD [OF dispatch_issues])
qed simp

lemma v4_request_issues:
  assumes "v4_handle_request d es rq st = Some (r, st')"
  shows "issues MAX_OPS_PER_COMPOUND st st'"
proof (cases "length rq < 24")
  case True
  with assms show ?thesis by (simp add: v4_handle_request_def)
next
  case False
  then obtain uid where "v4_caller_uid rq = Some uid"
    using assms by (auto simp: v4_handle_request_def split: bind_splits)
  from tables.request_steps [OF assms this] show ?thesis .
qed

section \<open>The lease cleanup\<close>

lemma client_inv_sub:
  assumes "client_inv st" and "clients st' = filter P (clients st)" and "sessions st' = filter Q (sessions st)"
    and "client_owner_map st' \<subseteq>\<^sub>m client_owner_map st" and "client_counter st' = client_counter st"
  shows "client_inv st'"
proof -
  have sub: "client_owner_map st' k = Some i \<Longrightarrow> client_owner_map st k = Some i" for k i
    using assms(4) by (metis domI map_le_def)
  have "inj_on (client_owner_map st') (dom (client_owner_map st'))"
  proof (rule inj_onI)
    fix a b assume a: "a \<in> dom (client_owner_map st')" "b \<in> dom (client_owner_map st')"
      "client_owner_map st' a = client_owner_map st' b"
    then obtain i where "client_owner_map st' a = Some i" "client_owner_map st' b = Some i" by auto
    from this [THEN sub] assms(1) show "a = b"
      unfolding client_inv_def inj_on_def by (metis domI)
  qed
  moreover have "ran (client_owner_map st') \<subseteq> ran (client_owner_map st)"
    using sub by (auto simp: ran_def)
  ultimately show ?thesis
    using assms(1) by (auto simp: client_inv_def assms(2,3,5) distinct_fst_filter)
qed

lemma cleanup_issues: "issues 0 st (cleanup_expired t st)"
proof -
  let ?st = "cleanup_expired t st"
  have same: "client_counter ?st = client_counter st" "locks ?st = locks st" "writeverf ?st = writeverf st"
    by (simp_all add: cleanup_expired_def Let_def)
  have "client_inv ?st" if "client_inv st"
    using client_inv_sub [OF that] cleanup_parts [of t st] remove_client_owners [of _ "(clients st, client_owner_map st)"]
    by (simp add: fold_delete_filter same)
  then show ?thesis by (simp add: issues_def tables_ok_def lock_inv_def state_wf_def table_entry_def same)
qed

section \<open>Steps of the server\<close>

text \<open>
  What the tasks of the process do to the shared state, one handled request at a time: the
  requests of the NFSv3 and NFSv4 connections and of the MOUNT server, a reload of the export
  table and the periodic cleanup, in any order.  The first number counts the steps.
\<close>

inductive server_run :: "deps \<Rightarrow> nat \<Rightarrow> nfs4 \<Rightarrow> nfs4 \<Rightarrow> bool" for d where
  start: "server_run d 0 st st"
| nfs3: "server_run d n st st1 \<Longrightarrow> v3_handle_request d e rq st1 = Some (r, st2) \<Longrightarrow> server_run d (Suc n) st st2"
| nfs4: "server_run d n st st1 \<Longrightarrow> v4_handle_request d es rq st1 = Some (r, st2) \<Longrightarrow> server_run d (Suc n) st st2"
| mount: "server_run d n st st1 \<Longrightarrow> mount_handle_request d e rq ip (em st1) = Some (r, m)
    \<Longrightarrow> server_run d (Suc n) st (st1\<lparr>em := m\<rparr>)"
| reload: "server_run d n st st1 \<Longrightarrow> server_run d (Suc n) st (st1\<lparr>em := snd (reload_exports_async d (the_fs st1) (em st1))\<rparr>)"
| cleanup: "server_run d n st st1 \<Longrightarrow> server_run d (Suc n) st (cleanup_expired t st1)"

inductive_cases server_run_zero: "server_run d 0 st st'"

lemma server_run_trans: "server_run d n st2 st3 \<Longrightarrow> server_run d m st1 st2 \<Longrightarrow> server_run d (m + n) st1 st3"
  by (induction rule: server_run.induct) (auto intro: server_run.intros)

lemma server_run_issues: "server_run d n st st' \<Longrightarrow> issues (MAX_OPS_PER_COMPOUND * n) st st'"
proof (induction rule: server_run.induct)
  case (nfs3 n st st1 e rq r st2)
  show ?case by (rule issues_mono [OF issues_trans [OF nfs3(3) frames_issue(4) [OF v3_request_frame [OF nfs3(2)]]]])
      (simp add: MAX_OPS_PER_COMPOUND_def)
next
  case (nfs4 n st st1 es rq r st2)
  show ?case by (rule issues_mono [OF issues_trans [OF nfs4(3) v4_request_issues [OF nfs4(2)]]])
      (simp add: MAX_OPS_PER_COMPOUND_def)
next
  case (mount n st st1 e rq ip r m)
  have "same_tables st1 (st1\<lparr>em := m\<rparr>)" by (simp add: same_tables_def)
  then show ?case by (intro issues_mono [OF issues_trans [OF mount(3) frames_issue(4)]]) (simp_all add: MAX_OPS_PER_COMPOUND_def)
next
  case (reload n st st1)
  have "same_tables st1 (st1\<lparr>em := snd (reload_exports_async d (the_fs st1) (em st1))\<rparr>)" by (simp add: same_tables_def)
  then show ?case by (intro issues_mono [OF issues_trans [OF reload(2) frames_issue(4)]]) (simp_all add: MAX_OPS_PER_COMPOUND_def)
next
  case (cleanup n st st1 t)
  show ?case by (rule issues_mono [OF issues_trans [OF cleanup(2) cleanup_issues]]) (simp add: MAX_OPS_PER_COMPOUND_def)
qed simp

lemma tables_ok_new: "tables_ok (nfs4_new e s m)"
  by (simp add: tables_ok_def client_inv_new lock_inv_new state_wf_new)

text \<open>
  In every state the server reaches from its start, whatever requests of NFSv3, NFSv4 and
  MOUNT arrive and whenever exports are reloaded and leases expire, client ids and sessions are
  unique, different owners have different client ids, and the locks granted on one table entry
  are pairwise compatible.
\<close>

theorem server_tables_sound:
  assumes "server_run d n (nfs4_new e s m) st" and "n < 2 ^ 57"
  shows "distinct (map fst (clients st)) \<and> distinct (map fst (sessions st))
    \<and> inj_on (client_owner_map st) (dom (client_owner_map st))
    \<and> (\<forall>k ls. locks st k = Some ls \<longrightarrow> sorted_wrt compatible ls) \<and> state_wf st"
proof -
  have "unat (client_counter (nfs4_new e s m)) + MAX_OPS_PER_COMPOUND * n < 2 ^ 64"
    using assms(2) by (simp add: nfs4_new_def MAX_OPS_PER_COMPOUND_def)
  with server_run_issues [OF assms(1)] tables_ok_new [of e s m] have "tables_ok st"
    by (simp add: issues_def)
  then show ?thesis by (simp add: tables_ok_def client_inv_def lock_inv_def)
qed

theorem server_tables_sound_witness:
  "\<exists>st. server_run sample_deps 2 (sample_server default_options) st \<and> distinct (map fst (clients st)) \<and> state_wf st"
proof -
  obtain b where r: "v4_handle_request sample_deps (\<lambda>_. sample_env) (root_call (compound_args 2 remove_ops))
      (sample_server default_options) = Some (Some b, sample_server default_options)"
    unfolding root_call_handled root_remove_refused by simp
  have "server_run sample_deps (Suc (Suc 0)) (sample_server default_options)
      (cleanup_expired 5 (sample_server default_options))"
    by (rule server_run.cleanup [OF server_run.nfs4 [OF server_run.start r]])
  then have run: "server_run sample_deps 2 (sample_server default_options)
      (cleanup_expired 5 (sample_server default_options))" by (simp add: numeral_2_eq_2)
  from server_tables_sound [OF run [unfolded sample_server_def]] run show ?thesis
    by (auto simp: sample_server_def)
qed

section \<open>The protocol handlers on the transports\<close>

text \<open>
  The handlers the transport of \<open>Record_Stream\<close> calls, on the model's own NFSv3 and
  NFSv4 servers.  \<open>es\<close> lists what the environment (clock, random bytes) shows to one
  request or operation after another; the second component of the state is the index reached.
\<close>

definition v3_at :: "deps \<Rightarrow> (nat \<Rightarrow> env) \<Rightarrow> (nfs4 \<times> nat) handler" where
  "v3_at d es s rq =
     map_option (\<lambda>(r, st). (r, (st, snd s + 1))) (v3_handle_request d (es (snd s)) rq (fst s))"

definition v4_at :: "deps \<Rightarrow> (nat \<Rightarrow> env) \<Rightarrow> (nfs4 \<times> nat) handler" where
  "v4_at d es s rq =
     map_option (\<lambda>(r, st). (r, (st, snd s + MAX_OPS_PER_COMPOUND)))
       (v4_handle_request d (\<lambda>n. es (snd s + MAX_OPS_PER_COMPOUND - n)) rq (fst s))"

definition nfs_tcp :: "deps \<Rightarrow> (nat \<Rightarrow> env) \<Rightarrow> (nat \<Rightarrow> bool) \<Rightarrow> read_event list \<Rightarrow> nfs4 \<Rightarrow> (nfs4 \<times> nat) conn" where
  "nfs_tcp d es write_fails evs st = handle_nfs_stream write_fails (v3_at d es) (v4_at d es) evs (st, 0)"

text \<open>What a connection does to the server, for a handler that does \<open>R n\<close> on \<open>n\<close> bytes.\<close>

fun received :: "read_event list \<Rightarrow> nat" where
  "received [] = 0"
| "received (Data d # evs) = length d + received evs"
| "received (Read_error # evs) = received evs"

locale stream_contract =
  fixes h :: "'s handler" and R :: "nat \<Rightarrow> 's \<Rightarrow> 's \<Rightarrow> bool"
  assumes R_refl: "R n s s"
    and R_trans: "R m s1 s2 \<Longrightarrow> R n s2 s3 \<Longrightarrow> R (m + n) s1 s3"
    and R_mono: "R m s1 s2 \<Longrightarrow> m \<le> n \<Longrightarrow> R n s1 s2"
    and R_request: "h s rq = Some (r, s') \<Longrightarrow> R (4 + length rq) s s'"
begin

lemma drain_R:
  assumes "g = h"
  shows "length (recv_buf (drain_records f g b c)) \<le> length b
     \<and> R (length b - length (recv_buf (drain_records f g b c))) (server c) (server (drain_records f g b c))"
  using assms
proof (induction f g b c rule: drain_records.induct)
  case (1 f g b c)
  have "g = h" by (fact "1.prems")
  show ?case
  proof (cases "conn_status c = Open")
    case False
    then show ?thesis by (simp add: drain_records.simps R_refl)
  next
    case o: True
    show ?thesis
    proof (cases "next_record b")
      case (Skip4 r)
      with o have "drain_records f g b c = drain_records f g r c" by (simp add: drain_records.simps [of f g b])
      then show ?thesis using "1.IH"(1) [OF _ Skip4 \<open>g = h\<close>] o next_record_shorter(1) [OF Skip4] by (auto intro: R_mono)
    next
      case (Rec d r)
      note len = next_record_split [OF Rec]
      show ?thesis
      proof (cases "g (server c) d")
        case None
        with o Rec len show ?thesis by (simp add: drain_records.simps [of f g b] R_refl)
      next
        case (Some x)
        then obtain resp s1 where h: "g (server c) d = Some (resp, s1)" by (cases x) auto
        let ?c = "send_response f resp (c\<lparr>server := s1\<rparr>)"
        from o Rec h have eq: "drain_records f g b c = drain_records f g r ?c"
          by (simp add: drain_records.simps [of f g b])
        have ih: "length (recv_buf (drain_records f g r ?c)) \<le> length r"
          "R (length r - length (recv_buf (drain_records f g r ?c))) s1 (server (drain_records f g r ?c))"
          using "1.IH"(2) [OF _ Rec _ refl \<open>g = h\<close>] o h by simp_all
        from R_trans [OF R_request [OF h [unfolded \<open>g = h\<close>]] ih(2)] ih(1) len show ?thesis by (simp add: eq)
      qed
    qed (simp_all add: o drain_records.simps [of f g b] R_refl)
  qed
qed

lemma serve_R: "R (length (recv_buf c) + received evs) (server c) (server (serve f h evs c))"
proof (induction evs arbitrary: c)
  case Nil
  from drain_R [OF refl, of f "recv_buf c" c] show ?case
    by (auto simp: serve.simps [of f h "[]"] Let_def intro: R_mono)
next
  case (Cons ev rest)
  let ?c1 = "drain_records f h (recv_buf c) c"
  note d = drain_R [OF refl, of f "recv_buf c" c]
  have now: "R (length (recv_buf c) + n) (server c) (server ?c1)" for n
    using d by (auto intro: R_mono)
  show ?case
  proof (cases "conn_status ?c1 = Open \<and> (\<exists>x. ev = Data x \<and> x \<noteq> [] \<and> length (recv_buf ?c1 @ x) \<le> MAX_RECV_BUF)")
    case False
    then have "server (serve f h (ev # rest) c) = server ?c1"
      by (subst serve.simps, cases ev) (auto simp: Let_def)
    with now show ?thesis by simp
  next
    case True
    then obtain x where x: "ev = Data x" "x \<noteq> []" "length (recv_buf ?c1 @ x) \<le> MAX_RECV_BUF"
      and o: "conn_status ?c1 = Open" by auto
    let ?c2 = "?c1\<lparr>recv_buf := recv_buf ?c1 @ x\<rparr>"
    from x o have eq: "serve f h (ev # rest) c = serve f h rest ?c2"
      by (simp add: serve.simps [of f h "Data x # rest"] Let_def)
    have "R (length (recv_buf ?c2) + received rest) (server ?c1) (server (serve f h rest ?c2))"
      using Cons.IH [of ?c2] by simp
    from R_trans [OF conjunct2 [OF d] this] d show ?thesis
      unfolding x(1) eq [unfolded x(1)] by simp
  qed
qed

end

text \<open>One request is one step of the server, or none.\<close>

definition steps_in :: "deps \<Rightarrow> nat \<Rightarrow> nfs4 \<times> nat \<Rightarrow> nfs4 \<times> nat \<Rightarrow> bool" where
  "steps_in d k s s' \<longleftrightarrow> (\<exists>n. 24 * n \<le> k \<and> server_run d n (fst s) (fst s'))"

lemma steps_in_one: "server_run d (Suc 0) (fst s) (fst s') \<Longrightarrow> 24 \<le> k \<Longrightarrow> steps_in d k s s'"
  unfolding steps_in_def by (intro exI [of _ "Suc 0"]) simp

lemma steps_in_refl: "steps_in d k s s"
  unfolding steps_in_def by (intro exI [of _ 0]) (simp add: server_run.start)

lemma tcp_route_steps:
  assumes "tcp_route (v3_at d es) (v4_at d es) s rq = Some (r, s')"
  shows "steps_in d (4 + length rq) s s'"
proof -
  from assms have len: "24 \<le> 4 + length rq"
    by (auto simp: tcp_route_def rd32_def split: bind_splits if_splits)
  from assms consider "v4_at d es s rq = Some (r, s')" | "v3_at d es s rq = Some (r, s')" | "s' = s"
    by (auto simp: tcp_route_def split: bind_splits if_splits)
  then show ?thesis
  proof cases
    case 1
    then obtain st where "v4_handle_request d (\<lambda>n. es (snd s + MAX_OPS_PER_COMPOUND - n)) rq (fst s) = Some (r, st)"
      "fst s' = st" by (auto simp: v4_at_def)
    then show ?thesis using len by (auto intro!: steps_in_one server_run.nfs4 [OF server_run.start])
  next
    case 2
    then obtain st where "v3_handle_request d (es (snd s)) rq (fst s) = Some (r, st)" "fst s' = st"
      by (auto simp: v3_at_def)
    then show ?thesis using len by (auto intro!: steps_in_one server_run.nfs3 [OF server_run.start])
  qed (simp add: steps_in_refl)
qed

interpretation nfs_stream: stream_contract "tcp_route (v3_at d es) (v4_at d es)" "steps_in d" for d es
proof
  show "steps_in d n s s" for n s by (rule steps_in_refl)
  show "steps_in d (m + n) s1 s3" if a: "steps_in d m s1 s2" and b: "steps_in d n s2 s3" for m n s1 s2 s3
  proof -
    from a obtain i where i: "24 * i \<le> m" "server_run d i (fst s1) (fst s2)" by (auto simp: steps_in_def)
    from b obtain j where j: "24 * j \<le> n" "server_run d j (fst s2) (fst s3)" by (auto simp: steps_in_def)
    from server_run_trans [OF j(2) i(2)] i(1) j(1) show ?thesis
      unfolding steps_in_def by (intro exI [of _ "i + j"]) simp
  qed
  show "steps_in d m s1 s2 \<Longrightarrow> m \<le> n \<Longrightarrow> steps_in d n s1 s2" for m n s1 s2
    unfolding steps_in_def by (meson order_trans)
  show "tcp_route (v3_at d es) (v4_at d es) s rq = Some (r, s') \<Longrightarrow> steps_in d (4 + length rq) s s'" for s rq r s'
    by (rule tcp_route_steps)
qed

text \<open>
  Whatever bytes a TCP client sends, in whatever pieces, and however the connection ends,
  what it did to the server is a run of requests, at most one for every 24 bytes received.
\<close>

theorem tcp_connection_refines_requests:
  "\<exists>n. 24 * n \<le> received evs \<and> server_run d n st (fst (server (nfs_tcp d es write_fails evs st)))"
proof -
  have "steps_in d (received evs) (st, 0) (server (nfs_tcp d es write_fails evs st))"
    using nfs_stream.serve_R [where c = "conn_start (st, 0)" and evs = evs and d = d and es = es and f = write_fails]
    by (simp add: nfs_tcp_def handle_nfs_stream_def conn_start_def)
  then show ?thesis by (simp add: steps_in_def)
qed

end
