(* ===== verification/Portmap.thy ===== *)
theory Portmap
  imports Rpc
begin

text \<open>
  The PORTMAP / RPCBIND service (\<open>src/nfs/portmap.rs\<close>): the key packing of
  \<open>make_key\<close>, the static table of \<open>initialize_mappings\<close> and the request handler.
  The UDP and TCP loops around the handler are socket I/O and are not modelled.
\<close>

section \<open>State\<close>

record port_mapping =
  pm_program :: u32
  pm_version :: u32
  pm_protocol :: u32
  pm_port :: u32

type_synonym port_table = "u64 \<rightharpoonup> port_mapping"

definition PORTMAP_PROGRAM :: u32 where "PORTMAP_PROGRAM = 100000"
definition IPPROTO_TCP :: u32 where "IPPROTO_TCP = 6"
definition IPPROTO_UDP :: u32 where "IPPROTO_UDP = 17"

definition make_key :: "u32 \<Rightarrow> u32 \<Rightarrow> u32 \<Rightarrow> u64" where
  "make_key program version protocol =
     push_bit 32 (ucast program) OR push_bit 8 (ucast version) OR ucast protocol"

definition initial_entries :: "(u32 \<times> u32 \<times> u32 \<times> u32) list" where
  "initial_entries =
    [(PORTMAP_PROGRAM, 2, IPPROTO_TCP, 111), (PORTMAP_PROGRAM, 2, IPPROTO_UDP, 111),
     (100005, 3, IPPROTO_TCP, 20048), (100005, 3, IPPROTO_UDP, 20048),
     (100005, 1, IPPROTO_TCP, 20048), (100005, 1, IPPROTO_UDP, 20048),
     (100003, 3, IPPROTO_TCP, 2049), (100003, 3, IPPROTO_UDP, 2049),
     (100003, 4, IPPROTO_TCP, 2049), (100003, 4, IPPROTO_UDP, 2049)]"

definition insert_entry :: "(u32 \<times> u32 \<times> u32 \<times> u32) \<Rightarrow> port_table \<Rightarrow> port_table" where
  "insert_entry e m = (case e of (prog, ver, proto, port) \<Rightarrow>
     m(make_key prog ver proto \<mapsto>
        \<lparr>pm_program = prog, pm_version = ver, pm_protocol = proto, pm_port = port\<rparr>))"

definition initialize_mappings :: "port_table \<Rightarrow> port_table" where
  "initialize_mappings m = fold insert_entry initial_entries m"

section \<open>Request handler\<close>

definition portmap_lookup :: "port_table \<Rightarrow> u64 \<Rightarrow> u32" where
  "portmap_lookup m key = (case m key of Some mapping \<Rightarrow> pm_port mapping | None \<Rightarrow> 0)"

text \<open>
  \<open>handle_request_static\<close>.  Outer \<open>None\<close>: panic; inner \<open>None\<close>: no reply.
\<close>

definition portmap_dispatch :: "port_table \<Rightarrow> bytes \<Rightarrow> u32 \<Rightarrow> nat \<Rightarrow> u32 \<Rightarrow> bytes option option" where
  "portmap_dispatch mappings request xid offset procedure =
     (if procedure = 0 then Some (Some (portmap_accept_reply xid ACC_SUCCESS []))
      else if procedure = 3 then
        (if length request < offset + 16
         then Some (Some (portmap_accept_reply xid ACC_GARBAGE_ARGS []))
         else do {
           args_prog \<leftarrow> rd32 request offset;
           args_ver \<leftarrow> rd32 request (offset + 4);
           args_proto \<leftarrow> rd32 request (offset + 8);
           let key = make_key args_prog args_ver args_proto;
           Some (Some (portmap_accept_reply xid ACC_SUCCESS (be32 (portmap_lookup mappings key))))
         })
      else if procedure = 4 then Some (Some (portmap_accept_reply xid ACC_SUCCESS [0, 0, 0, 0]))
      else Some (Some (portmap_accept_reply xid ACC_PROC_UNAVAIL [])))"

definition portmap_handle_request :: "port_table \<Rightarrow> bytes \<Rightarrow> bytes option option" where
  "portmap_handle_request mappings request =
     (if length request < 28 then Some None
      else do {
        xid \<leftarrow> rd32 request 0;
        msg_type \<leftarrow> rd32 request 4;
        if msg_type \<noteq> RPC_CALL then Some None
        else do {
          program \<leftarrow> rd32 request 12;
          version \<leftarrow> rd32 request 16;
          procedure \<leftarrow> rd32 request 20;
          let offset = (24::nat);
          if length request < offset + 8
          then Some (Some (portmap_accept_reply xid ACC_GARBAGE_ARGS []))
          else do {
            cred_len \<leftarrow> rd32 request (offset + 4);
            let offset = offset + 8 + pad4 (unat cred_len);
            if length request < offset + 8
            then Some (Some (portmap_accept_reply xid ACC_GARBAGE_ARGS []))
            else do {
              verif_len \<leftarrow> rd32 request (offset + 4);
              let offset = offset + 8 + pad4 (unat verif_len);
              portmap_dispatch mappings request xid offset procedure
            }
          }
        }
      })"

section \<open>Properties\<close>

lemma portmap_dispatch_no_panic: "portmap_dispatch m r x off p \<noteq> None"
  by (simp add: portmap_dispatch_def rd_simps Let_def)

lemma portmap_handle_no_panic: "portmap_handle_request m r \<noteq> None"
  by (simp add: portmap_handle_request_def rd_simps Let_def portmap_dispatch_no_panic
      del: not_None_eq)

text \<open>The three fields of a key occupy disjoint bits when they are in range.\<close>

lemma make_key_bits:
  "bit (make_key p v t) n \<longleftrightarrow>
     (n < 64 \<and> 32 \<le> n \<and> bit p (n - 32)) \<or> (8 \<le> n \<and> n < 64 \<and> bit v (n - 8)) \<or> (n < 64 \<and> bit t n)"
  by (auto simp: make_key_def bit_simps)

lemma small_word_bit: "(w :: 'a::len word) < 2 ^ k \<Longrightarrow> k \<le> n \<Longrightarrow> k < LENGTH('a) \<Longrightarrow> \<not> bit w n"
proof -
  assume a: "w < 2 ^ k" "k \<le> n" "k < LENGTH('a)"
  have "unat ((2 :: 'a word) ^ k) = 2 ^ k"
  proof -
    have "unat (of_nat (2 ^ k) :: 'a word) = 2 ^ k mod 2 ^ LENGTH('a)"
      by (rule unat_of_nat)
    then show ?thesis using a(3) by simp
  qed
  with a(1) have "unat w < 2 ^ k" by (simp add: word_less_nat_alt)
  then have "take_bit k (unat w) = unat w" by (simp add: take_bit_nat_eq_self)
  then have "take_bit k w = w" by (metis unsigned_take_bit_eq word_unat_eq_iff a(3) min.absorb1 less_imp_le)
  then show ?thesis using a(2) by (metis bit_take_bit_iff not_less)
qed

lemma make_key_inj:
  assumes "make_key p v t = make_key p' v' t'"
    and "v < 2 ^ 24" "v' < 2 ^ 24" "t < 2 ^ 8" "t' < 2 ^ 8"
  shows "p = p' \<and> v = v' \<and> t = t'"
proof -
  have eq: "bit (make_key p v t) n = bit (make_key p' v' t') n" for n using assms(1) by simp
  have hv: "\<not> bit v n" "\<not> bit v' n" if "24 \<le> n" for n
    using small_word_bit [of v 24 n] small_word_bit [of v' 24 n] assms(2,3) that by simp_all
  have ht: "\<not> bit t n" "\<not> bit t' n" if "8 \<le> n" for n
    using small_word_bit [of t 8 n] small_word_bit [of t' 8 n] assms(4,5) that by simp_all
  have "p = p'"
  proof (rule bit_word_eqI)
    fix n assume n: "n < LENGTH(32)"
    show "bit p n = bit p' n"
      using eq [of "n + 32"] n by (simp add: make_key_bits hv ht)
  qed
  moreover have "v = v'"
  proof (rule bit_word_eqI)
    fix n assume n: "n < LENGTH(32)"
    show "bit v n = bit v' n"
      using eq [of "n + 8"] n hv [of n] by (cases "n < 24") (simp_all add: make_key_bits ht)
  qed
  moreover have "t = t'"
  proof (rule bit_word_eqI)
    fix n assume n: "n < LENGTH(32)"
    show "bit t n = bit t' n"
      using eq [of n] n ht [of n] by (cases "n < 8") (simp_all add: make_key_bits)
  qed
  ultimately show ?thesis by blast
qed

subsection \<open>GETPORT against the registered services\<close>

text \<open>What the table promises: the port of the registered triple, 0 for any other.\<close>

definition registered_port :: "u32 \<Rightarrow> u32 \<Rightarrow> u32 \<Rightarrow> u32" where
  "registered_port prog ver proto =
     (case map_of (map (\<lambda>(p, v, t, port). ((p, v, t), port)) initial_entries) (prog, ver, proto) of
        Some port \<Rightarrow> port | None \<Rightarrow> 0)"

definition in_range_entry :: "u32 \<times> u32 \<times> u32 \<times> u32 \<Rightarrow> bool" where
  "in_range_entry e = (case e of (p, v, t, port) \<Rightarrow> v < 2 ^ 24 \<and> t < 2 ^ 8)"

lemma portmap_lookup_fold:
  assumes "\<forall>e \<in> set es. in_range_entry e" and "v < 2 ^ 24" and "t < 2 ^ 8"
    and "distinct (map (\<lambda>(p, v, t, port). (p, v, t)) es)"
  shows "portmap_lookup (fold insert_entry es m) (make_key p v t) =
    (case map_of (map (\<lambda>(p, v, t, port). ((p, v, t), port)) es) (p, v, t) of
       Some port \<Rightarrow> port | None \<Rightarrow> portmap_lookup m (make_key p v t))"
  using assms(1,4)
proof (induction es arbitrary: m)
  case Nil
  then show ?case by simp
next
  case (Cons e es)
  obtain p' v' t' q where e: "e = (p', v', t', q)" by (cases e)
  have r: "v' < 2 ^ 24" "t' < 2 ^ 8" using Cons.prems(1) by (simp_all add: e in_range_entry_def)
  have k: "make_key p v t = make_key p' v' t' \<longleftrightarrow> (p, v, t) = (p', v', t')"
    using make_key_inj [of p v t p' v' t'] r assms(2,3) by auto
  have IH: "portmap_lookup (fold insert_entry es (insert_entry e m)) (make_key p v t) =
    (case map_of (map (\<lambda>(p, v, t, port). ((p, v, t), port)) es) (p, v, t) of
       Some port \<Rightarrow> port | None \<Rightarrow> portmap_lookup (insert_entry e m) (make_key p v t))"
    using Cons by simp
  have new: "portmap_lookup (insert_entry e m) (make_key p v t)
      = (if (p, v, t) = (p', v', t') then q else portmap_lookup m (make_key p v t))"
    using k by (auto simp: insert_entry_def e portmap_lookup_def)
  have d: "map_of (map (\<lambda>(p, v, t, port). ((p, v, t), port)) es) (p', v', t') = None"
    using Cons.prems(2) by (force simp: e map_of_eq_None_iff)
  show ?case
    using IH new d by (auto simp: e split: option.splits)
qed

lemma portmap_lookup_initial:
  assumes "v < 2 ^ 24" and "t < 2 ^ 8"
  shows "portmap_lookup (initialize_mappings Map.empty) (make_key p v t) = registered_port p v t"
proof -
  have r: "\<forall>e \<in> set initial_entries. in_range_entry e"
    by (simp add: initial_entries_def in_range_entry_def IPPROTO_TCP_def IPPROTO_UDP_def)
  have d: "distinct (map (\<lambda>(p, v, t, port). (p, v, t)) initial_entries)"
    by (simp add: initial_entries_def IPPROTO_TCP_def IPPROTO_UDP_def PORTMAP_PROGRAM_def)
  have z: "portmap_lookup Map.empty k = 0" for k by (simp add: portmap_lookup_def)
  show ?thesis
    using portmap_lookup_fold [OF r assms d, of Map.empty p]
    by (simp add: initialize_mappings_def registered_port_def z cong: option.case_cong)
qed

text \<open>The arguments of a GETPORT call as a client sends them.\<close>

definition getport_args :: "u32 \<Rightarrow> u32 \<Rightarrow> u32 \<Rightarrow> u32 \<Rightarrow> bytes" where
  "getport_args prog ver proto port = be32 prog @ be32 ver @ be32 proto @ be32 port"

text \<open>
  C33: GETPORT answers every well-formed call with the registered port of the triple and
  with 0 for an unregistered one, for versions below \<open>2 ^ 24\<close> and protocol numbers
  below 256 (where \<open>make_key\<close> packs its fields into disjoint bits).
\<close>

theorem getport_correct:
  assumes "length cred < 2 ^ 32" "length verif < 2 ^ 32" "v < 2 ^ 24" "t < 2 ^ 8"
  shows "portmap_handle_request (initialize_mappings Map.empty)
      (rpc_call_header xid 100000 2 3 fl cred vfl verif @ getport_args p v t q)
    = Some (Some (portmap_accept_reply xid ACC_SUCCESS (be32 (registered_port p v t))))"
proof -
  let ?a = "getport_args p v t q"
  let ?b = "rpc_call_header xid 100000 2 3 fl cred vfl verif @ ?a"
  let ?o = "40 + pad4 (length cred) + pad4 (length verif)"
  note h = rpc_call_header_reads [of xid 100000 2 3 fl cred vfl verif ?a]
  have o: "length (rpc_call_header xid 100000 2 3 fl cred vfl verif) = ?o"
    by (simp add: rpc_call_header_def)
  have n: "unat (of_nat (length cred) :: u32) = length cred"
    "unat (of_nat (length verif) :: u32) = length verif"
    using assms(1,2) by (simp_all add: unat_of_nat_u32)
  have a: "rd32 ?b ?o = Some p" "rd32 ?b (?o + 4) = Some v" "rd32 ?b (?o + 8) = Some t"
    using u32.dec_shift [of "rpc_call_header xid 100000 2 3 fl cred vfl verif" ?a 0]
      u32.dec_shift [of "rpc_call_header xid 100000 2 3 fl cred vfl verif" ?a 4]
      u32.dec_shift [of "rpc_call_header xid 100000 2 3 fl cred vfl verif" ?a 8]
    by (simp_all add: o getport_args_def rd32_def)
  have "portmap_dispatch (initialize_mappings Map.empty) ?b xid ?o 3
    = Some (Some (portmap_accept_reply xid ACC_SUCCESS (be32 (registered_port p v t))))"
    using a h(8) by (simp add: portmap_dispatch_def Let_def getport_args_def
      portmap_lookup_initial [OF assms(3,4)])
  then show ?thesis
    using h n by (simp add: portmap_handle_request_def Let_def add.assoc getport_args_def)
qed

theorem getport_correct_witness:
  "portmap_handle_request (initialize_mappings Map.empty)
      (rpc_call_header 7 100000 2 3 0 [] 0 [] @ getport_args 100003 4 6 0)
    = Some (Some (portmap_accept_reply 7 ACC_SUCCESS (be32 2049)))"
proof -
  have "registered_port 100003 4 6 = 2049"
    by (simp add: registered_port_def initial_entries_def PORTMAP_PROGRAM_def IPPROTO_TCP_def
      IPPROTO_UDP_def)
  then show ?thesis
    using getport_correct [of "[]" "[]" 4 6 7 0 0 100003 0] by simp
qed

text \<open>
  Outside that range two triples can share a key: protocol number \<open>0x306\<close> of version 0
  is taken for TCP of version 3, and the port of a registered service is returned for an
  unregistered triple.
\<close>

lemma make_key_collision:
  "make_key 100003 0 0x306 = make_key 100003 3 6"
  "portmap_lookup (initialize_mappings Map.empty) (make_key 100003 0 0x306) = 2049"
  "registered_port 100003 0 0x306 = 0"
proof -
  show k: "make_key 100003 0 0x306 = make_key 100003 3 6" by (simp add: make_key_def)
  have "portmap_lookup (initialize_mappings Map.empty) (make_key 100003 3 6) = registered_port 100003 3 6"
    by (rule portmap_lookup_initial) simp_all
  also have "\<dots> = 2049"
    by (simp add: registered_port_def initial_entries_def PORTMAP_PROGRAM_def IPPROTO_TCP_def
      IPPROTO_UDP_def)
  finally show "portmap_lookup (initialize_mappings Map.empty) (make_key 100003 0 0x306) = 2049"
    by (simp add: k)
  show "registered_port 100003 0 0x306 = 0"
    by (simp add: registered_port_def initial_entries_def PORTMAP_PROGRAM_def IPPROTO_TCP_def
      IPPROTO_UDP_def)
qed

end
