(* ===== verification/Framed_Stream.thy ===== *)
theory Framed_Stream
  imports Server Portmap
begin

text \<open>
  The transports of the two small servers: the UDP and TCP loops of \<open>src/nfs/portmap.rs\<close> and
  \<open>src/nfs/mount.rs\<close> (\<open>run_udp\<close>, \<open>run_tcp\<close>).  The TCP loops read a record mark and then the
  fragment with \<open>read_exact\<close>; they do not look at the last-fragment bit.
\<close>

section \<open>The TCP loop\<close>

text \<open>
  What \<open>read_exact\<close> finds in the unread bytes of the stream: with fewer bytes the task waits, and
  leaves its loop when the stream ends.  The buffer grows with the fragments, so the fragment is
  all that is read into it.
\<close>

definition MAX_FRAGMENT :: nat where "MAX_FRAGMENT = 65536"

definition read_exact :: "nat \<Rightarrow> bytes \<Rightarrow> (bytes \<times> bytes) option" where
  "read_exact n b = (if length b < n then None else Some (take n b, drop n b))"

definition next_fragment :: "bytes \<Rightarrow> rec_step" where
  "next_fragment b =
     (case read_exact 4 b of
        None \<Rightarrow> More
      | Some (hdr, rest) \<Rightarrow>
          (let rm = u32_at hdr 0;
               len = unat (rm AND 0x7FFFFFFF)
           in if len = 0 \<or> len > MAX_FRAGMENT then Drop
              else case read_exact len rest of
                  None \<Rightarrow> More
                | Some (data, rest') \<Rightarrow> Rec data rest'))"

lemma next_fragment_cases:
  "next_fragment b \<noteq> Skip4 r"
  "next_fragment b = Rec x r \<Longrightarrow> length b = 4 + length x + length r \<and> 0 < length x \<and> length x \<le> MAX_FRAGMENT"
  by (auto simp: next_fragment_def read_exact_def Let_def split: if_splits)

function framed_loop :: "(nat \<Rightarrow> bool) \<Rightarrow> 's handler \<Rightarrow> bytes \<Rightarrow> 's conn \<Rightarrow> 's conn" where
  "framed_loop wfail h b c =
     (if conn_status c \<noteq> Open then c\<lparr>recv_buf := b\<rparr>
      else case next_fragment b of
        Rec data r \<Rightarrow>
          (case h (server c) data of
             None \<Rightarrow> c\<lparr>recv_buf := r, conn_status := Panicked\<rparr>
           | Some (resp, s') \<Rightarrow> framed_loop wfail h r (send_response wfail resp (c\<lparr>server := s'\<rparr>)))
      | More \<Rightarrow> c\<lparr>recv_buf := b\<rparr>
      | _ \<Rightarrow> c\<lparr>recv_buf := b, conn_status := Dropped\<rparr>)"
  by pat_completeness auto
termination
  by (relation "measure (\<lambda>(wfail, h, b, c). length b)") (auto dest: next_fragment_cases(2))

declare framed_loop.simps [simp del]

text \<open>The handlers of the two servers; \<open>es\<close> shows the environment of one request after another.\<close>

definition portmap_at :: "port_table handler" where
  "portmap_at m rq = map_option (\<lambda>r. (r, m)) (portmap_handle_request m rq)"

definition mount_at :: "deps \<Rightarrow> (nat \<Rightarrow> env) \<Rightarrow> ip_addr \<Rightarrow> (nfs4 \<times> nat) handler" where
  "mount_at d es client_ip s rq =
     map_option (\<lambda>(r, m). (r, (fst s)\<lparr>em := m\<rparr>, snd s + 1))
       (mount_handle_request d (es (snd s)) rq client_ip (em (fst s)))"

definition portmap_tcp :: "(nat \<Rightarrow> bool) \<Rightarrow> bytes \<Rightarrow> port_table \<Rightarrow> port_table conn" where
  "portmap_tcp wfail b m = framed_loop wfail portmap_at b (conn_start m)"

definition mount_tcp :: "deps \<Rightarrow> (nat \<Rightarrow> env) \<Rightarrow> ip_addr \<Rightarrow> (nat \<Rightarrow> bool) \<Rightarrow> bytes \<Rightarrow> nfs4 \<Rightarrow> (nfs4 \<times> nat) conn" where
  "mount_tcp d es client_ip wfail b st = framed_loop wfail (mount_at d es client_ip) b (conn_start (st, 0))"

section \<open>The UDP loop\<close>

text \<open>
  \<open>recv_from\<close> delivers the bytes of one datagram, at most the size of the buffer, or an error.
  A send that fails is only logged.
\<close>

datatype udp_event = Received bytes ip_addr | Recv_error

fun udp_loop :: "(ip_addr \<Rightarrow> 's handler) \<Rightarrow> udp_event list \<Rightarrow> 's \<Rightarrow> ((bytes \<times> ip_addr) list \<times> 's) option" where
  "udp_loop h [] s = Some ([], s)"
| "udp_loop h (Recv_error # evs) s = udp_loop h evs s"
| "udp_loop h (Received data addr # evs) s = do {
     (resp, s1) \<leftarrow> h addr s data;
     (out, s2) \<leftarrow> udp_loop h evs s1;
     Some ((case resp of None \<Rightarrow> [] | Some r \<Rightarrow> [(r, addr)]) @ out, s2)
   }"

definition portmap_udp :: "udp_event list \<Rightarrow> port_table \<Rightarrow> ((bytes \<times> ip_addr) list \<times> port_table) option" where
  "portmap_udp evs m = udp_loop (\<lambda>_. portmap_at) evs m"

definition mount_udp :: "deps \<Rightarrow> (nat \<Rightarrow> env) \<Rightarrow> udp_event list \<Rightarrow> nfs4 \<Rightarrow> ((bytes \<times> ip_addr) list \<times> (nfs4 \<times> nat)) option" where
  "mount_udp d es evs st = udp_loop (mount_at d es) evs (st, 0)"

text \<open>
  The UDP task of the NFS server (\<open>start_unified_nfs\<close> in \<open>src/nfs/mod.rs\<close>) handles one datagram
  after the other with \<open>udp_datagram\<close>.
\<close>

definition nfs_udp :: "deps \<Rightarrow> (nat \<Rightarrow> env) \<Rightarrow> udp_event list \<Rightarrow> nfs4 \<Rightarrow> ((bytes \<times> ip_addr) list \<times> (nfs4 \<times> nat)) option" where
  "nfs_udp d es evs st = udp_loop (\<lambda>_. udp_datagram (v3_at d es) (v4_at d es)) evs (st, 0)"

section \<open>Neither of the small servers panics on its transports\<close>

lemma total_handlers:
  "portmap_at m rq \<noteq> None" "mount_at d es ip s rq \<noteq> None"
  by (simp_all add: portmap_at_def mount_at_def portmap_handle_no_panic mount_never_panics del: not_None_eq)

lemma send_response_status:
  "conn_status c = Open \<Longrightarrow> conn_status (send_response f r c) \<noteq> Panicked"
  by (auto simp: send_response_def split: option.split)

lemma framed_loop_status:
  assumes "\<And>s rq. h s rq \<noteq> None" and "conn_status c \<noteq> Panicked"
  shows "conn_status (framed_loop f h b c) \<noteq> Panicked"
  using assms
proof (induction f h b c rule: framed_loop.induct)
  case (1 f h b c)
  show ?case
  proof (cases "conn_status c = Open")
    case False
    with 1(3) show ?thesis by (simp add: framed_loop.simps)
  next
    case o: True
    show ?thesis
    proof (cases "next_fragment b")
      case (Rec x r)
      from 1(2) obtain resp s' where h: "h (server c) x = Some (resp, s')" by fastforce
      from 1(1) [OF _ Rec h refl 1(2)] o h Rec send_response_status [of "c\<lparr>server := s'\<rparr>"] show ?thesis
        by (subst framed_loop.simps) simp
    qed (subst framed_loop.simps, simp add: o)+
  qed
qed

lemma udp_loop_total:
  assumes "\<And>a s rq. h a s rq \<noteq> None"
  shows "udp_loop h evs s \<noteq> None"
proof (induction evs arbitrary: s)
  case (Cons ev evs)
  show ?case
  proof (cases ev)
    case (Received data addr)
    from assms obtain r s1 where "h addr s data = Some (r, s1)" by fastforce
    moreover from Cons obtain out s2 where "udp_loop h evs s1 = Some (out, s2)" by fastforce
    ultimately show ?thesis using Received by simp
  qed (simp add: Cons)
qed simp

lemma small_servers_stay_up:
  "conn_status (portmap_tcp f b m) \<noteq> Panicked" "conn_status (mount_tcp d es ip f b st) \<noteq> Panicked"
  "portmap_udp evs m \<noteq> None" "mount_udp d es evs st \<noteq> None"
  unfolding portmap_tcp_def mount_tcp_def portmap_udp_def mount_udp_def
  by (intro framed_loop_status udp_loop_total total_handlers; simp add: conn_start_def)+

section \<open>Requests are answered in order\<close>

text \<open>A fragment as a client frames it, with or without the mark of the last one.\<close>

definition fragment :: "bool \<Rightarrow> bytes \<Rightarrow> bytes" where
  "fragment last_one data = be32 ((if last_one then 0x80000000 else 0) OR of_nat (length data)) @ data"

definition fits_fragment :: "bytes \<Rightarrow> bool" where
  "fits_fragment data \<longleftrightarrow> 0 < length data \<and> length data \<le> MAX_FRAGMENT"

lemma frame_is_last_fragment: "frame data = fragment True data"
  by (simp add: frame_def fragment_def)

lemma fragment_mark:
  assumes "n < 2 ^ 31"
  shows "unat (((if last_one then 0x80000000 else 0) OR of_nat n :: u32) AND 0x7FFFFFFF) = n"
proof -
  have m: "(0x7FFFFFFF :: u32) = mask 31" by (simp add: mask_eq_exp_minus_1)
  have "unat (of_nat n AND mask 31 :: u32) = n"
    unfolding take_bit_eq_mask [symmetric] unsigned_take_bit_eq
    using assms by (simp add: unat_of_nat take_bit_nat_eq_self)
  then show ?thesis using record_mark(2) [OF assms] by (simp add: m)
qed

lemma next_fragment_fragment:
  assumes "fits_fragment data"
  shows "next_fragment (fragment last_one data @ rest) = Rec data rest"
proof -
  have "length data < 2 ^ 31" using assms by (simp add: fits_fragment_def MAX_FRAGMENT_def)
  from fragment_mark [OF this] assms show ?thesis
    by (simp add: next_fragment_def fragment_def read_exact_def fits_fragment_def Let_def del: if_split)
qed

text \<open>A fragment that has not arrived as a whole is waited for.\<close>

lemma next_fragment_partial:
  assumes "fits_fragment q" and "k < length (fragment l q)"
  shows "next_fragment (take k (fragment l q)) = More"
proof (cases "k < 4")
  case True
  then have "length (take k (fragment l q)) < 4" by simp
  then show ?thesis by (simp add: next_fragment_def read_exact_def del: length_take)
next
  case False
  let ?hdr = "be32 ((if l then 0x80000000 else 0) OR of_nat (length q)) :: bytes"
  from False assms(2) have cut: "take k (fragment l q) = ?hdr @ take (k - 4) q" "k - 4 < length q"
    by (simp_all add: fragment_def)
  have "length q < 2 ^ 31" using assms(1) by (simp add: fits_fragment_def MAX_FRAGMENT_def)
  from fragment_mark [OF this] assms(1) cut(2) show ?thesis
    unfolding cut(1) by (simp add: next_fragment_def read_exact_def fits_fragment_def Let_def del: if_split)
qed

lemma next_fragment_empty [simp]: "next_fragment [] = More"
  by (simp add: next_fragment_def read_exact_def)

lemma framed_loop_answers:
  assumes "answers h (map snd frs) (server c) = Some (out, s')"
    and "\<forall>(l, r) \<in> set frs. fits_fragment r" and "conn_status c = Open"
    and "next_fragment tail = More"
  shows "framed_loop (\<lambda>_. False) h (concat (map (case_prod fragment) frs) @ tail) c
    = c\<lparr>recv_buf := tail, sent := sent c @ out, server := s'\<rparr>"
  using assms
proof (induction frs arbitrary: c out)
  case Nil
  then show ?case by (simp add: framed_loop.simps)
next
  case (Cons fr frs)
  obtain l r where fr: "fr = (l, r)" by (cases fr)
  obtain resp s1 out1 where h: "h (server c) r = Some (resp, s1)"
    and a: "answers h (map snd frs) s1 = Some (out1, s')"
    and o: "out = (case resp of None \<Rightarrow> [] | Some x \<Rightarrow> [frame x]) @ out1"
    using Cons.prems(1) by (auto simp: fr Option.bind_eq_Some_conv)
  have n: "next_fragment (concat (map (case_prod fragment) (fr # frs)) @ tail)
      = Rec r (concat (map (case_prod fragment) frs) @ tail)"
    using next_fragment_fragment Cons.prems(2) by (simp add: fr)
  let ?c = "send_response (\<lambda>_. False) resp (c\<lparr>server := s1\<rparr>)"
  have "framed_loop (\<lambda>_. False) h (concat (map (case_prod fragment) frs) @ tail) ?c
      = ?c\<lparr>recv_buf := tail, sent := sent ?c @ out1, server := s'\<rparr>"
    using Cons.prems a by (intro Cons.IH) (auto simp: send_response_all_written)
  then show ?case
    using Cons.prems(3) n h o by (subst framed_loop.simps) (simp add: send_response_all_written)
qed

text \<open>
  A fragment is taken for a whole request, whatever its last-fragment bit says.  The
  portmapper and the MOUNT server answer the fragments of a connection one by one, in order; a
  request that a client has cut into two fragments shorter than a call header is never answered,
  although the same bytes in one fragment are.
\<close>

theorem fragments_handled_apart:
  assumes "fits_fragment x" and "fits_fragment y" and "length x < 28" and "length y < 28"
    and "portmap_handle_request m (x @ y) = Some (Some r)"
  shows "sent (portmap_tcp (\<lambda>_. False) (fragment False x @ fragment True y) m) = []
    \<and> sent (portmap_tcp (\<lambda>_. False) (fragment True (x @ y)) m) = [frame r]"
proof
  have "portmap_at m x = Some (None, m)" "portmap_at m y = Some (None, m)"
    using assms(3,4) by (simp_all add: portmap_at_def portmap_handle_request_def)
  with framed_loop_answers [of portmap_at "[(False, x), (True, y)]" "conn_start m" _ _ "[]"] assms(1,2)
  show "sent (portmap_tcp (\<lambda>_. False) (fragment False x @ fragment True y) m) = []"
    by (simp add: portmap_tcp_def conn_start_def)
  have "fits_fragment (x @ y)" using assms(1,3,4) by (simp add: fits_fragment_def MAX_FRAGMENT_def)
  moreover have "portmap_at m (x @ y) = Some (Some r, m)" using assms(5) by (simp add: portmap_at_def)
  ultimately show "sent (portmap_tcp (\<lambda>_. False) (fragment True (x @ y)) m) = [frame r]"
    using framed_loop_answers [of portmap_at "[(True, x @ y)]" "conn_start m" _ _ "[]"]
    by (simp add: portmap_tcp_def conn_start_def)
qed

text \<open>A NULL call to the portmapper, cut in the middle.\<close>

definition null_call :: bytes where
  "null_call = be32 7 @ be32 0 @ be32 2 @ be32 100000 @ be32 2 @ be32 0 @ be32 0 @ be32 0 @ be32 0 @ be32 0"

theorem fragments_handled_apart_witness:
  "sent (portmap_tcp (\<lambda>_. False) (fragment False (take 20 null_call) @ fragment True (drop 20 null_call)) Map.empty) = []
   \<and> sent (portmap_tcp (\<lambda>_. False) (fragment True null_call) Map.empty) = [frame (portmap_accept_reply 7 ACC_SUCCESS [])]"
proof -
  have "fits_fragment (take 20 null_call)" "fits_fragment (drop 20 null_call)"
    "length (take 20 null_call) < 28" "length (drop 20 null_call) < 28"
    by (simp_all add: null_call_def fits_fragment_def MAX_FRAGMENT_def)
  moreover have "portmap_handle_request Map.empty null_call = Some (Some (portmap_accept_reply 7 ACC_SUCCESS []))"
    by code_simp
  ultimately show ?thesis
    using fragments_handled_apart [of "take 20 null_call" "drop 20 null_call" Map.empty] by simp
qed

section \<open>What a MOUNT client does to the server\<close>

context stream_contract
begin

lemma framed_R:
  assumes "g = h"
  shows "length (recv_buf (framed_loop f g b c)) \<le> length b
     \<and> R (length b - length (recv_buf (framed_loop f g b c))) (server c) (server (framed_loop f g b c))"
  using assms
proof (induction f g b c rule: framed_loop.induct)
  case (1 f g b c)
  have "g = h" by (fact "1.prems")
  show ?case
  proof (cases "conn_status c = Open")
    case False
    then show ?thesis by (simp add: framed_loop.simps R_refl)
  next
    case o: True
    show ?thesis
    proof (cases "next_fragment b")
      case (Skip4 r)
      with next_fragment_cases(1) show ?thesis by blast
    next
      case (Rec d r)
      note len = next_fragment_cases(2) [OF Rec]
      show ?thesis
      proof (cases "g (server c) d")
        case None
        with o Rec len show ?thesis by (simp add: framed_loop.simps [of f g b] R_refl)
      next
        case (Some x)
        then obtain resp s1 where h: "g (server c) d = Some (resp, s1)" by (cases x) auto
        let ?c = "send_response f resp (c\<lparr>server := s1\<rparr>)"
        from o Rec h have eq: "framed_loop f g b c = framed_loop f g r ?c"
          by (simp add: framed_loop.simps [of f g b])
        have ih: "length (recv_buf (framed_loop f g r ?c)) \<le> length r"
          "R (length r - length (recv_buf (framed_loop f g r ?c))) s1 (server (framed_loop f g r ?c))"
          using "1.IH" [OF _ Rec h refl \<open>g = h\<close>] o by simp_all
        from R_trans [OF R_request [OF h [unfolded \<open>g = h\<close>]] ih(2)] ih(1) len show ?thesis by (simp add: eq)
      qed
    qed (simp_all add: o framed_loop.simps [of f g b] R_refl)
  qed
qed

end

lemma mount_at_steps:
  assumes "mount_at d es ip s rq = Some (r, s')"
  shows "steps_in d (4 + length rq) s s'"
proof (cases "length rq < 24")
  case True
  with assms have "fst s' = fst s" by (auto simp: mount_at_def mount_handle_request_def)
  then show ?thesis using steps_in_refl [of d "4 + length rq" s] by (simp add: steps_in_def)
next
  case False
  from assms obtain m where "mount_handle_request d (es (snd s)) rq ip (em (fst s)) = Some (r, m)"
    and "fst s' = (fst s)\<lparr>em := m\<rparr>" by (auto simp: mount_at_def)
  with False show ?thesis by (auto intro!: steps_in_one server_run.mount [OF server_run.start])
qed

interpretation mount_stream: stream_contract "mount_at d es ip" "steps_in d" for d es ip
proof
  show "steps_in d n s s" for n s by (rule nfs_stream.R_refl)
  show "steps_in d (m + n) s1 s3" if "steps_in d m s1 s2" and "steps_in d n s2 s3" for m n s1 s2 s3
    using that by (rule nfs_stream.R_trans)
  show "steps_in d n s1 s2" if "steps_in d m s1 s2" and "m \<le> n" for m n s1 s2
    using that by (rule nfs_stream.R_mono)
  show "mount_at d es ip s rq = Some (r, s') \<Longrightarrow> steps_in d (4 + length rq) s s'" for s rq r s'
    by (rule mount_at_steps)
qed

lemma udp_loop_steps:
  assumes "udp_loop h evs s = Some (out, s')"
    and "\<And>ip t rq r t'. h ip t rq = Some (r, t') \<Longrightarrow> \<exists>n \<le> 1. server_run d n (fst t) (fst t')"
  shows "\<exists>n \<le> length evs. server_run d n (fst s) (fst s')"
  using assms(1)
proof (induction evs arbitrary: s out)
  case (Cons ev evs)
  show ?case
  proof (cases ev)
    case (Received data ip)
    with Cons.prems obtain r s1 out1 where h: "h ip s data = Some (r, s1)"
      and u: "udp_loop h evs s1 = Some (out1, s')" by (auto split: bind_splits)
    from assms(2) [OF h] obtain m where m: "m \<le> 1" "server_run d m (fst s) (fst s1)" by blast
    from Cons.IH [OF u] obtain n where n: "n \<le> length evs" "server_run d n (fst s1) (fst s')" by blast
    from server_run_trans [OF n(2) m(2)] m(1) n(1) show ?thesis by (intro exI [of _ "m + n"]) simp
  next
    case Recv_error
    with Cons.prems Cons.IH [of s out] obtain n where "n \<le> length evs" "server_run d n (fst s) (fst s')" by auto
    then show ?thesis by (intro exI [of _ n]) simp
  qed
qed (auto intro: server_run.start)

lemma mount_datagram_step:
  assumes "mount_at d es ip t rq = Some (r, t')"
  shows "\<exists>n \<le> 1. server_run d n (fst t) (fst t')"
  using assms by (auto simp: mount_at_def intro!: exI [of _ "Suc 0"] server_run.mount [OF server_run.start])

lemma nfs_datagram_step:
  assumes "udp_datagram (v3_at d es) (v4_at d es) t rq = Some (r, t')"
  shows "\<exists>n \<le> 1. server_run d n (fst t) (fst t')"
proof -
  have limit: "snd (udp_limit x) = snd x" for x :: "bytes option \<times> nfs4 \<times> nat"
    by (auto simp: udp_limit_def split: option.splits prod.splits)
  from assms consider x where "v3_at d es t rq = Some x" "snd x = t'" | x where "v4_at d es t rq = Some x" "snd x = t'" | "t' = t"
    unfolding udp_datagram_def using limit
    by (auto split: bind_splits if_splits) (metis snd_conv limit)+
  then show ?thesis
  proof cases
    case 1
    then obtain r1 st where "v3_handle_request d (es (snd t)) rq (fst t) = Some (r1, st)" "fst t' = st"
      by (auto simp: v3_at_def)
    then show ?thesis by (auto intro!: exI [of _ "Suc 0"] server_run.nfs3 [OF server_run.start])
  next
    case 2
    then obtain r1 st where "v4_handle_request d (\<lambda>n. es (snd t + MAX_OPS_PER_COMPOUND - n)) rq (fst t) = Some (r1, st)"
      "fst t' = st" by (auto simp: v4_at_def)
    then show ?thesis by (auto intro!: exI [of _ "Suc 0"] server_run.nfs4 [OF server_run.start])
  qed (auto intro: server_run.start)
qed

lemma nfs_udp_refines:
  "nfs_udp d es evs st = Some (out, s') \<Longrightarrow> \<exists>n \<le> length evs. server_run d n st (fst s')"
  unfolding nfs_udp_def by (drule udp_loop_steps [where d = d], erule nfs_datagram_step) simp

text \<open>
  What traffic does to the MOUNT server is a run of MOUNT requests, at most one for every 24 bytes
  of a stream and one for every datagram; and it never panics.
\<close>

lemma mount_traffic_steps:
  "(\<exists>n. 24 * n \<le> length b \<and> server_run d n st (fst (server (mount_tcp d es ip f b st))))
   \<and> conn_status (mount_tcp d es ip f b st) \<noteq> Panicked
   \<and> (\<exists>out s' n. mount_udp d es evs st = Some (out, s') \<and> n \<le> length evs \<and> server_run d n st (fst s'))"
proof (intro conjI)
  let ?c = "mount_tcp d es ip f b st"
  have "steps_in d (length b - length (recv_buf ?c)) (st, 0) (server ?c)"
    using mount_stream.framed_R [OF refl, of f d es ip b "conn_start (st, 0)"]
    by (simp add: mount_tcp_def conn_start_def)
  from nfs_stream.R_mono [OF this diff_le_self]
  show "\<exists>n. 24 * n \<le> length b \<and> server_run d n st (fst (server ?c))" by (simp add: steps_in_def)
  show "conn_status ?c \<noteq> Panicked" by (rule small_servers_stay_up)
  from small_servers_stay_up(4) obtain out s' where u: "mount_udp d es evs st = Some (out, s')" by fastforce
  then have "\<exists>n \<le> length evs. server_run d n (fst (st, 0 :: nat)) (fst s')"
    unfolding mount_udp_def by (rule udp_loop_steps) (rule mount_datagram_step)
  with u show
    "\<exists>out s' n. mount_udp d es evs st = Some (out, s') \<and> n \<le> length evs \<and> server_run d n st (fst s')"
    by auto
qed

section \<open>The requests of a MOUNT client\<close>

lemma answers_total:
  assumes "\<And>s rq. h s rq \<noteq> None"
  shows "answers h reqs s \<noteq> None"
proof (induction reqs arbitrary: s)
  case (Cons rq reqs)
  from assms obtain r s1 where "h s rq = Some (r, s1)" by fastforce
  moreover from Cons obtain out s2 where "answers h reqs s1 = Some (out, s2)" by fastforce
  ultimately show ?case by simp
qed simp

text \<open>The datagram loop answers the same requests with the same replies, without record marks.\<close>

lemma udp_loop_answers:
  "answers (h ip) reqs s = Some (out, s') \<Longrightarrow>
     \<exists>outs. out = map frame outs \<and> udp_loop h (map (\<lambda>r. Received r ip) reqs) s = Some (map (\<lambda>x. (x, ip)) outs, s')"
proof (induction reqs arbitrary: s out)
  case (Cons rq reqs)
  from Cons.prems obtain resp s1 out1 where h: "h ip s rq = Some (resp, s1)"
    and a: "answers (h ip) reqs s1 = Some (out1, s')"
    and o: "out = (case resp of None \<Rightarrow> [] | Some x \<Rightarrow> [frame x]) @ out1"
    by (auto simp: Option.bind_eq_Some_conv)
  from Cons.IH [OF a] obtain outs where "out1 = map frame outs"
    "udp_loop h (map (\<lambda>r. Received r ip) reqs) s1 = Some (map (\<lambda>x. (x, ip)) outs, s')" by blast
  with h o show ?case
    by (intro exI [of _ "(case resp of None \<Rightarrow> [] | Some x \<Rightarrow> [x]) @ outs"]) (simp split: option.split)
qed simp

lemma mount_answers_count:
  "answers (mount_at d es ip) reqs s = Some (out, s') \<Longrightarrow> snd s' = snd s + length reqs"
proof (induction reqs arbitrary: s out)
  case (Cons rq reqs)
  then obtain r s1 out1 where h: "mount_at d es ip s rq = Some (r, s1)"
    and a: "answers (mount_at d es ip) reqs s1 = Some (out1, s')" by (auto split: bind_splits)
  from h have "snd s1 = snd s + 1" by (auto simp: mount_at_def)
  with Cons.IH [OF a] show ?case by simp
qed simp

text \<open>
  C20: the MOUNT server handles exactly the whole requests of a client, each once and in order.
  When a TCP client sends requests of at most 65536 bytes, each in one fragment with or without the
  mark of the last, and then any part of a further one, \<open>mount_handle_request\<close> gets these requests one
  after the other and not the part, which stays unread; the replies are those it gives, the
  connection stays open, and nothing panics.  The same requests as datagrams get the same replies, to
  the sender, and leave the server in the same state, when each fits the buffer of 8192 bytes that
  \<open>recv_from\<close> fills.
\<close>

theorem mount_requests_answered:
  assumes "\<forall>(l, r) \<in> set frs. fits_fragment r" and "fits_fragment q" and "k < length (fragment l q)"
  shows "\<exists>outs s'. answers (mount_at d es ip) (map snd frs) (st, 0) = Some (map frame outs, s')
    \<and> snd s' = length frs
    \<and> mount_tcp d es ip (\<lambda>_. False) (concat (map (case_prod fragment) frs) @ take k (fragment l q)) st
        = \<lparr>recv_buf = take k (fragment l q), sent = map frame outs, conn_status = Open, server = s'\<rparr>
    \<and> ((\<forall>(l, r) \<in> set frs. length r \<le> 8192) \<longrightarrow>
        mount_udp d es (map (\<lambda>r. Received r ip) (map snd frs)) st = Some (map (\<lambda>x. (x, ip)) outs, s'))"
proof -
  obtain out s' where a: "answers (mount_at d es ip) (map snd frs) (st, 0) = Some (out, s')"
    using answers_total [of "mount_at d es ip" "map snd frs" "(st, 0)"] total_handlers(2) by fastforce
  from udp_loop_answers [where h = "mount_at d es", OF this] obtain outs where o: "out = map frame outs"
    and u: "udp_loop (mount_at d es) (map (\<lambda>r. Received r ip) (map snd frs)) (st, 0) = Some (map (\<lambda>x. (x, ip)) outs, s')"
    by blast
  from framed_loop_answers [of "mount_at d es ip" frs "conn_start (st, 0)" out s', OF _ assms(1) _
      next_fragment_partial [OF assms(2,3)]] a
  have "mount_tcp d es ip (\<lambda>_. False) (concat (map (case_prod fragment) frs) @ take k (fragment l q)) st
      = \<lparr>recv_buf = take k (fragment l q), sent = map frame outs, conn_status = Open, server = s'\<rparr>"
    by (simp add: mount_tcp_def conn_start_def o)
  with a o u mount_answers_count [OF a] show ?thesis by (auto simp: mount_udp_def)
qed

text \<open>A NULL call to the MOUNT server, and half of another.\<close>

definition mount_null_call :: bytes where
  "mount_null_call = be32 9 @ be32 0 @ be32 2 @ be32 100005 @ be32 3 @ be32 0 @ be32 0 @ be32 0 @ be32 0 @ be32 0"

theorem mount_requests_answered_witness:
  "\<exists>outs s'. mount_tcp sample_deps (\<lambda>_. sample_env) (IpV4 0) (\<lambda>_. False)
      (fragment False mount_null_call @ take 20 (fragment True mount_null_call)) (sample_server default_options)
    = \<lparr>recv_buf = take 20 (fragment True mount_null_call), sent = map frame outs, conn_status = Open, server = s'\<rparr>
    \<and> snd s' = 1"
proof -
  have "fits_fragment mount_null_call" "20 < length (fragment True mount_null_call)"
    by (simp_all add: mount_null_call_def fits_fragment_def MAX_FRAGMENT_def fragment_def)
  with mount_requests_answered [of "[(False, mount_null_call)]" mount_null_call 20 True sample_deps "\<lambda>_. sample_env" "IpV4 0"
      "sample_server default_options"]
  show ?thesis by auto
qed

section \<open>One datagram stops the server\<close>

lemma udp_loop_append:
  "udp_loop h (xs @ ys) s =
     (case udp_loop h xs s of
        None \<Rightarrow> None
      | Some (out, s1) \<Rightarrow> map_option (\<lambda>(out', s2). (out @ out', s2)) (udp_loop h ys s1))"
  by (induction h xs s rule: udp_loop.induct) (auto simp: option.map_id split: option.splits bind_splits prod.splits)

text \<open>
  C36: whatever datagrams the server has handled before, whatever it exports and whatever follows, one
  48-byte datagram with a truncated RENAME makes the UDP task panic; with \<open>panic = "abort"\<close> the
  process ends.
\<close>

theorem one_datagram_stops_server:
  "length (rename_attack xid) = 48 \<and> nfs_udp d es (evs @ Received (rename_attack xid) ip # later) st = None"
proof -
  have "rd32 (rename_attack xid) 12 = Some NFS_PROGRAM" "rd32 (rename_attack xid) 16 = Some NFS_V3"
    using rpc_call_header_reads(3,4) [of xid 100003 3 14 0 "[]" 0 "[]" "be32 0 @ be32 1", folded rename_attack_def]
    by (simp_all add: stream_const_defs)
  then have "udp_datagram (v3_at d es) (v4_at d es) s (rename_attack xid) = None" for s
    by (simp add: udp_datagram_def v3_at_def rename_attack_facts)
  then show ?thesis
    by (simp add: rename_attack_facts nfs_udp_def udp_loop_append split: option.split)
qed

end
