(* ===== verification/Nfs4_Data.thy ===== *)
theory Nfs4_Data
  imports Nfs4_Frame Nfs4_Sample
begin

text \<open>
  What the NFSv4 operations on file data promise each other: a READ after a WRITE returns the
  data written, READ_PLUS agrees with READ, and CLOSE does not find what OPEN entered.
\<close>

section \<open>Handles under writes\<close>

text \<open>Resolving a handle looks at names, links and access, never at file data or times.\<close>

lemma same_shape_inodes: "same_shape s t \<Longrightarrow> inodes s i = None \<longleftrightarrow> inodes t i = None"
  unfolding same_shape_def node_at_def by (metis map_option_is_None)

lemma same_shape_deny: "same_shape s t \<Longrightarrow> deny s = deny t" "same_shape s t \<Longrightarrow> cwd s = cwd t"
  by (simp_all add: same_shape_def)

lemma path_exists_same_shape:
  assumes "same_shape s t"
  shows "path_exists s p = path_exists t p"
proof -
  have "(\<exists>y. inodes s i = Some y) = (\<exists>y. inodes t i = Some y)" for i
    using same_shape_inodes [OF assms, of i] by auto
  then show ?thesis
    by (simp add: path_exists_def metadata_def lookup_same_shape [OF assms] same_shape_deny [OF assms] split: option.split)
qed

lemma is_symlink_same_shape: "same_shape s t \<Longrightarrow> path_is_symlink s p = path_is_symlink t p"
proof -
  assume sh: "same_shape s t"
  have "(case node_at s i of Some (Link _) \<Rightarrow> True | _ \<Rightarrow> False)
      = (case node_at t i of Some (Link _) \<Rightarrow> True | _ \<Rightarrow> False)" for i
    using same_shape_cases [OF sh, of i] by auto
  moreover have "deny s = deny t" using sh by (simp add: same_shape_def)
  ultimately show ?thesis
    by (simp add: path_is_symlink_def lookup_same_shape [OF sh] split: option.split)
qed

lemma canonicalize_same_shape:
  assumes "same_shape s t"
  shows "canonicalize s p = canonicalize t p"
  using same_shape_inodes [OF assms]
  by (simp add: canonicalize_def lookup_same_shape [OF assms] same_shape_deny [OF assms] split: option.split)

lemma resolve_fh_same_shape:
  assumes "same_shape s t"
  shows "resolve_fh d s m fh = resolve_fh d t m fh"
  by (simp add: resolve_fh_def path_exists_same_shape [OF assms] is_symlink_same_shape [OF assms]
      canonicalize_same_shape [OF assms] same_shape_deny [OF assms] split: option.split)

section \<open>WRITE and READ\<close>

lemma fs_open_create_existing:
  assumes "fs_read s p = Inr old" and "fs_open_create e s p = Inr (i, s1)"
  shows "s1 = s" "fs_open A_write s p = Inr i"
  using assms
  by (auto simp: fs_read_def fs_open_create_def fs_open_def lookup_path_def
      split: option.splits prod.splits node.splits if_splits)

lemma write_file_existing:
  assumes "fs_read s p = Inr old" and "write_file e s p off dat = (True, s')"
  shows "same_shape s s'" "fs_read s' p = Inr (if dat = [] then old else splice_bytes old off dat)"
proof -
  obtain i where o: "fs_open A_write s p = Inr i" and w: "fs_write_at e i off dat s = Inr s'"
    using assms by (auto simp: write_file_def dest: fs_open_create_existing split: sum.splits prod.splits if_splits)
  show "same_shape s s'"
  proof (cases "dat = []")
    case True
    with w have "s' = s" by (auto simp: fs_write_at_def split: option.splits node.splits)
    then show ?thesis by (simp add: same_shape_def)
  next
    case False
    with w obtain old' where "node_at s i = Some (File old')"
      "s' = put_node i (File (splice_bytes old' off dat)) (int (wall e)) s"
      by (auto simp: fs_write_at_def split: option.splits node.splits if_splits)
    then show ?thesis using put_file_same_shape by simp
  qed
  show "fs_read s' p = Inr (if dat = [] then old else splice_bytes old off dat)"
  proof (cases "dat = []")
    case True
    with w have "s' = s" by (auto simp: fs_write_at_def split: option.splits node.splits)
    with True assms(1) show ?thesis by simp
  next
    case False
    with fs_write_at_read [OF o w False assms(1)] show ?thesis by simp
  qed
qed

lemma read_window_eq:
  "read_window f off n = Some (take n (drop off f), off + n \<ge> length f)"
  by (auto simp: read_window_def slice_def Let_def min_def)

lemma op_write_cases:
  assumes "op_write d e rq p (Some fh) st = Some (r, st')" and "op_status r = NFS4_OK"
  obtains path s where "resolve_st d st fh = Some path" "p + 32 + unat (u32_at rq (p + 28)) \<le> length rq"
    "write_file e (the_fs st) (ext st path) (unat (u64_at rq (p + 16)))
       (take (unat (u32_at rq (p + 28))) (drop (p + 32) rq)) = (True, s)"
    "st' = st\<lparr>the_fs := s\<rparr>" "op_result r = be32 (u32_at rq (p + 28)) @ be32 2 @ writeverf st"
proof -
  let ?n = "unat (u32_at rq (p + 28))"
  note step = assms(1) [unfolded op_write_def, simplified]
  have rw: "\<not> is_read_only d (em st) fh" and len28: "p + 28 \<le> length rq"
    using step assms(2) by (auto simp: nfs4_status_defs split: if_splits)
  then have rd: "rd64 rq (p + 16) = Some (u64_at rq (p + 16))" "rd32 rq (p + 24) = Some (u32_at rq (p + 24))"
    by (simp_all add: rd_simps)
  note step = step [unfolded get_simps rd, simplified rw len28 not_less [symmetric], simplified]
  have len: "p + 32 + ?n \<le> length rq"
    using step len28 assms(2) by (auto simp: nfs4_status_defs split: if_splits)
  then have lens: "\<not> length rq < p + 28" "\<not> length rq < p + 28 + 4" "\<not> length rq < p + 32 + ?n" by simp_all
  have path: "resolve_st d st fh \<noteq> None"
    using step lens assms(2) by (auto simp: nfs4_status_defs Let_def split: option.splits)
  obtain ok s where w: "write_file e (the_fs st) (ext st (the (resolve_st d st fh))) (unat (u64_at rq (p + 16)))
       (take ?n (drop (p + 32) rq)) = (ok, s)" by fastforce
  with step lens path assms(2) have ok: "ok \<and> st' = st\<lparr>the_fs := s\<rparr>
      \<and> op_result r = be32 (u32_at rq (p + 28)) @ be32 2 @ writeverf st"
    by (cases ok) (auto simp: nfs4_status_defs Let_def)
  with w len path show thesis by (intro that [of "the (resolve_st d st fh)" s]) auto
qed

lemma op_read_file:
  assumes "resolve_st d st fh = Some path" and "fs_read (the_fs st) (ext st path) = Inr dat" and "p + 28 \<le> length rq"
  shows "op_read d rq p (Some fh) st = Some (op_done
     (be32 (u32_bool (unat (u64_at rq (p + 16)) + unat (u32_at rq (p + 24)) \<ge> length dat))
       @ xdr_opaque (take (unat (u32_at rq (p + 24))) (drop (unat (u64_at rq (p + 16))) dat))) 28, st)"
  using assms by (simp add: op_read_def rd_simps read_window_eq)

text \<open>
  C24: a READ of the range a WRITE has written returns the data of the WRITE; a successful
  WRITE writes all of them and changes no byte of the file outside the range.
\<close>

theorem write_then_read:
  assumes "resolve_st d st fh = Some path" and "fs_read (the_fs st) (ext st path) = Inr old"
    and "op_write d e rq p (Some fh) st = Some (r, st')" and "op_status r = NFS4_OK"
    and "p' + 28 \<le> length rq'" and "u64_at rq' (p' + 16) = u64_at rq (p + 16)"
    and "u32_at rq' (p' + 24) = u32_at rq (p + 28)"
  shows "\<exists>eof new. op_read d rq' p' (Some fh) st' = Some (op_done (be32 (u32_bool eof)
        @ xdr_opaque (take (unat (u32_at rq (p + 28))) (drop (p + 32) rq))) 28, st')
     \<and> fs_read (the_fs st') (ext st' path) = Inr new
     \<and> (\<forall>i. i < unat (u64_at rq (p + 16)) \<or> unat (u64_at rq (p + 16)) + unat (u32_at rq (p + 28)) \<le> i
          \<longrightarrow> i < length old \<longrightarrow> i < length new \<and> new ! i = old ! i)
     \<and> op_result r = be32 (u32_at rq (p + 28)) @ be32 2 @ writeverf st"
proof -
  let ?n = "unat (u32_at rq (p + 28))" and ?off = "unat (u64_at rq (p + 16))"
  let ?dat = "take ?n (drop (p + 32) rq)"
  from assms(3,4) obtain s where len: "p + 32 + ?n \<le> length rq"
    and w: "write_file e (the_fs st) (ext st path) ?off ?dat = (True, s)"
    and st': "st' = st\<lparr>the_fs := s\<rparr>" and res: "op_result r = be32 (u32_at rq (p + 28)) @ be32 2 @ writeverf st"
    by (rule op_write_cases) (use assms(1) in auto)
  note wf = write_file_existing [OF assms(2) w]
  define new where "new = (if ?dat = [] then old else splice_bytes old ?off ?dat)"
  have path: "resolve_st d st' fh = Some path" "ext st' path = ext st path"
    using assms(1) resolve_fh_same_shape [OF wf(1)] same_shape_deny(2) [OF wf(1)] by (simp_all add: st' ext_def)
  have new: "fs_read (the_fs st') (ext st' path) = Inr new" using wf(2) path(2) by (simp add: st' new_def)
  have n: "length ?dat = ?n" using len by simp
  have "take ?n (drop ?off new) = ?dat"
    using splice_bytes_read [of ?dat ?off old] n by (auto simp: new_def)
  moreover have "i < length new \<and> new ! i = old ! i"
    if "i < ?off \<or> ?off + ?n \<le> i" "i < length old" for i
    using that n by (auto simp: new_def splice_bytes_def nth_append)
  ultimately show ?thesis
    using op_read_file [OF path(1) new assms(5)] new res assms(6,7) by auto
qed

lemma fs_open_create_opened: "fs_open A_write s p = Inr i \<Longrightarrow> fs_open_create e s p = Inr (i, s)"
  by (auto simp: fs_open_def fs_open_create_def lookup_path_def split: option.splits node.splits if_splits)

text \<open>A WRITE of two bytes at offset 1 and a READ of them.\<close>

definition write_two :: bytes where
  "write_two = replicate 16 0 @ be64 1 @ be32 2 @ be32 2 @ [0x58, 0x59, 0, 0]"

definition read_two :: bytes where
  "read_two = replicate 16 0 @ be64 1 @ be32 2"

lemma two_reads:
  "u64_at write_two 16 = 1" "u32_at write_two 28 = 2" "take 2 (drop 32 write_two) = [0x58, 0x59]"
  "rd64 write_two 16 = Some 1" "rd32 write_two 24 = Some 2" "length write_two = 36"
  "u64_at read_two 16 = 1" "u32_at read_two 24 = 2" "length read_two = 28"
  unfolding write_two_def read_two_def by code_simp+

lemma sample_write:
  obtains r st' where "op_write sample_deps sample_env write_two 0 (Some sample_file_fh)
      (sample_server default_options) = Some (r, st')" "op_status r = NFS4_OK"
proof -
  have rw: "\<not> is_read_only sample_deps (sample_store default_options) sample_file_fh"
    by (simp add: sample_read_only default_options_def)
  obtain s where "write_file sample_env sample_fs (to_extended_path None sample_file) 1 [0x58, 0x59] = (True, s)"
    by (simp add: write_file_def fs_open_create_opened [OF sample_opens] seek_ok_def fs_write_at_def sample_node)
  then show thesis
    using that by (simp add: op_write_def get_simps two_reads rw sample_handles Let_def)
qed

theorem write_then_read_witness:
  "\<exists>r st' eof. op_write sample_deps sample_env write_two 0 (Some sample_file_fh)
      (sample_server default_options) = Some (r, st')
     \<and> op_read sample_deps read_two 0 (Some sample_file_fh) st'
         = Some (op_done (be32 (u32_bool eof) @ xdr_opaque [0x58, 0x59]) 28, st')"
proof -
  let ?st = "sample_server default_options"
  obtain r st' where w: "op_write sample_deps sample_env write_two 0 (Some sample_file_fh) ?st = Some (r, st')"
    and ok: "op_status r = NFS4_OK" by (rule sample_write)
  have "fs_read (the_fs ?st) (ext ?st sample_file) = Inr [65, 66, 67]"
    "resolve_st sample_deps ?st sample_file_fh = Some sample_file"
    by (simp_all add: sample_reads sample_handles)
  from write_then_read [OF this(2,1) w ok, of 0 read_two] w show ?thesis by (auto simp: two_reads)
qed

section \<open>READ_PLUS\<close>

text \<open>
  C25: on a file READ_PLUS and READ agree: for an offset inside the file both return the same
  data and the same end-of-file flag; at or past the end READ returns no data with the flag set
  and READ_PLUS one empty hole.
\<close>

theorem read_plus_agrees_with_read:
  assumes "resolve_st d st fh = Some path" and "fs_read (the_fs st) (ext st path) = Inr content"
    and "metadata (the_fs st) (ext st path) \<noteq> None" and "p + 28 \<le> length rq"
    and "seek_ok (length content)"
    and "off = u64_at rq (p + 16)" and "n = unat (u32_at rq (p + 24))"
    and "dat = take n (drop (unat off) content)" and "eof \<longleftrightarrow> length content \<le> unat off + n"
  shows "op_read d rq p (Some fh) st = Some (op_done (be32 (u32_bool eof) @ xdr_opaque dat) 28, st)
     \<and> op_read_plus d rq p (Some fh) st = Some (op_done (replicate 16 0 @
        (if unat off < length content
         then be32 (of_nat (length dat)) @ be32 (u32_bool eof) @ be32 0 @ be64 off
              @ be32 (of_nat (length dat)) @ xdr_opaque dat
         else be32 0 @ be32 1 @ be32 1 @ be64 off @ be32 0)) 28, st)
     \<and> (length content \<le> unat off \<longrightarrow> dat = [] \<and> eof)"
proof -
  let ?off = "unat off"
  obtain l i where l: "lookup_path (the_fs st) True (ext st path) = Some (l, i)"
    and n: "node_at (the_fs st) i = Some (File content)"
    using assms(2) by (auto simp: fs_read_def split: option.splits node.splits if_splits)
  with assms(3) obtain md where md: "metadata (the_fs st) (ext st path) = Some md" "md_len md = length content"
    by (auto simp: metadata_def node_at_def md_len_def split: if_splits)
  have rd: "op_read d rq p (Some fh) st = Some (op_done (be32 (u32_bool eof) @ xdr_opaque dat) 28, st)"
    using op_read_file [OF assms(1,2,4)] by (simp add: assms(6-9))
  show ?thesis
  proof (cases "?off < length content")
    case True
    then have s: "seek_ok ?off" using assms(5) by (simp add: seek_ok_def)
    have d: "take (min n (length content - ?off)) (drop ?off content) = dat"
      unfolding assms(8) by (cases "n \<le> length content - ?off") (simp_all add: min_def)
    have e: "?off + length dat \<ge> length content \<longleftrightarrow> eof"
      using True by (auto simp: assms(8,9))
    have "op_read_plus d rq p (Some fh) st = Some (op_done (replicate 16 0 @
         be32 (of_nat (length dat)) @ be32 (u32_bool eof) @ be32 0 @ be64 off
              @ be32 (of_nat (length dat)) @ xdr_opaque dat) 28, st)"
      using assms(1,2,4,6,7) True s d e md by (simp add: op_read_plus_def rd_simps Let_def)
    with rd True show ?thesis by auto
  next
    case False
    then have "dat = []" "eof" by (simp_all add: assms(8,9))
    moreover have "op_read_plus d rq p (Some fh) st = Some (op_done (replicate 16 0 @
         be32 0 @ be32 1 @ be32 1 @ be64 off @ be32 0) 28, st)"
      using assms(1,2,4,6,7) False md by (simp add: op_read_plus_def rd_simps Let_def)
    ultimately show ?thesis using rd False by auto
  qed
qed

theorem read_plus_agrees_with_read_witness:
  "op_read sample_deps read_two 0 (Some sample_file_fh) (sample_server default_options)
       = Some (op_done (be32 1 @ xdr_opaque [66, 67]) 28, sample_server default_options)
     \<and> op_read_plus sample_deps read_two 0 (Some sample_file_fh) (sample_server default_options)
       = Some (op_done (replicate 16 0 @ be32 2 @ be32 1 @ be32 0 @ be64 1 @ be32 2
           @ xdr_opaque [66, 67]) 28, sample_server default_options)"
proof -
  let ?st = "sample_server default_options"
  have f: "fs_read (the_fs ?st) (ext ?st sample_file) = Inr [65, 66, 67]"
    "resolve_st sample_deps ?st sample_file_fh = Some sample_file"
    by (simp_all add: sample_reads sample_handles)
  have "path_exists sample_fs (to_extended_path None sample_file)"
    unfolding sample_file_def sample_dir_def by code_simp
  then have md: "metadata (the_fs ?st) (ext ?st sample_file) \<noteq> None" by (simp add: path_exists_def)
  have len: "seek_ok (length [65, 66, 67 :: u8])" by (simp add: seek_ok_def)
  have args: "0 + 28 \<le> length read_two" "(1 :: u64) = u64_at read_two (0 + 16)"
    "2 = unat (u32_at read_two (0 + 24))" "[66, 67 :: u8] = take 2 (drop (unat (1 :: u64)) [65, 66, 67])"
    "True \<longleftrightarrow> length [65, 66, 67 :: u8] \<le> unat (1 :: u64) + 2"
    by (simp_all add: two_reads)
  from read_plus_agrees_with_read [OF f(2,1) md args(1) len args(2-5)] show ?thesis
    by (simp add: u32_bool_def)
qed

section \<open>CLOSE\<close>

text \<open>The arguments of CLOSE: the sequence number of the request and the state id OPEN returned.\<close>

definition close_request :: "u32 \<Rightarrow> u64 \<Rightarrow> bytes" where
  "close_request seqid stateid_id = be32 seqid @ take 16 (open_result stateid_id)"

text \<open>
  CLOSE with the state id OPEN returned answers OK and leaves the entry of the open file
  in the table, because it reads the number four bytes too early (one number excepted): the
  table of open files only grows.
\<close>

theorem close_keeps_open_file:
  assumes "open_files st i = Some path" and "i \<noteq> 0x100000001"
  shows "\<exists>r st'. op_close (close_request seqid i) 0 (Some fh) st = Some (r, st')
    \<and> op_status r = NFS4_OK \<and> open_files st' i = Some path"
proof -
  let ?key = "u64_at (close_request seqid i) 4"
  have rq: "close_request seqid i = be32 seqid @ be32 1 @ be64 i @ [0, 0, 0, 0]"
    by (simp add: close_request_def open_result_def numeral_eq_Suc)
  have "?key \<noteq> i"
  proof
    assume key: "?key = i"
    have "drop 4 (close_request seqid i) = be32 1 @ be64 i @ [0, 0, 0, 0]" by (simp add: rq)
    then have "be64 ?key = be32 1 @ take 4 (be64 i)"
      by (simp add: u64_at_def be64_of_be)
    then have "be64 i = be32 1 @ take 4 (be64 i)" by (simp only: key)
    then have hi: "take 4 (be64 i) = be32 1" "drop 4 (be64 i) = take 4 (be64 i)"
      by (metis append_eq_conv_conj length_be32)+
    then have "be64 i = be32 1 @ be32 1" by (metis append_take_drop_id)
    also have "\<dots> = be64 0x100000001" by code_simp
    finally show False using assms(2) by simp
  qed
  moreover have "rd64 (close_request seqid i) 4 = Some ?key" by (simp add: rd_simps rq)
  ultimately show ?thesis
    using assms(1) by (simp add: op_close_def rq)
qed

theorem close_keeps_open_file_witness:
  "\<exists>r st'. op_close (close_request 1 7) 0 (Some sample_file_fh)
      ((sample_server default_options)\<lparr>open_files := [7 \<mapsto> sample_file]\<rparr>) = Some (r, st')
    \<and> op_status r = NFS4_OK \<and> open_files st' 7 = Some sample_file"
  by (rule close_keeps_open_file) simp_all

section \<open>Names in directories\<close>

text \<open>
  C39: REMOVE, CREATE and OPEN join the name of the request to the directory without a check,
  and joining an absolute path gives that path: with a handle of any writable export REMOVE
  deletes any file of the machine the server may delete.
\<close>

theorem remove_escapes_export:
  assumes "resolve_st d st fh = Some dir" and "\<not> is_read_only d (em st) fh"
    and "is_absolute target" and "utf8_lossy target = target" and "length target < 2 ^ 32"
    and "path_exists (the_fs st) target" and "\<not> path_is_dir (the_fs st) target"
    and "fs_remove_file (the_fs st) (ext st target) = Inr s"
  shows "op_remove d (xdr_opaque target) 0 (Some fh) st
    = Some (op_done change_info (4 + pad4 (length target)), st\<lparr>the_fs := s\<rparr>)"
proof -
  have n: "u32_at (xdr_opaque target) 0 = of_nat (length target)" "drop 4 (xdr_opaque target)
      = target @ replicate (pad4 (length target) - length target) 0"
    by (simp_all add: xdr_opaque_def)
  have u: "unat (of_nat (length target) :: u32) = length target"
    using assms(5) by (simp add: unat_of_nat take_bit_nat_eq_self)
  have j: "path_join dir target = target" using assms(3) by (simp add: path_join_def)
  show ?thesis
    using assms by (simp add: op_remove_def get_simps n u j Let_def remove_target_def)
qed

text \<open>The sample drive with a file outside of the exported directory.\<close>

definition secret :: path where "secret = bs ''D:/secret''"

definition secret_fs :: fs where
  "secret_fs = sample_fs\<lparr>entries := entries sample_fs @ [((bs ''D:'', [bs ''secret'']), 3)],
     inodes := (inodes sample_fs)(3 \<mapsto> \<lparr>node = File [1], created = 1, modified = 1, accessed = 1\<rparr>),
     next_ino := 4\<rparr>"

lemma secret_facts:
  "is_absolute secret" "utf8_lossy secret = secret"
  "path_exists secret_fs secret" "\<not> path_is_dir secret_fs secret"
  "\<not> path_starts_with secret sample_dir" "\<not> path_is_symlink secret_fs sample_dir"
  "lookup_path secret_fs False (to_extended_path None secret) = Some ((bs ''D:'', [bs ''secret'']), 3)"
  unfolding secret_def sample_dir_def by code_simp+

lemma length_secret [simp]: "length secret = 9"
  by (simp add: secret_def)

theorem remove_escapes_export_witness:
  "\<exists>s. op_remove sample_deps (xdr_opaque secret) 0 (Some sample_dir_fh)
      ((sample_server default_options)\<lparr>the_fs := secret_fs\<rparr>)
    = Some (op_done change_info 16, (sample_server default_options)\<lparr>the_fs := s\<rparr>)
    \<and> \<not> path_starts_with secret sample_dir \<and> \<not> path_exists s secret"
proof -
  let ?st = "(sample_server default_options)\<lparr>the_fs := secret_fs\<rparr>"
  let ?s = "drop_entry (bs ''D:'', [bs ''secret'']) secret_fs"
  have x: "ext ?st secret = to_extended_path None secret"
    by (simp add: ext_def secret_fs_def sample_fs_def)
  have "resolve_st sample_deps ?st sample_dir_fh = Some sample_dir"
    by (simp add: resolve_fh_def sample_ids sample_entries secret_facts)
  moreover have "\<not> is_read_only sample_deps (em ?st) sample_dir_fh"
    by (simp add: sample_read_only default_options_def)
  moreover have "fs_remove_file (the_fs ?st) (ext ?st secret) = Inr ?s"
    by (simp add: x fs_remove_file_def secret_facts) (simp add: secret_fs_def sample_fs_def node_at_def)
  ultimately have "op_remove sample_deps (xdr_opaque secret) 0 (Some sample_dir_fh) ?st
      = Some (op_done change_info (4 + pad4 (length secret)), ?st\<lparr>the_fs := ?s\<rparr>)"
    by (intro remove_escapes_export) (simp_all add: secret_facts)
  moreover have "\<not> path_exists ?s secret" unfolding secret_def by code_simp
  moreover have "4 + pad4 (length secret) = 16" by (simp add: pad4_def)
  ultimately show ?thesis using secret_facts(5) by (intro exI [of _ ?s]) simp
qed

end
