(* ===== verification/Nfs4_Access.thy ===== *)
theory Nfs4_Access
  imports Nfs4_Guard Mount
begin

text \<open>
  Who reaches an export: the access list of an export is asked by the MOUNT server only.  The
  handlers of NFSv3 and NFSv4 do not know the address of the client.
\<close>

section \<open>Looking up an export from the root of NFSv4\<close>

definition root_lookup :: "bytes \<Rightarrow> bytes" where
  "root_lookup name = be32 OP_PUTROOTFH @ be32 OP_LOOKUP @ xdr_opaque name"

lemma root_lookup_reads:
  assumes "drop q rq = root_lookup name @ rest" and "length name < 2 ^ 32"
  shows "rd32 rq q = Some OP_PUTROOTFH" "rd32 rq (q + 4) = Some OP_LOOKUP"
    "u32_at rq (q + 8) = of_nat (length name)" "unat (of_nat (length name) :: u32) = length name"
    "take (length name) (drop (q + 12) rq) = name" "q + 12 + length name \<le> length rq"
proof -
  have len: "length (drop q rq) = length rq - q" by simp
  have l: "q + 12 + pad4 (length name) \<le> length rq"
    using assms(1) len by (simp add: root_lookup_def xdr_opaque_def)
  then show "q + 12 + length name \<le> length rq"
    using pad4_ge [of "length name"] by linarith
  show "unat (of_nat (length name) :: u32) = length name"
    using assms(2) by (simp add: unat_of_nat take_bit_nat_eq_self)
  have d: "drop (q + k) rq = drop k (root_lookup name @ rest)" for k
    using assms(1) by (metis add.commute drop_drop)
  show "rd32 rq q = Some OP_PUTROOTFH" "rd32 rq (q + 4) = Some OP_LOOKUP"
    "u32_at rq (q + 8) = of_nat (length name)" "take (length name) (drop (q + 12) rq) = name"
    using l d [of 0] d [of 4] d [of 8] d [of 12]
    by (simp_all add: rd32_def u32_at_def root_lookup_def xdr_opaque_def)
qed

lemma root_handle [simp]: "is_root_handle (encode_synthetic_handle (- 1) (bs ''nfs4root''))"
  by (simp add: is_root_handle_def encode_synthetic_handle_def Let_def u64_at_def)

text \<open>
  C34: a client that MOUNT refuses because it is in none of the networks of an export gets a
  handle of the root of that export from NFSv4, by PUTROOTFH and LOOKUP of the same name: the
  access list does not restrict NFSv4 at all.
\<close>

theorem v4_ignores_allowed_clients:
  assumes "mac_ok d" and "em_inv (em st)"
    and "length name < 2 ^ 32" and "utf8_lossy name = name" and "length cred < 2 ^ 32"
    and "resolve_export_path (em st) name = Some ex" and "resolve_export_path (em st) (exp_path ex) = Some ex"
    and "\<not> is_client_allowed d (em st) ip name"
    and "drop (cp_pos c) rq = root_lookup name @ rest"
  shows "mount_handle_request d e (mnt_call xid fl cred name) ip (em st)
      = Some (Some (mount_accept_reply xid ACC_SUCCESS (be32 13)), em st)
    \<and> (\<exists>c' m fh. compound_loop d es rq uid 2 c st = Some (c', st\<lparr>em := m\<rparr>) \<and> cp_status c' = NFS4_OK
        \<and> cp_current c' = Some fh \<and> fh_denotes d m fh = Some (path_key (exp_path ex)))"
proof
  show "mount_handle_request d e (mnt_call xid fl cred name) ip (em st)
      = Some (Some (mount_accept_reply xid ACC_SUCCESS (be32 13)), em st)"
    using mnt_call_dispatch [OF assms(5,3)] assms(4,8) by simp
  obtain fh m where g: "create_file_handle d (es (Suc 0)) (exp_path ex) (em st) = (fh, m)" by fastforce
  then have "get_or_create_fh d (es (Suc 0)) (exp_path ex) (exp_path ex) (em st) = (fh, m)"
    using assms(7) by (simp add: create_file_handle_def)
  from get_or_create_denotes [OF assms(1,2) this]
  have f: "fh_denotes d m fh = Some (path_key (exp_path ex))" .
  note r = root_lookup_reads [OF assms(9,3)]
  let ?c = "after_op OP_PUTROOTFH (op_moved 0 (encode_synthetic_handle (- 1) (bs ''nfs4root''))) c"
  have free: "\<not> squashed d uid OP_PUTROOTFH c st" "\<not> squashed d uid OP_LOOKUP ?c st"
    by (simp_all add: squashed_def is_write_opcode_def opcode_defs)
  have "dispatch_op d (es (Suc 0)) OP_LOOKUP rq (cp_pos ?c + 4) (cp_current ?c) (cp_saved ?c) st
      = Some (op_moved (4 + pad4 (length name)) fh, st\<lparr>em := m\<rparr>)"
    using r assms(4,6) g
    by (simp add: dispatch_op_def opcode_defs op_lookup_def get_simps after_op_def Let_def get_export_def add.assoc)
  then have "compound_loop d es rq uid 2 c st
      = Some (after_op OP_LOOKUP (op_moved (4 + pad4 (length name)) fh) ?c, st\<lparr>em := m\<rparr>)"
    using r free by (simp add: numeral_2_eq_2 dispatch_op_def [of _ _ OP_PUTROOTFH] op_putrootfh_def) (simp add: after_op_def)
  then show "\<exists>c' m fh. compound_loop d es rq uid 2 c st = Some (c', st\<lparr>em := m\<rparr>) \<and> cp_status c' = NFS4_OK
        \<and> cp_current c' = Some fh \<and> fh_denotes d m fh = Some (path_key (exp_path ex))"
    using f by (intro exI [of _ "after_op OP_LOOKUP (op_moved (4 + pad4 (length name)) fh) ?c"] exI [of _ m] exI [of _ fh])
      (simp add: after_op_def)
qed

lemma sample_export_name:
  "utf8_lossy (bs ''share'') = bs ''share''"
  "resolve_export_path (sample_store default_options) (bs ''share'') = Some (sample_export default_options)"
proof -
  show "utf8_lossy (bs ''share'') = bs ''share''" by (rule utf8_lossy_ascii) code_simp
  show "resolve_export_path (sample_store default_options) (bs ''share'') = Some (sample_export default_options)"
    by (simp add: resolve_export_path_def alias_match_def sample_export_def)
qed

theorem v4_ignores_allowed_clients_witness:
  "mount_handle_request sample_deps sample_env (mnt_call 7 0 [] (bs ''share'')) (IpV4 0x0B000001)
     (sample_store default_options)
     = Some (Some (mount_accept_reply 7 ACC_SUCCESS (be32 13)), sample_store default_options)
   \<and> (\<exists>c' st' fh. compound_loop sample_deps (\<lambda>_. sample_env) (root_lookup (bs ''share'')) 0 2 (compound_start 0)
        (sample_server default_options) = Some (c', st') \<and> cp_current c' = Some fh
      \<and> fh_denotes sample_deps (em st') fh = Some (path_key sample_dir))"
proof -
  have inv: "em_inv (em (sample_server default_options))" by (simp add: sample_em_inv_store)
  have deny: "\<not> is_client_allowed sample_deps (em (sample_server default_options)) (IpV4 0x0B000001) (bs ''share'')"
    by (simp add: is_client_allowed_def sample_export_name sample_export_def)
  have "drop (cp_pos (compound_start 0)) (root_lookup (bs ''share'')) = root_lookup (bs ''share'') @ []"
    by (simp add: compound_start_def)
  from v4_ignores_allowed_clients [OF sample_mac_ok inv _ _ _ _ _ deny this, of "[]" "sample_export default_options"]
    sample_resolve_export [of default_options] show ?thesis
    by (fastforce simp: sample_export_name sample_export_def)
qed

end
