(* ===== verification/Config.thy ===== *)
theory Config
  imports Exports
begin

text \<open>
  \<open>src/config.rs\<close>, the choice of the log directory of \<open>src/logging.rs\<close>, and what the
  access list of an export means for the exports the server loads.

  The \<open>toml\<close> crate with the derived deserialisers is a parameter: it maps a text to the keys
  it has (\<open>raw_config\<close>) or rejects it.  The attributes \<open>serde(default)\<close> of the source are
  the \<open>fill\<close> functions: they supply the default of every key that is absent.
\<close>

section \<open>The configuration\<close>

record nfs_config =
  listen_address :: bytes
  bind_ip :: bytes
  enable_v3 :: bool
  enable_v4 :: bool
  threads :: nat
  max_connections :: nat
  max_conn_rate_per_ip :: nat
  enable_udp :: bool

record logging_config =
  log_level :: bytes
  log_file :: bytes
  max_log_size_mb :: nat
  max_log_files :: nat

record tls_config =
  tls_enabled :: bool
  cert_path :: "bytes option"
  key_path :: "bytes option"

text \<open>The \<open>description\<close> of an export entry is never read and is left out.\<close>

record config =
  cfg_nfs :: nfs_config
  cfg_entries :: "export_entry list"
  cfg_logging :: logging_config
  cfg_tls :: tls_config

definition backslashed :: "string \<Rightarrow> bytes" where
  "backslashed s = replace_slash (bs s)"

definition DEFAULT_CONFIG_PATH :: path where
  "DEFAULT_CONFIG_PATH = backslashed ''C:/ProgramData/RustNfsSvc/config.toml''"

definition default_nfs :: nfs_config where
  "default_nfs =
     \<lparr>listen_address = bs ''0.0.0.0:2049'', bind_ip = bs ''0.0.0.0'', enable_v3 = True, enable_v4 = True,
      threads = 4, max_connections = 128, max_conn_rate_per_ip = 60, enable_udp = True\<rparr>"

definition default_logging :: logging_config where
  "default_logging =
     \<lparr>log_level = bs ''info'', log_file = backslashed ''C:/ProgramData/RustNfsSvc/logs/rustnfssvc.log'',
      max_log_size_mb = 100, max_log_files = 10\<rparr>"

definition default_tls :: tls_config where
  "default_tls = \<lparr>tls_enabled = False, cert_path = None, key_path = None\<rparr>"

definition default_config :: config where
  "default_config =
     \<lparr>cfg_nfs = default_nfs, cfg_entries = [], cfg_logging = default_logging, cfg_tls = default_tls\<rparr>"

section \<open>Absent keys\<close>

record raw_nfs =
  raw_listen :: "bytes option"
  raw_bind_ip :: "bytes option"
  raw_v3 :: "bool option"
  raw_v4 :: "bool option"
  raw_threads :: "nat option"
  raw_max_connections :: "nat option"
  raw_rate :: "nat option"
  raw_udp :: "bool option"

record raw_entry =
  raw_path :: bytes
  raw_alias :: "bytes option"
  raw_clients :: "bytes list"
  raw_options :: "bytes list option"

record raw_logging =
  raw_level :: "bytes option"
  raw_file :: "bytes option"
  raw_max_size :: "nat option"
  raw_max_files :: "nat option"

record raw_tls =
  raw_enabled :: "bool option"
  raw_cert :: "bytes option"
  raw_key :: "bytes option"

record raw_config =
  raw_cfg_nfs :: raw_nfs
  raw_cfg_entries :: "raw_entry list"
  raw_cfg_logging :: raw_logging
  raw_cfg_tls :: "raw_tls option"

definition or_default :: "'a option \<Rightarrow> 'a \<Rightarrow> 'a" where
  "or_default x d = (case x of Some y \<Rightarrow> y | None \<Rightarrow> d)"

definition fill_nfs :: "raw_nfs \<Rightarrow> nfs_config" where
  "fill_nfs r =
     \<lparr>listen_address = or_default (raw_listen r) (listen_address default_nfs),
      bind_ip = or_default (raw_bind_ip r) (bind_ip default_nfs),
      enable_v3 = or_default (raw_v3 r) (enable_v3 default_nfs),
      enable_v4 = or_default (raw_v4 r) (enable_v4 default_nfs),
      threads = or_default (raw_threads r) (threads default_nfs),
      max_connections = or_default (raw_max_connections r) (max_connections default_nfs),
      max_conn_rate_per_ip = or_default (raw_rate r) (max_conn_rate_per_ip default_nfs),
      enable_udp = or_default (raw_udp r) (enable_udp default_nfs)\<rparr>"

definition fill_entry :: "raw_entry \<Rightarrow> export_entry" where
  "fill_entry r = \<lparr>entry_path = raw_path r, entry_alias = raw_alias r, entry_clients = raw_clients r,
     entry_options = or_default (raw_options r) []\<rparr>"

definition fill_logging :: "raw_logging \<Rightarrow> logging_config" where
  "fill_logging r =
     \<lparr>log_level = or_default (raw_level r) (log_level default_logging),
      log_file = or_default (raw_file r) (log_file default_logging),
      max_log_size_mb = or_default (raw_max_size r) (max_log_size_mb default_logging),
      max_log_files = or_default (raw_max_files r) (max_log_files default_logging)\<rparr>"

definition fill_tls :: "raw_tls \<Rightarrow> tls_config" where
  "fill_tls r = \<lparr>tls_enabled = or_default (raw_enabled r) False, cert_path = raw_cert r, key_path = raw_key r\<rparr>"

definition fill_config :: "raw_config \<Rightarrow> config" where
  "fill_config r =
     \<lparr>cfg_nfs = fill_nfs (raw_cfg_nfs r), cfg_entries = map fill_entry (raw_cfg_entries r),
      cfg_logging = fill_logging (raw_cfg_logging r),
      cfg_tls = (case raw_cfg_tls r of Some t \<Rightarrow> fill_tls t | None \<Rightarrow> default_tls)\<rparr>"

section \<open>Loading\<close>

text \<open>
  The process environment and the \<open>toml\<close> crate.  A variable that is not Unicode counts as
  not set.
\<close>

record host =
  env_var :: "bytes \<Rightarrow> bytes option"
  toml_parse :: "bytes \<Rightarrow> raw_config option"
  toml_print :: "config \<Rightarrow> bytes option"

definition extended :: "path \<Rightarrow> path" where
  "extended p =
     (if starts_bytes verbatim_start p then p
      else if is_absolute p then verbatim_start @ replace_slash p
      else p)"

definition config_path :: "host \<Rightarrow> fs \<Rightarrow> path" where
  "config_path h s =
     (case env_var h (bs ''RUSTNFSSVC_CONFIG'') of
        Some env_path \<Rightarrow> env_path
      | None \<Rightarrow> if path_exists s (bs ''config.toml'') then bs ''config.toml'' else DEFAULT_CONFIG_PATH)"

datatype config_error = Cannot_read | Cannot_parse

text \<open>\<open>read_to_string\<close> fails on bytes that are not UTF-8, which is where the lossy decoding differs.\<close>

definition load_config :: "host \<Rightarrow> fs \<Rightarrow> config_error + config" where
  "load_config h s =
     (let p = config_path h s in
      if \<not> path_exists s p then Inr default_config
      else (case fs_read s (extended p) of
          Inl _ \<Rightarrow> Inl Cannot_read
        | Inr config_content \<Rightarrow>
            if utf8_lossy config_content \<noteq> config_content then Inl Cannot_read
            else (case toml_parse h config_content of
                None \<Rightarrow> Inl Cannot_parse
              | Some r \<Rightarrow> Inr (fill_config r))))"

text \<open>\<open>std::fs::write\<close>, also used by the log directory test.\<close>

definition fs_write_file :: "env \<Rightarrow> fs \<Rightarrow> path \<Rightarrow> bytes \<Rightarrow> bool \<times> fs" where
  "fs_write_file e s p dat =
     (case fs_open_create e s p of
        Inl _ \<Rightarrow> (False, s)
      | Inr (i, _) \<Rightarrow>
          (case fs_create_file e s p of
             Inl _ \<Rightarrow> (False, s)
           | Inr s1 \<Rightarrow> (case fs_write_at e i 0 dat s1 of Inl _ \<Rightarrow> (False, s1) | Inr s2 \<Rightarrow> (True, s2))))"

definition create_default_config :: "host \<Rightarrow> env \<Rightarrow> fs \<Rightarrow> path \<Rightarrow> bool \<times> fs" where
  "create_default_config h e s p =
     (case toml_print h default_config of
        None \<Rightarrow> (False, s)
      | Some config_str \<Rightarrow>
          (let (err, s1) = (case path_parent p of
                 None \<Rightarrow> (None, s)
               | Some parent \<Rightarrow> fs_create_dir_all e s (extended parent))
           in if err \<noteq> None then (False, s1)
              else fs_write_file e s1 (extended p) config_str))"

section \<open>The log directory\<close>

definition log_candidates :: "logging_config \<Rightarrow> bytes list" where
  "log_candidates c =
     (case path_parent (log_file c) of None \<Rightarrow> [] | Some dir \<Rightarrow> [dir])
     @ [backslashed ''C:/ProgramData/RustNfsSvc/logs'', backslashed ''./logs'']"

fun first_log_dir :: "env \<Rightarrow> bytes list \<Rightarrow> fs \<Rightarrow> bytes option \<times> fs" where
  "first_log_dir e [] s = (None, s)"
| "first_log_dir e (log_dir # rest) s =
     (let (err, s1) = fs_create_dir_all e s log_dir;
          test_path = log_dir @ [backslash] @ bs ''.write_test''
      in if err \<noteq> None then first_log_dir e rest s1
         else (let (ok, s2) = fs_write_file e s1 test_path (bs ''test'')
               in if ok then (Some log_dir, case fs_remove_file s2 test_path of Inl _ \<Rightarrow> s2 | Inr s3 \<Rightarrow> s3)
                  else first_log_dir e rest s2))"

definition resolve_log_dir :: "env \<Rightarrow> logging_config \<Rightarrow> fs \<Rightarrow> bytes option \<times> fs" where
  "resolve_log_dir e c s = first_log_dir e (log_candidates c) s"

section \<open>What the server exports is what is configured\<close>

lemma collect_nets_all:
  "collect_nets d cs = Some nets \<Longrightarrow> net \<in> set nets \<Longrightarrow> \<exists>c \<in> set cs. \<exists>ns. client_nets d c = Some ns \<and> net \<in> set ns"
  by (induction cs arbitrary: nets) (fastforce split: bind_splits)+

lemma load_entries_from:
  assumes "load_entries d s es acc = Some new" and "(name, ex) \<in> set new"
  shows "(name, ex) \<in> set acc \<or> (\<exists>entry \<in> set es. parse_export_entry d entry = Some ex
    \<and> name = exp_path ex \<and> path_is_dir s (to_extended_path (cwd s) (exp_path ex)))"
  using assms
proof (induction es arbitrary: acc)
  case (Cons entry es)
  from Cons.prems(1) obtain x where x: "parse_export_entry d entry = Some x" by (auto split: bind_splits)
  let ?p = "to_extended_path (cwd s) (exp_path x)"
  show ?case
  proof (cases "path_exists s ?p \<and> path_is_dir s ?p")
    case True
    with Cons.prems(1) x have "load_entries d s es (AList.update (exp_path x) x acc) = Some new" by simp
    from Cons.IH [OF this Cons.prems(2)] x True show ?thesis
      using set_update_subset [of "exp_path x" x acc] by fastforce
  next
    case False
    with Cons.prems(1) x have "load_entries d s es acc = Some new" by (auto simp: Let_def split: if_splits)
    from Cons.IH [OF this Cons.prems(2)] show ?thesis by auto
  qed
qed simp

text \<open>The last option that says so decides whether an export is read-only.\<close>

definition mode_options :: "bytes list \<Rightarrow> bytes list" where
  "mode_options opts = filter (\<lambda>opt. opt \<in> {bs ''ro'', bs ''read-only'', bs ''rw'', bs ''read-write''}) opts"

definition configured_read_only :: "bytes list \<Rightarrow> bool" where
  "configured_read_only opts \<longleftrightarrow> mode_options opts \<noteq> [] \<and> last (mode_options opts) \<in> {bs ''ro'', bs ''read-only''}"

lemma apply_option_read_only:
  "read_only (apply_option o' opt) \<longleftrightarrow>
     (if opt \<in> {bs ''ro'', bs ''read-only'', bs ''rw'', bs ''read-write''} then opt \<in> {bs ''ro'', bs ''read-only''}
      else read_only o')"
  by (simp add: apply_option_def)

lemma options_read_only:
  "read_only (foldl apply_option default_options opts) \<longleftrightarrow> configured_read_only opts"
proof (induction opts rule: rev_induct)
  case (snoc opt opts)
  then show ?case
    by (simp only: foldl_append foldl.simps apply_option_read_only)
      (simp add: configured_read_only_def mode_options_def)
qed (simp add: configured_read_only_def mode_options_def default_options_def)

text \<open>
  C15: after a reload every export a client may mount is one of the configured entries: its
  directory exists, the client's address is in a network one of the configured client strings
  of that entry stands for, and it is writable exactly if the entry says so.  An entry without
  clients admits nobody.
\<close>

theorem access_is_configured:
  assumes "reload_exports_async d s (em_new e (cfg_entries cfg)) = (True, m)"
    and "is_client_allowed d m ip name"
  shows "\<exists>entry \<in> set (cfg_entries cfg). \<exists>ex. resolve_export_path m name = Some ex
    \<and> exp_path ex = entry_path entry \<and> path_is_dir s (to_extended_path (cwd s) (entry_path entry))
    \<and> (\<exists>client \<in> set (entry_clients entry). \<exists>nets net. client_nets d client = Some nets \<and> net \<in> set nets
          \<and> net_contains d net ip)
    \<and> (read_only (options ex) \<longleftrightarrow> configured_read_only (entry_options entry))"
proof -
  from assms(1) obtain new where new: "load_entries d s (cfg_entries cfg) [] = Some new"
    and m: "exports m = new"
    by (auto simp: reload_exports_async_def em_new_def split: option.splits)
  from assms(2) obtain ex net where ex: "resolve_export_path m name = Some ex"
    and net: "net \<in> set (allowed_clients ex)" "net_contains d net ip"
    by (auto simp: is_client_allowed_def list_ex_iff split: option.splits)
  from resolve_export_in [OF ex] obtain k where "(k, ex) \<in> set new" by (auto simp: m)
  from load_entries_from [OF new this] obtain entry where entry: "entry \<in> set (cfg_entries cfg)"
    "parse_export_entry d entry = Some ex" "path_is_dir s (to_extended_path (cwd s) (exp_path ex))" by auto
  from entry(2) have p: "collect_nets d (entry_clients entry) = Some (allowed_clients ex)"
    "exp_path ex = entry_path entry" "options ex = foldl apply_option default_options (entry_options entry)"
    by (auto simp: parse_export_entry_def split: bind_splits)
  from collect_nets_all [OF p(1) net(1)] net(2) entry ex p show ?thesis
    by (auto simp: options_read_only)
qed

text \<open>A configuration with the directory of the sample drive, read-only, for the network 10.0.0.0/8.\<close>

definition sample_entry :: export_entry where
  "sample_entry = \<lparr>entry_path = bs ''D:/share'', entry_alias = None, entry_clients = [bs ''10.0.0.0/8''],
     entry_options = [bs ''rw'', bs ''ro'', bs ''sync'']\<rparr>"

definition sample_loaded :: export where
  "sample_loaded = \<lparr>exp_path = bs ''D:/share'', exp_alias = None,
     allowed_clients = [IpNet (IpV4 0x0A000000) 8],
     options = foldl apply_option default_options [bs ''rw'', bs ''ro'', bs ''sync'']\<rparr>"

lemma sample_entry_loads:
  "reload_exports_async sample_deps sample_fs (em_new sample_env [sample_entry])
    = (True, (em_new sample_env [sample_entry])\<lparr>exports := [(bs ''D:/share'', sample_loaded)]\<rparr>)"
proof -
  have "path_exists sample_fs (to_extended_path (cwd sample_fs) (bs ''D:/share''))"
    "path_is_dir sample_fs (to_extended_path (cwd sample_fs) (bs ''D:/share''))"
    by code_simp+
  moreover have "client_nets sample_deps (bs ''10.0.0.0/8'') = Some [IpNet (IpV4 0x0A000000) 8]"
  proof -
    have "bs ''10.0.0.0/8'' \<noteq> bs ''*''" by code_simp
    then show ?thesis by (simp add: client_nets_def sample_deps_def)
  qed
  ultimately show ?thesis
    by (simp add: reload_exports_async_def em_new_def sample_entry_def sample_loaded_def parse_export_entry_def)
qed

theorem access_is_configured_witness:
  "\<exists>entry \<in> {sample_entry}. \<exists>ex. resolve_export_path
       (snd (reload_exports_async sample_deps sample_fs (em_new sample_env [sample_entry]))) (bs ''share'') = Some ex
     \<and> exp_path ex = bs ''D:/share'' \<and> read_only (options ex)"
proof -
  let ?m = "(em_new sample_env [sample_entry])\<lparr>exports := [(bs ''D:/share'', sample_loaded)]\<rparr>"
  have load: "reload_exports_async sample_deps sample_fs
      (em_new sample_env (cfg_entries (default_config\<lparr>cfg_entries := [sample_entry]\<rparr>))) = (True, ?m)"
    by (simp add: sample_entry_loads)
  have "path_file_name (bs ''D:/share'') = Some (bs ''share'')"
    "dropWhile (\<lambda>c. c = slash) (bs ''share'') = bs ''share''" by code_simp+
  then have "resolve_export_path ?m (bs ''share'') = Some sample_loaded"
    by (simp add: resolve_export_path_def alias_match_def leading_match_def dir_name_of_def sample_loaded_def)
  then have "is_client_allowed sample_deps ?m (IpV4 0x0A000001) (bs ''share'')"
    by (simp add: is_client_allowed_def sample_loaded_def sample_deps_def)
  moreover have "configured_read_only (entry_options sample_entry)" by code_simp
  moreover have "entry_path sample_entry = bs ''D:/share''" by (simp add: sample_entry_def)
  ultimately show ?thesis
    using access_is_configured [OF load, of "IpV4 0x0A000001" "bs ''share''"]
    by (auto simp: sample_entry_loads)
qed

end
