(* ===== verification/Install.thy ===== *)
theory Install
  imports Config
begin

text \<open>
  Registering the program with the service control manager: \<open>install_service\<close> and
  \<open>uninstall_service\<close> of \<open>src/service.rs\<close>, which run \<open>sc.exe\<close>, and the stand-alone programs
  \<open>src/install.rs\<close> and \<open>src/uninstall.rs\<close>, which call the service manager.  The tool and the manager
  act on a world \<open>'w\<close> and are parameters.
\<close>

section \<open>sc.exe\<close>

definition SERVICE_NAME :: bytes where "SERVICE_NAME = bs ''rustnfssvc''"
definition SERVICE_DISPLAY_NAME :: bytes where "SERVICE_DISPLAY_NAME = bs ''Rust NFS Server Service''"

record sc_output =
  sc_success :: bool
  sc_stdout :: bytes
  sc_stderr :: bytes

text \<open>The outcome of a run: \<open>None\<close> when the command could not be started.\<close>

type_synonym 'w sc_tool = "bytes list \<Rightarrow> 'w \<Rightarrow> sc_output option \<times> 'w"

datatype install_error = No_exe_path | Sc_not_run | Sc_failed bytes bytes

definition quote :: u8 where "quote = 0x22"

definition bin_path :: "bytes \<Rightarrow> bytes" where
  "bin_path exe_path = [quote] @ exe_path @ [quote] @ bs '' service''"

definition account_args :: "host \<Rightarrow> bytes list" where
  "account_args h =
     (case env_var h (bs ''RUSTNFSSVC_SERVICE_ACCOUNT'') of
        Some account \<Rightarrow>
          [bs ''obj='', account, bs ''password='',
           case env_var h (bs ''RUSTNFSSVC_SERVICE_PASSWORD'') of Some p \<Rightarrow> p | None \<Rightarrow> []]
      | None \<Rightarrow> [])"

definition sc_create_args :: "host \<Rightarrow> bytes \<Rightarrow> bytes list" where
  "sc_create_args h exe_path =
     [bs ''create'', SERVICE_NAME, bs ''binPath='', bin_path exe_path, bs ''start='', bs ''auto'',
      bs ''DisplayName='', SERVICE_DISPLAY_NAME] @ account_args h"

definition sc_result :: "sc_output option \<Rightarrow> install_error + unit" where
  "sc_result out =
     (case out of
        None \<Rightarrow> Inl Sc_not_run
      | Some x \<Rightarrow>
          if \<not> sc_success x then Inl (Sc_failed (utf8_lossy (sc_stdout x)) (utf8_lossy (sc_stderr x)))
          else Inr ())"

definition install_service :: "host \<Rightarrow> 'w sc_tool \<Rightarrow> bytes option \<Rightarrow> 'w \<Rightarrow> (install_error + unit) \<times> 'w" where
  "install_service h sc current_exe w =
     (case current_exe of
        None \<Rightarrow> (Inl No_exe_path, w)
      | Some exe \<Rightarrow>
          (let (out, w1) = sc (sc_create_args h (utf8_lossy exe)) w
           in (sc_result out, w1)))"

definition uninstall_service :: "'w sc_tool \<Rightarrow> 'w \<Rightarrow> (install_error + unit) \<times> 'w" where
  "uninstall_service sc w =
     (let (ignored, w1) = sc [bs ''stop'', SERVICE_NAME] w;
          (out, w2) = sc [bs ''delete'', SERVICE_NAME] w1
      in (sc_result out, w2))"

section \<open>The command line the service is started with\<close>

text \<open>
  How \<open>std::env::args\<close> of Windows takes the first argument off a command line: a quotation mark
  turns quoting on or off, a blank outside of quotes ends the argument, and backslashes stand for
  themselves.  The rest of the command line built here has no quotation mark and no backslash, and
  is cut at its blanks.
\<close>

definition is_blank :: "u8 \<Rightarrow> bool" where "is_blank b \<longleftrightarrow> b = 0x20 \<or> b = 0x09"

fun program_name :: "bool \<Rightarrow> bytes \<Rightarrow> bytes \<Rightarrow> bytes \<times> bytes" where
  "program_name in_quotes acc [] = (acc, [])"
| "program_name in_quotes acc (b # r) =
     (if b = quote then program_name (\<not> in_quotes) acc r
      else if is_blank b \<and> \<not> in_quotes then (acc, dropWhile is_blank r)
      else program_name in_quotes (acc @ [b]) r)"

lemma program_name_quoted:
  "quote \<notin> set exe \<Longrightarrow> program_name True acc (exe @ quote # r) = program_name False (acc @ exe) r"
  by (induction exe arbitrary: acc) auto

text \<open>
  The path of the program is registered in quotes: whatever blanks it has, the service control
  manager starts this program and no other, with the argument \<open>service\<close>.
\<close>

lemma registered_command_line:
  assumes "quote \<notin> set exe"
  shows "program_name False [] (bin_path exe) = (exe, bs ''service'')"
proof -
  have "program_name False exe (bs '' service'') = (exe, bs ''service'')"
    by (simp add: bs_def quote_def is_blank_def)
  with program_name_quoted [OF assms, of "[]"] show ?thesis by (simp add: bin_path_def)
qed

section \<open>What is asked of sc.exe\<close>

text \<open>Installing never names an account without a password argument, and none without being told to.\<close>

lemma account_only_if_named:
  "bs ''obj='' \<in> set (account_args h) \<longleftrightarrow> env_var h (bs ''RUSTNFSSVC_SERVICE_ACCOUNT'') \<noteq> None"
  by (cases "env_var h (bs ''RUSTNFSSVC_SERVICE_ACCOUNT'')") (simp_all add: account_args_def)

text \<open>
  A registry of services as \<open>sc.exe\<close> keeps it: \<open>create\<close> fails for a known name, \<open>delete\<close> for an
  unknown one.  Under this behaviour of the tool, uninstalling after installing restores the
  registry, and a second installation fails and changes nothing.
\<close>

definition registers :: "'w sc_tool \<Rightarrow> ('w \<Rightarrow> bytes \<Rightarrow> bytes option) \<Rightarrow> bool" where
  "registers sc reg \<longleftrightarrow>
     (\<forall>name path opts w. \<exists>out w'. sc ([bs ''create'', name, bs ''binPath='', path] @ opts) w = (Some out, w')
        \<and> sc_success out = (reg w name = None)
        \<and> reg w' = (if reg w name = None then (reg w)(name \<mapsto> path) else reg w))
     \<and> (\<forall>name w. reg (snd (sc [bs ''stop'', name] w)) = reg w)
     \<and> (\<forall>name w. \<exists>out w'. sc [bs ''delete'', name] w = (Some out, w')
        \<and> sc_success out = (reg w name \<noteq> None) \<and> reg w' = (reg w)(name := None))"

lemma registers_create:
  assumes "registers sc reg"
  shows "\<exists>out w'. sc (sc_create_args h exe) w = (Some out, w') \<and> sc_success out = (reg w SERVICE_NAME = None)
    \<and> reg w' = (if reg w SERVICE_NAME = None then (reg w)(SERVICE_NAME \<mapsto> bin_path exe) else reg w)"
  using assms unfolding registers_def sc_create_args_def by simp

lemma install_registers:
  assumes "registers sc reg" and "install_service h sc (Some exe) w = (r, w')"
  shows "(r = Inr ()) = (reg w SERVICE_NAME = None)"
    and "reg w' = (if reg w SERVICE_NAME = None then (reg w)(SERVICE_NAME \<mapsto> bin_path (utf8_lossy exe)) else reg w)"
  using registers_create [OF assms(1), of h "utf8_lossy exe" w] assms(2)
  by (auto simp: install_service_def sc_result_def split: if_splits)

lemma uninstall_removes:
  assumes "registers sc reg" and "uninstall_service sc w = (r, w')"
  shows "(r = Inr ()) = (reg w SERVICE_NAME \<noteq> None)" and "reg w' = (reg w)(SERVICE_NAME := None)"
proof -
  obtain x w1 where s: "sc [bs ''stop'', SERVICE_NAME] w = (x, w1)" by fastforce
  from assms(1) have "reg (snd (sc [bs ''stop'', SERVICE_NAME] w)) = reg w" by (simp add: registers_def)
  then have w1: "reg w1 = reg w" by (simp add: s)
  from assms(1) obtain out w2 where d: "sc [bs ''delete'', SERVICE_NAME] w1 = (Some out, w2)"
    "sc_success out = (reg w1 SERVICE_NAME \<noteq> None)" "reg w2 = (reg w1)(SERVICE_NAME := None)"
    unfolding registers_def by blast
  from assms(2) s d(1) have "w' = w2" "r = sc_result (Some out)" by (simp_all add: uninstall_service_def)
  with d(2,3) w1 show "(r = Inr ()) = (reg w SERVICE_NAME \<noteq> None)" "reg w' = (reg w)(SERVICE_NAME := None)"
    by (auto simp: sc_result_def)
qed

text \<open>
  With a tool that keeps a registry of services, an installation succeeds exactly when the
  service is not registered yet, registers the quoted path of the program with the argument
  \<open>service\<close>, and uninstalling afterwards succeeds and gives the old registry back.
\<close>

theorem uninstall_undoes_install:
  assumes "registers sc reg" and "reg w SERVICE_NAME = None" and "quote \<notin> set (utf8_lossy exe)"
    and "install_service h sc (Some exe) w = (r1, w1)" and "uninstall_service sc w1 = (r2, w2)"
  shows "r1 = Inr () \<and> r2 = Inr () \<and> reg w2 = reg w
    \<and> (\<exists>cmd. reg w1 SERVICE_NAME = Some cmd \<and> program_name False [] cmd = (utf8_lossy exe, bs ''service''))"
proof -
  from install_registers [OF assms(1,4)] assms(2) have r1: "r1 = Inr ()"
    and w1: "reg w1 = (reg w)(SERVICE_NAME \<mapsto> bin_path (utf8_lossy exe))" by auto
  from uninstall_removes [OF assms(1,5)] w1 assms(2) have "r2 = Inr ()" "reg w2 = reg w" by auto
  with r1 w1 registered_command_line [OF assms(3)] show ?thesis by simp
qed

text \<open>A tool that keeps its registry in a map.\<close>

definition sample_sc :: "(bytes \<Rightarrow> bytes option) sc_tool" where
  "sample_sc args w =
     (let done = (\<lambda>ok. Some \<lparr>sc_success = ok, sc_stdout = [], sc_stderr = []\<rparr>) in
      case args of
        [cmd, name] \<Rightarrow>
          if cmd = bs ''delete'' then (done (w name \<noteq> None), w(name := None)) else (done True, w)
      | cmd # name # key # path # opts \<Rightarrow>
          if w name = None then (done True, w(name \<mapsto> path)) else (done False, w)
      | _ \<Rightarrow> (None, w))"

lemma sample_sc_registers: "registers sample_sc id"
proof -
  have "bs ''stop'' \<noteq> bs ''delete''" by code_simp
  then show ?thesis by (auto simp: registers_def sample_sc_def Let_def)
qed

theorem uninstall_undoes_install_witness:
  "\<forall>h. \<exists>w1 w2. install_service h sample_sc (Some (bs ''C:/Program Files/r.exe'')) Map.empty = (Inr (), w1)
     \<and> uninstall_service sample_sc w1 = (Inr (), w2) \<and> w2 = Map.empty"
proof
  fix h
  obtain r1 w1 where i: "install_service h sample_sc (Some (bs ''C:/Program Files/r.exe'')) Map.empty = (r1, w1)"
    by fastforce
  obtain r2 w2 where u: "uninstall_service sample_sc w1 = (r2, w2)" by fastforce
  have "utf8_lossy (bs ''C:/Program Files/r.exe'') = bs ''C:/Program Files/r.exe''"
    by (rule utf8_lossy_ascii) (simp add: bs_def)
  then have "quote \<notin> set (utf8_lossy (bs ''C:/Program Files/r.exe''))" by (simp add: bs_def quote_def)
  from uninstall_undoes_install [OF sample_sc_registers _ this i u] i u
  show "\<exists>w1 w2. install_service h sample_sc (Some (bs ''C:/Program Files/r.exe'')) Map.empty = (Inr (), w1)
     \<and> uninstall_service sample_sc w1 = (Inr (), w2) \<and> w2 = Map.empty" by auto
qed

section \<open>The stand-alone programs\<close>

text \<open>The service manager as the two programs use it.\<close>

record service_info =
  si_name :: bytes
  si_display_name :: bytes
  si_executable_path :: bytes
  si_launch_arguments :: "bytes list"
  si_account_name :: "bytes option"

record 'w service_manager =
  connect_ok :: "'w \<Rightarrow> bool"
  create_entry :: "service_info \<Rightarrow> 'w \<Rightarrow> 'w option"
  open_entry :: "bytes \<Rightarrow> 'w \<Rightarrow> bool"
  stop_entry :: "bytes \<Rightarrow> 'w \<Rightarrow> 'w"
  delete_entry :: "bytes \<Rightarrow> 'w \<Rightarrow> 'w option"

datatype program_exit = Exit_code nat | Returned_error | Returned_ok

text \<open>Type, start mode and error control of the entry are always own process, automatic and normal.\<close>

definition standalone_info :: "bytes \<Rightarrow> service_info" where
  "standalone_info exe_path =
     \<lparr>si_name = bs ''RustNfsSvc'', si_display_name = bs ''Rust NFS Server Service'',
      si_executable_path = exe_path, si_launch_arguments = [], si_account_name = None\<rparr>"

definition standalone_install :: "bool \<Rightarrow> 'w service_manager \<Rightarrow> bytes option \<Rightarrow> 'w \<Rightarrow> program_exit \<times> 'w" where
  "standalone_install is_admin m current_exe w =
     (if \<not> is_admin then (Exit_code 1, w)
      else if \<not> connect_ok m w then (Returned_error, w)
      else case current_exe of
          None \<Rightarrow> (Returned_error, w)
        | Some exe \<Rightarrow>
            (case create_entry m (standalone_info exe) w of
               None \<Rightarrow> (Returned_error, w)
             | Some w' \<Rightarrow> (Returned_ok, w')))"

definition standalone_uninstall :: "bool \<Rightarrow> 'w service_manager \<Rightarrow> 'w \<Rightarrow> program_exit \<times> 'w" where
  "standalone_uninstall is_admin m w =
     (if \<not> is_admin then (Exit_code 1, w)
      else if \<not> connect_ok m w \<or> \<not> open_entry m (bs ''RustNfsSvc'') w then (Returned_error, w)
      else let w1 = stop_entry m (bs ''RustNfsSvc'') w
           in case delete_entry m (bs ''RustNfsSvc'') w1 of
                None \<Rightarrow> (Returned_error, w1)
              | Some w2 \<Rightarrow> (Returned_ok, w2))"

text \<open>
  Without the administrator's rights neither program touches the service manager, and a failed
  installation registers nothing.
\<close>

lemma standalone_refused:
  "standalone_install False m exe w = (Exit_code 1, w)" "standalone_uninstall False m w = (Exit_code 1, w)"
  "standalone_install a m exe w = (r, w') \<Longrightarrow> r \<noteq> Returned_ok \<Longrightarrow> w' = w"
  by (auto simp: standalone_install_def standalone_uninstall_def split: if_splits option.splits)

text \<open>
  The stand-alone installer registers itself, without the argument \<open>service\<close>: the service control
  manager would start the installer, not the server.
\<close>

lemma standalone_registers_itself:
  assumes "standalone_install True m (Some exe) w = (Returned_ok, w')"
  shows "\<exists>info. create_entry m info w = Some w' \<and> si_executable_path info = exe \<and> si_launch_arguments info = []"
  using assms
  by (intro exI [of _ "standalone_info exe"])
    (auto simp: standalone_install_def standalone_info_def split: if_splits option.splits)

end
