(* ===== verification/Logging.thy ===== *)
theory Logging
  imports Config
begin

text \<open>
  \<open>src/logging.rs\<close>: which subscriber \<open>init\<close> and \<open>init_stderr\<close> install (the filter and the
  layers), with the directory of the log file from \<open>resolve_log_dir\<close> of \<open>Config\<close>.
\<close>

section \<open>The subscriber\<close>

text \<open>
  The filters of \<open>tracing_subscriber\<close>: \<open>EnvFilter::try_from_default_env\<close> parses the variable
  strictly, \<open>EnvFilter::new\<close> drops what it cannot parse.
\<close>

record 'f log_lib =
  filter_strict :: "bytes \<Rightarrow> 'f option"
  filter_lossy :: "bytes \<Rightarrow> 'f"

datatype log_writer = To_stderr | To_daily_file bytes bytes

record log_layer =
  layer_writer :: log_writer
  with_target :: bool
  with_thread_ids :: bool
  with_file :: bool
  with_line_number :: bool

record 'f subscriber =
  env_filter :: 'f
  log_layers :: "log_layer list"

definition RUST_LOG :: bytes where "RUST_LOG = bs ''RUST_LOG''"

definition filter_or :: "'f log_lib \<Rightarrow> host \<Rightarrow> bytes \<Rightarrow> 'f" where
  "filter_or l h level =
     (case env_var h RUST_LOG of
        None \<Rightarrow> filter_lossy l level
      | Some v \<Rightarrow> (case filter_strict l v of None \<Rightarrow> filter_lossy l level | Some f \<Rightarrow> f))"

definition log_init :: "'f log_lib \<Rightarrow> host \<Rightarrow> env \<Rightarrow> logging_config \<Rightarrow> fs \<Rightarrow> 'f subscriber \<times> fs" where
  "log_init l h e c s =
     (let filter = filter_or l h (log_level c);
          console_layer = \<lparr>layer_writer = To_stderr, with_target = True, with_thread_ids = False,
            with_file = False, with_line_number = False\<rparr>;
          (log_dir, s1) = resolve_log_dir e c s
      in case log_dir of
           Some dir \<Rightarrow>
             (let file_layer = \<lparr>layer_writer = To_daily_file dir (bs ''rustnfssvc''), with_target = True,
                with_thread_ids = True, with_file = True, with_line_number = True\<rparr>
              in (\<lparr>env_filter = filter, log_layers = [console_layer, file_layer]\<rparr>, s1))
         | None \<Rightarrow> (\<lparr>env_filter = filter, log_layers = [console_layer]\<rparr>, s1))"

definition log_init_stderr :: "'f log_lib \<Rightarrow> host \<Rightarrow> 'f subscriber" where
  "log_init_stderr l h =
     \<lparr>env_filter = filter_or l h (bs ''info''),
      log_layers = [\<lparr>layer_writer = To_stderr, with_target = False, with_thread_ids = False,
        with_file = False, with_line_number = False\<rparr>]\<rparr>"

section \<open>Where the log goes\<close>

text \<open>
  The file layer is there exactly when one of the candidate directories could be written, and
  writes to the first of them; the console layer is there in every case.
\<close>

lemma first_log_dir_candidate: "first_log_dir e ds s = (Some dir, s') \<Longrightarrow> dir \<in> set ds"
  by (induction ds arbitrary: s) (auto simp: Let_def split: if_splits prod.splits)

lemma log_init_layers:
  assumes "log_init l h e c s = (sub, s')"
  shows "map layer_writer (log_layers sub) = To_stderr #
      (case fst (resolve_log_dir e c s) of None \<Rightarrow> [] | Some dir \<Rightarrow> [To_daily_file dir (bs ''rustnfssvc'')])"
    and "s' = snd (resolve_log_dir e c s)"
    and "To_daily_file dir name \<in> layer_writer ` set (log_layers sub) \<Longrightarrow> dir \<in> set (log_candidates c)"
proof -
  obtain d s1 where d: "resolve_log_dir e c s = (d, s1)" by fastforce
  have dir: "dir \<in> set (log_candidates c)" if "d = Some dir" for dir
    using d that first_log_dir_candidate by (simp add: resolve_log_dir_def)
  show "map layer_writer (log_layers sub) = To_stderr #
      (case fst (resolve_log_dir e c s) of None \<Rightarrow> [] | Some dir \<Rightarrow> [To_daily_file dir (bs ''rustnfssvc'')])"
    "s' = snd (resolve_log_dir e c s)"
    using assms d by (auto simp: log_init_def Let_def split: option.splits)
  show "To_daily_file dir name \<in> layer_writer ` set (log_layers sub) \<Longrightarrow> dir \<in> set (log_candidates c)"
    using assms d dir by (auto simp: log_init_def Let_def split: option.splits)
qed

text \<open>
  \<open>RUST_LOG\<close> decides the filter when it can be parsed, whatever the configuration; otherwise
  the configured level does.  The settings \<open>max_log_size_mb\<close> and \<open>max_log_files\<close> have no effect:
  the appender rotates by the day and removes nothing.
\<close>

lemma log_filter_priority:
  "env_var h RUST_LOG = Some v \<Longrightarrow> filter_strict l v = Some f \<Longrightarrow> env_filter (fst (log_init l h e c s)) = f"
  "env_var h RUST_LOG = None \<Longrightarrow> env_filter (fst (log_init l h e c s)) = filter_lossy l (log_level c)"
  by (auto simp: log_init_def filter_or_def Let_def split: option.splits prod.splits)

lemma log_limits_ignored:
  "log_init l h e (c\<lparr>max_log_size_mb := m, max_log_files := n\<rparr>) s = log_init l h e c s"
  by (simp add: log_init_def resolve_log_dir_def log_candidates_def)

end
