(* ===== verification/Service.thy ===== *)
theory Service
  imports Install Logging Limiter
begin

text \<open>
  The start of the server (\<open>NfsServer::start\<close> and \<open>load_tls_config\<close> of \<open>src/nfs/mod.rs\<close>),
  the Windows service of \<open>src/service.rs\<close> as the sequence of states it reports to the service
  control manager, and the subcommands and the foreground mode of \<open>src/main.rs\<close>.  Binding sockets and running the
  spawned tasks are not part of these models: a task is a value that says which server was
  started with which settings.
\<close>

section \<open>TLS\<close>

text \<open>The PEM parsers and the configuration builder of \<open>rustls\<close>.\<close>

record tls_lib =
  pem_certs :: "bytes \<Rightarrow> bytes list option"
  pem_pkcs8 :: "bytes \<Rightarrow> bytes list option"
  pem_rsa :: "bytes \<Rightarrow> bytes list option"
  single_cert_ok :: "bytes list \<Rightarrow> bytes \<Rightarrow> bool"

datatype tls_error = No_cert_file | No_key_file | Bad_certs | No_certs | Bad_keys | No_keys | Bad_pair

definition tls_key :: "tls_lib \<Rightarrow> bytes \<Rightarrow> tls_error + bytes" where
  "tls_key t key_file =
     (case pem_pkcs8 t key_file of
        None \<Rightarrow> Inl Bad_keys
      | Some (k # _) \<Rightarrow> Inr k
      | Some [] \<Rightarrow>
          (case pem_rsa t key_file of
             None \<Rightarrow> Inl Bad_keys
           | Some [] \<Rightarrow> Inl No_keys
           | Some (k # _) \<Rightarrow> Inr k))"

definition load_tls_config :: "tls_lib \<Rightarrow> fs \<Rightarrow> path \<Rightarrow> path \<Rightarrow> tls_error + (bytes list \<times> bytes)" where
  "load_tls_config t s cert key =
     (case fs_read s (to_extended_path (cwd s) cert) of
        Inl _ \<Rightarrow> Inl No_cert_file
      | Inr cert_file \<Rightarrow>
          (case fs_read s (to_extended_path (cwd s) key) of
             Inl _ \<Rightarrow> Inl No_key_file
           | Inr key_file \<Rightarrow>
               (case pem_certs t cert_file of
                  None \<Rightarrow> Inl Bad_certs
                | Some cs \<Rightarrow>
                    if cs = [] then Inl No_certs
                    else (case tls_key t key_file of
                        Inl x \<Rightarrow> Inl x
                      | Inr k \<Rightarrow> if single_cert_ok t cs k then Inr (cs, k) else Inl Bad_pair))))"

section \<open>Starting the servers\<close>

datatype task =
    Portmap_server bytes
  | Mount_server bytes
  | Lease_cleanup
  | Rate_cleanup
  | Unified_server bytes nat bool limiter "(bytes list \<times> bytes) option"

datatype start_error = Cert_path_not_set | Key_path_not_set | Tls_failed tls_error

definition tls_acceptor :: "tls_lib \<Rightarrow> fs \<Rightarrow> tls_config \<Rightarrow> start_error + (bytes list \<times> bytes) option" where
  "tls_acceptor t s c =
     (if tls_enabled c then
        (case cert_path c of
           None \<Rightarrow> Inl Cert_path_not_set
         | Some cert \<Rightarrow>
             (case key_path c of
                None \<Rightarrow> Inl Key_path_not_set
              | Some key \<Rightarrow>
                  (case load_tls_config t s cert key of
                     Inl x \<Rightarrow> Inl (Tls_failed x)
                   | Inr pair \<Rightarrow> Inr (Some pair))))
      else Inr None)"

definition nfs_start :: "tls_lib \<Rightarrow> fs \<Rightarrow> config \<Rightarrow> start_error + task list" where
  "nfs_start t s c =
     (case tls_acceptor t s (cfg_tls c) of
        Inl x \<Rightarrow> Inl x
      | Inr acceptor \<Rightarrow>
          (let n = cfg_nfs c in
           Inr [Portmap_server (bind_ip n), Mount_server (bind_ip n), Lease_cleanup, Rate_cleanup,
                Unified_server (bind_ip n) (max_connections n) (enable_udp n)
                  (limiter_new (max_conn_rate_per_ip n) 60) acceptor]))"

text \<open>
  The settings the start never looks at: disabling a protocol version in the configuration has
  no effect.
\<close>

lemma start_ignores_settings:
  "nfs_start t s (c\<lparr>cfg_nfs := (cfg_nfs c)\<lparr>enable_v3 := v3, enable_v4 := v4, threads := k, listen_address := l\<rparr>\<rparr>)
     = nfs_start t s c"
  by (cases "tls_acceptor t s (cfg_tls c)") (simp_all add: nfs_start_def Let_def)

section \<open>The Windows service\<close>

datatype service_state = Start_pending | Running | Stop_pending | Stopped

record status_report =
  rp_state :: service_state
  rp_accepts_stop :: bool
  rp_exit_code :: nat
  rp_wait_hint :: nat

definition report_status :: "service_state \<Rightarrow> nat \<Rightarrow> nat \<Rightarrow> status_report" where
  "report_status s exit_code wait_hint =
     \<lparr>rp_state = s, rp_accepts_stop = (s = Running \<or> s = Start_pending), rp_exit_code = exit_code,
      rp_wait_hint = wait_hint\<rparr>"

text \<open>
  What happens outside: whether the dispatcher of the service control manager can be reached, the
  control handler registered and the runtime created, whether a stop signal ever comes, and the
  path of the program.
\<close>

record outside =
  dispatcher_ok :: bool
  register_ok :: bool
  runtime_ok :: bool
  stop_comes :: bool
  current_exe :: "bytes option"

text \<open>
  What a run of the service leaves: the states it reported, the tasks that run when the call has
  ended or waits for the signal, and the subscriber installed; events reported before there is one
  are lost.
\<close>

record 'f service_run =
  reports :: "status_report list"
  tasks :: "task list"
  finished :: bool
  logger :: "'f subscriber option"

definition started_tasks :: "tls_lib \<Rightarrow> fs \<Rightarrow> config \<Rightarrow> task list" where
  "started_tasks t s c = (case nfs_start t s c of Inl _ \<Rightarrow> [] | Inr ts \<Rightarrow> ts)"

definition service_main :: "host \<Rightarrow> 'f log_lib \<Rightarrow> tls_lib \<Rightarrow> env \<Rightarrow> fs \<Rightarrow> outside \<Rightarrow> 'f service_run" where
  "service_main h l t e s o' =
     (if \<not> register_ok o' then \<lparr>reports = [], tasks = [], finished = True, logger = None\<rparr>
      else
        (let r0 = [report_status Start_pending 0 3000] in
         case load_config h s of
           Inl _ \<Rightarrow> \<lparr>reports = r0 @ [report_status Stopped 1 0], tasks = [], finished = True, logger = None\<rparr>
         | Inr c \<Rightarrow>
             (let (sub, s1) = log_init l h e (cfg_logging c) s;
                  r1 = r0 @ [report_status Running 0 0]
              in if \<not> runtime_ok o'
                 then \<lparr>reports = r1 @ [report_status Stopped 1 0], tasks = [], finished = True, logger = Some sub\<rparr>
                 else if \<not> stop_comes o'
                 then \<lparr>reports = r1, tasks = started_tasks t s1 c, finished = False, logger = Some sub\<rparr>
                 else \<lparr>reports = r1 @ [report_status Stop_pending 0 3000, report_status Stopped 0 0],
                       tasks = [], finished = True, logger = Some sub\<rparr>)))"

text \<open>\<open>service_dispatcher::start\<close> runs \<open>service_main\<close> and returns when the service has stopped.\<close>

definition run_service :: "host \<Rightarrow> 'f log_lib \<Rightarrow> tls_lib \<Rightarrow> env \<Rightarrow> fs \<Rightarrow> outside \<Rightarrow> 'f service_run option" where
  "run_service h l t e s o' = (if dispatcher_ok o' then Some (service_main h l t e s o') else None)"

section \<open>The command line\<close>

datatype 'f main_result =
    Done
  | Failed
  | Usage_exit
  | In_service "'f service_run"
  | Waiting "task list"

definition main_mode :: "deps \<Rightarrow> host \<Rightarrow> 'f log_lib \<Rightarrow> tls_lib \<Rightarrow> env \<Rightarrow> fs \<Rightarrow> outside \<Rightarrow> 'w sc_tool \<Rightarrow> 'w
    \<Rightarrow> bytes list \<Rightarrow> 'f main_result \<times> 'w" where
  "main_mode d h l t e s o' sc w args =
     (case args of
        _ # cmd # _ \<Rightarrow>
          if cmd = bs ''install'' then
            (case install_service h sc (current_exe o') w of (Inl _, w') \<Rightarrow> (Failed, w') | (Inr _, w') \<Rightarrow> (Done, w'))
          else if cmd = bs ''uninstall'' then
            (case uninstall_service sc w of (Inl _, w') \<Rightarrow> (Failed, w') | (Inr _, w') \<Rightarrow> (Done, w'))
          else if cmd = bs ''service'' then
            (case run_service h l t e s o' of None \<Rightarrow> (Failed, w) | Some r \<Rightarrow> (In_service r, w))
          else (Usage_exit, w)
      | _ \<Rightarrow>
          (case load_config h s of
             Inl _ \<Rightarrow> (Failed, w)
           | Inr c \<Rightarrow>
               (let (sub, s1) = log_init l h e (cfg_logging c) s;
                    (ok, m) = reload_exports_async d s1 (em_new e (cfg_entries c))
                in if ok then (Waiting (started_tasks t s1 c), w) else (Failed, w))))"

text \<open>
  The command line that \<open>install\<close> registers starts the program as the service; only the
  subcommands \<open>install\<close> and \<open>uninstall\<close> touch the registry of services.
\<close>

lemma registered_program_serves:
  assumes "quote \<notin> set exe" and "program_name False [] (bin_path exe) = (a0, a1)" and "dispatcher_ok o'"
  shows "main_mode d h l t e s o' sc w [a0, a1] = (In_service (service_main h l t e s o'), w)"
proof -
  have "bs ''service'' \<noteq> bs ''install''" "bs ''service'' \<noteq> bs ''uninstall''" by code_simp+
  with registered_command_line [OF assms(1)] assms(2,3) show ?thesis
    by (simp add: main_mode_def run_service_def)
qed

lemma registry_touched_by:
  assumes "main_mode d h l t e s o' sc w args = (r, w')" and "w' \<noteq> w"
  shows "\<exists>exe cmd rest. args = exe # cmd # rest \<and> cmd \<in> {bs ''install'', bs ''uninstall''}"
  using assms
  by (auto simp: main_mode_def run_service_def Let_def split: list.splits if_splits option.splits sum.splits prod.splits)

text \<open>
  An error before the configuration is loaded, and the failure to load it, is reported to the
  service control manager at most, never to the log: no subscriber is installed yet.
\<close>

lemma config_error_not_logged:
  assumes "load_config h s = Inl x"
  shows "logger (service_main h l t e s o') = None"
    and "register_ok o' \<Longrightarrow> rp_exit_code (last (reports (service_main h l t e s o'))) = 1"
  using assms by (simp_all add: service_main_def Let_def report_status_def)

section \<open>The states the service reports\<close>

text \<open>The transitions the service control manager allows.\<close>

inductive scm_step :: "service_state \<Rightarrow> service_state \<Rightarrow> bool" where
  "scm_step Start_pending Running"
| "scm_step Start_pending Stopped"
| "scm_step Running Stop_pending"
| "scm_step Running Stopped"
| "scm_step Stop_pending Stopped"

inductive_simps scm_step_simps [simp]:
  "scm_step Start_pending x" "scm_step Running x" "scm_step Stop_pending x" "scm_step Stopped x"

text \<open>
  Whatever happens at the start, the states a registered service reports are a run of the
  service control manager's automaton from the pending start; the service ends in the state
  stopped, with exit code 0 exactly if a stop was asked for, and tasks only run in the state
  running.
\<close>

theorem service_reports_legal_run:
  assumes "service_main h l t e s o' = r" and "register_ok o'"
  shows "rp_state (hd (reports r)) = Start_pending \<and> successively scm_step (map rp_state (reports r))
    \<and> finished r = (rp_state (last (reports r)) = Stopped)
    \<and> (finished r \<longrightarrow> (rp_exit_code (last (reports r)) = 0 \<longleftrightarrow> rp_state (last (butlast (reports r))) = Stop_pending))
    \<and> (tasks r \<noteq> [] \<longrightarrow> rp_state (last (reports r)) = Running)"
proof (cases "load_config h s")
  case (Inl x)
  with assms show ?thesis by (auto simp: service_main_def report_status_def Let_def)
next
  case (Inr c)
  with assms show ?thesis
    by (cases "log_init l h e (cfg_logging c) s"; cases "runtime_ok o'"; cases "stop_comes o'")
      (auto simp: service_main_def report_status_def Let_def)
qed

text \<open>When the start fails: only with TLS enabled, for a path that is missing or files that cannot be used.\<close>

lemma nfs_start_fails_iff:
  "(\<exists>x. nfs_start t s c = Inl x) \<longleftrightarrow> tls_enabled (cfg_tls c)
     \<and> (case (cert_path (cfg_tls c), key_path (cfg_tls c)) of
          (Some cert, Some key) \<Rightarrow> \<exists>x. load_tls_config t s cert key = Inl x
        | _ \<Rightarrow> True)"
  by (auto simp: nfs_start_def tls_acceptor_def Let_def split: option.splits sum.splits)

text \<open>
  C40: the service reports a start that failed as running.  When the configuration is loaded, the
  control handler registered and the runtime created, and \<open>NfsServer::start\<close> returns an error, for whatever
  reason it has, then the service has reported the states start pending and running with exit code
  0, no task runs, and until a stop is asked for it neither reports anything else nor ends; the
  program in the foreground waits with no task too, unless loading the exports stops it.
\<close>

theorem failed_start_reported_running:
  assumes "load_config h s = Inr c"
    and "nfs_start t (snd (log_init l h e (cfg_logging c) s)) c = Inl x"
    and "register_ok o'" and "runtime_ok o'" and "\<not> stop_comes o'"
  shows "service_main h l t e s o'
      = \<lparr>reports = [report_status Start_pending 0 3000, report_status Running 0 0], tasks = [], finished = False,
          logger = Some (fst (log_init l h e (cfg_logging c) s))\<rparr>
    \<and> fst (main_mode d h l t e s o' sc w [exe])
      = (if fst (reload_exports_async d (snd (log_init l h e (cfg_logging c) s)) (em_new e (cfg_entries c)))
         then Waiting [] else Failed)"
proof -
  obtain sub s1 where log: "log_init l h e (cfg_logging c) s = (sub, s1)" by fastforce
  with assms(2) have "started_tasks t s1 c = []" by (simp add: started_tasks_def)
  with assms log show ?thesis
    by (auto simp: service_main_def main_mode_def Let_def split: prod.split)
qed

text \<open>A host with a configuration that enables TLS and names no certificate.\<close>

definition sample_raw :: raw_config where
  "sample_raw =
     \<lparr>raw_cfg_nfs = \<lparr>raw_listen = None, raw_bind_ip = None, raw_v3 = None, raw_v4 = None, raw_threads = None,
        raw_max_connections = None, raw_rate = None, raw_udp = None\<rparr>,
      raw_cfg_entries = [],
      raw_cfg_logging = \<lparr>raw_level = None, raw_file = None, raw_max_size = None, raw_max_files = None\<rparr>,
      raw_cfg_tls = Some \<lparr>raw_enabled = Some True, raw_cert = None, raw_key = None\<rparr>\<rparr>"

definition sample_cfg_file :: path where "sample_cfg_file = bs ''D:/share/f''"

definition sample_host :: host where
  "sample_host = \<lparr>env_var = (\<lambda>_. Some sample_cfg_file), toml_parse = (\<lambda>_. Some sample_raw), toml_print = (\<lambda>_. None)\<rparr>"

definition sample_tls :: tls_lib where
  "sample_tls = \<lparr>pem_certs = Some \<circ> (\<lambda>b. [b]), pem_pkcs8 = Some \<circ> (\<lambda>b. [b]), pem_rsa = (\<lambda>_. None),
     single_cert_ok = (\<lambda>_ _. True)\<rparr>"

definition sample_outside :: outside where
  "sample_outside = \<lparr>dispatcher_ok = True, register_ok = True, runtime_ok = True, stop_comes = False, current_exe = None\<rparr>"

definition sample_log :: "bytes log_lib" where
  "sample_log = \<lparr>filter_strict = Some, filter_lossy = id\<rparr>"

lemma sample_host_config: "load_config sample_host sample_fs = Inr (fill_config sample_raw)"
proof -
  have cfg: "path_exists sample_fs sample_cfg_file" "fs_read sample_fs (extended sample_cfg_file) = Inr [65, 66, 67]"
    unfolding sample_cfg_file_def by code_simp+
  have "utf8_lossy [65, 66, 67] = [65, 66, 67]" by (rule utf8_lossy_ascii) simp
  with cfg show ?thesis
    by (simp add: load_config_def config_path_def sample_host_def)
qed

theorem service_reports_legal_run_witness:
  "successively scm_step (map rp_state (reports
     (service_main sample_host sample_log sample_tls sample_env sample_fs (sample_outside\<lparr>stop_comes := True\<rparr>))))"
  using service_reports_legal_run [OF refl, of "sample_outside\<lparr>stop_comes := True\<rparr>"
    sample_host sample_log sample_tls sample_env sample_fs]
  by (simp add: sample_outside_def)

theorem failed_start_reported_running_witness:
  "map rp_state (reports (service_main sample_host sample_log sample_tls sample_env sample_fs sample_outside))
      = [Start_pending, Running]
   \<and> tasks (service_main sample_host sample_log sample_tls sample_env sample_fs sample_outside) = []"
proof -
  have "nfs_start sample_tls s (fill_config sample_raw) = Inl Cert_path_not_set" for s
    by (simp add: nfs_start_def tls_acceptor_def fill_config_def sample_raw_def fill_tls_def or_default_def)
  from failed_start_reported_running [OF sample_host_config this, of sample_outside sample_log sample_env, THEN conjunct1]
  show ?thesis by (simp add: sample_outside_def report_status_def)
qed

end
