(* ===== verification/Build_Script.thy ===== *)
theory Build_Script
  imports Paths "HOL-Library.Sublist"
begin

text \<open>
  \<open>build.rs\<close>: what the build script tells cargo.  The environment, the file system, and
  \<open>windres\<close> are parameters; the script panics where it uses \<open>expect\<close>.  Paths are those of a
  Windows host.
\<close>

datatype cargo_line =
    Rerun_if_changed bytes
  | Link_arg bytes
  | Manifest_missing bytes
  | Windres_failed
  | Windres_not_run bytes

record build_host =
  build_var :: "bytes \<Rightarrow> bytes option"
  file_exists :: "path \<Rightarrow> bool"
  write_ok :: "path \<Rightarrow> bytes \<Rightarrow> bool"
  run_windres :: "bytes \<Rightarrow> bytes list \<Rightarrow> bool option"

definition contains :: "bytes \<Rightarrow> bytes \<Rightarrow> bool" where
  "contains s pat \<longleftrightarrow> sublist pat s"

definition manifest_name :: bytes where "manifest_name = bs ''rustnfssvc.exe.manifest''"

definition windres_name :: "build_host \<Rightarrow> bytes \<Rightarrow> bytes" where
  "windres_name b target =
     (case build_var b (bs ''WINDRES'') of
        Some w \<Rightarrow> w
      | None \<Rightarrow>
          if contains target (bs ''x86_64'') then bs ''x86_64-w64-mingw32-windres''
          else if contains target (bs ''i686'') then bs ''i686-w64-mingw32-windres''
          else bs ''windres'')"

definition rc_content :: "path \<Rightarrow> bytes" where
  "rc_content manifest_path =
     bs ''// Auto-generated by build.rs'' @ [0x0A] @ bs ''1 24 '' @ [0x22]
       @ map (\<lambda>c. if c = backslash then slash else c) manifest_path @ [0x22, 0x0A]"

definition compile_manifest :: "build_host \<Rightarrow> bytes \<Rightarrow> path \<Rightarrow> cargo_line list option" where
  "compile_manifest b target manifest_path =
     (case build_var b (bs ''OUT_DIR'') of
        None \<Rightarrow> None
      | Some out_dir \<Rightarrow>
          (let rc_path = path_join out_dir (bs ''manifest.rc'');
               res_path = path_join out_dir (bs ''manifest.res'')
           in if \<not> write_ok b rc_path (rc_content manifest_path) then None
              else let windres = windres_name b target
                   in Some (case run_windres b windres [rc_path, bs ''-O'', bs ''coff'', bs ''-o'', res_path] of
                        Some True \<Rightarrow> [Link_arg res_path]
                      | Some False \<Rightarrow> [Windres_failed]
                      | None \<Rightarrow> [Windres_not_run windres])))"

definition embed_manifest :: "build_host \<Rightarrow> bytes \<Rightarrow> cargo_line list option" where
  "embed_manifest b target =
     (case build_var b (bs ''CARGO_MANIFEST_DIR'') of
        None \<Rightarrow> None
      | Some manifest_dir \<Rightarrow>
          (let manifest_path = path_join manifest_dir manifest_name
           in if \<not> file_exists b manifest_path then Some [Manifest_missing manifest_path]
              else if contains target (bs ''msvc'')
              then Some [Link_arg (bs ''/MANIFEST:EMBED''), Link_arg (bs ''/MANIFESTINPUT:'' @ manifest_path)]
              else compile_manifest b target manifest_path))"

definition build_main :: "build_host \<Rightarrow> cargo_line list option" where
  "build_main b =
     (let target = (case build_var b (bs ''TARGET'') of Some t \<Rightarrow> t | None \<Rightarrow> [])
      in map_option ((@) [Rerun_if_changed (bs ''config.example.toml''), Rerun_if_changed manifest_name])
           (if contains target (bs ''windows'') then embed_manifest b target else Some []))"

text \<open>
  The script fails the build only if cargo's own variables are missing or the resource file cannot be
  written; a missing manifest or tool is a warning, and the program is then built without long paths.
\<close>

lemma build_panics_only:
  assumes "build_main b = None"
  shows "build_var b (bs ''CARGO_MANIFEST_DIR'') = None \<or> build_var b (bs ''OUT_DIR'') = None
    \<or> (\<exists>p c. \<not> write_ok b p c)"
  using assms
  by (auto simp: build_main_def embed_manifest_def compile_manifest_def Let_def split: if_splits option.splits)

lemma link_arguments_only_on_windows:
  assumes "build_main b = Some out" and "Link_arg a \<in> set out"
  shows "\<exists>t. build_var b (bs ''TARGET'') = Some t \<and> contains t (bs ''windows'')"
proof (rule ccontr)
  assume no: "\<not> ?thesis"
  have "\<not> contains [] (bs ''windows'')" by (simp add: contains_def bs_def)
  with no assms show False
    by (auto simp: build_main_def Let_def split: option.splits if_splits)
qed

end
