(* ===== verification/Tasks.thy ===== *)
theory Tasks
  imports Prelude
begin

text \<open>
  Concurrent tasks.  The server runs one task for each connection on several threads, and a
  task runs without interruption from one point where it waits for a lock to the next.  A task
  is the value of its remaining program; \<open>step ts x m\<close> is the next uninterrupted part of task
  \<open>x\<close> on the shared state \<open>m\<close>, or \<open>None\<close> when the task has finished or the lock it asks for is
  held by one of the tasks \<open>ts\<close>.  A schedule lists which task runs next.
\<close>

type_synonym ('t, 'm) task_step = "'t list \<Rightarrow> 't \<Rightarrow> 'm \<Rightarrow> ('t \<times> 'm) option"

definition step_at :: "('t, 'm) task_step \<Rightarrow> nat \<Rightarrow> 't list \<times> 'm \<Rightarrow> ('t list \<times> 'm) option" where
  "step_at step k c =
     (case c of (ts, m) \<Rightarrow>
        if k < length ts then map_option (\<lambda>(x, m'). (ts[k := x], m')) (step ts (ts ! k) m) else None)"

fun schedule :: "('t, 'm) task_step \<Rightarrow> nat list \<Rightarrow> 't list \<times> 'm \<Rightarrow> ('t list \<times> 'm) option" where
  "schedule step [] c = Some c"
| "schedule step (k # ks) c = Option.bind (step_at step k c) (schedule step ks)"

text \<open>No task can run although one has not finished.\<close>

definition deadlocked :: "('t, 'm) task_step \<Rightarrow> ('t \<Rightarrow> bool) \<Rightarrow> 't list \<times> 'm \<Rightarrow> bool" where
  "deadlocked step is_done c \<longleftrightarrow> list_ex (\<lambda>x. \<not> is_done x) (fst c)
     \<and> list_all (\<lambda>k. step_at step k c = None) [0..<length (fst c)]"

lemma step_atD:
  assumes "step_at step k (ts, m) = Some (ts', m')"
  obtains x where "k < length ts" "step ts (ts ! k) m = Some (x, m')" "ts' = ts[k := x]"
  using assms by (auto simp: step_at_def split: if_splits)

lemma length_schedule: "schedule step ks (ts, m) = Some (ts', m') \<Longrightarrow> length ts' = length ts"
proof (induction ks arbitrary: ts m)
  case (Cons k ks)
  then obtain ts1 m1 where s: "step_at step k (ts, m) = Some (ts1, m1)" and r: "schedule step ks (ts1, m1) = Some (ts', m')"
    by (auto simp: Option.bind_eq_Some_conv)
  from s have "length ts1 = length ts" by (auto elim: step_atD)
  with Cons.IH [OF r] show ?case by simp
qed simp

lemma schedule_append:
  "schedule step (ks @ ls) c = Option.bind (schedule step ks c) (schedule step ls)"
  by (induction ks arbitrary: c) (auto split: bind_splits)

text \<open>What every step of every task keeps holds after every schedule.\<close>

locale interleaving =
  fixes step :: "('t, 'm) task_step" and inv :: "'t list \<Rightarrow> 'm \<Rightarrow> bool"
  assumes inv_step: "inv (us @ y # vs) m \<Longrightarrow> step (us @ y # vs) y m = Some (x, m') \<Longrightarrow> inv (us @ x # vs) m'"
begin

lemma schedule_inv: "schedule step ks (ts, m) = Some (ts', m') \<Longrightarrow> inv ts m \<Longrightarrow> inv ts' m'"
proof (induction ks arbitrary: ts m)
  case (Cons k ks)
  then obtain ts1 m1 where s: "step_at step k (ts, m) = Some (ts1, m1)" and r: "schedule step ks (ts1, m1) = Some (ts', m')"
    by (auto simp: Option.bind_eq_Some_conv)
  from s obtain x where x: "k < length ts" "step ts (ts ! k) m = Some (x, m1)" "ts1 = ts[k := x]"
    by (rule step_atD)
  note split = id_take_nth_drop [OF x(1)]
  have "inv (take k ts @ x # drop (Suc k) ts) m1"
    using inv_step [of "take k ts" "ts ! k" "drop (Suc k) ts" m x m1] Cons.prems(2) x(2)
    by (simp flip: split)
  then have "inv ts1 m1" using x(1,3) by (simp add: upd_conv_take_nth_drop)
  from Cons.IH [OF r this] show ?case .
qed simp

end

end
