(* ===== verification/Request_Race.thy ===== *)
theory Request_Race
  imports Tasks Server
begin

text \<open>
  Requests that overlap.  The operations of a COMPOUND run one after the other, and between two of
  them the tasks of other connections run: a COMPOUND under way is its remaining operations and
  the value of \<open>compound\<close> reached.  An NFSv3 request, a MOUNT request, a reload of the exports and
  the lease cleanup are one step here; \<open>Handle_Race\<close> and \<open>Session_Race\<close> cut them further.
\<close>

section \<open>Requests as tasks\<close>

datatype request_task =
    V4_call "nat \<Rightarrow> env" bytes
  | V4_ops "nat \<Rightarrow> env" bytes u32 u32 bytes nat compound
  | V3_call env bytes
  | Mount_call env bytes ip_addr
  | Reload
  | Cleanup nat
  | Answered "bytes option"

definition v4_answer :: "u32 \<Rightarrow> bytes \<Rightarrow> request_task" where
  "v4_answer xid result = Answered (Some (make_rpc_accepted_reply xid ACC_SUCCESS result))"

text \<open>The part of \<open>handle_request\<close> before the first operation.\<close>

definition v4_begin :: "(nat \<Rightarrow> env) \<Rightarrow> bytes \<Rightarrow> request_task option" where
  "v4_begin es request =
     (if length request < 24 then Some (Answered None)
      else do {
        xid \<leftarrow> rd32 request 0;
        procedure \<leftarrow> rd32 request 20;
        caller_uid \<leftarrow> v4_caller_uid request;
        off \<leftarrow> v4_args_off request;
        (case off of
           Inl (accept_stat, body) \<Rightarrow> Some (Answered (Some (make_rpc_accepted_reply xid accept_stat body)))
         | Inr args \<Rightarrow>
             if procedure = 0 then Some (v4_answer xid [])
             else if procedure = 1 then do {
               h \<leftarrow> compound_header request args;
               Some (case h of
                   Inl status \<Rightarrow> v4_answer xid (make_compound_error status)
                 | Inr (tag, opcount, p) \<Rightarrow> V4_ops es request caller_uid xid tag opcount (compound_start p))
             }
             else Some (Answered (Some (make_rpc_accepted_reply xid 3 []))))
      })"

text \<open>One turn of the loop over the operations, or the reply.\<close>

definition v4_turn :: "deps \<Rightarrow> (nat \<Rightarrow> env) \<Rightarrow> bytes \<Rightarrow> u32 \<Rightarrow> u32 \<Rightarrow> bytes \<Rightarrow> nat \<Rightarrow> compound \<Rightarrow> nfs4
    \<Rightarrow> (request_task \<times> nfs4) option" where
  "v4_turn d es request uid xid tag n c st =
     (case n of
        0 \<Rightarrow> Some (v4_answer xid (compound_reply tag c), st)
      | Suc k \<Rightarrow>
          if cp_pos c + 4 > length request
          then Some (V4_ops es request uid xid tag 0
                 (c\<lparr>cp_results := cp_results c @ be32 OP_ILLEGAL @ be32 NFS4ERR_BADXDR, cp_status := NFS4ERR_BADXDR\<rparr>), st)
          else do {
            opcode \<leftarrow> rd32 request (cp_pos c);
            if squashed d uid opcode c st
            then Some (V4_ops es request uid xid tag 0
                   (c\<lparr>cp_results := cp_results c @ be32 opcode @ be32 NFS4ERR_PERM,
                      cp_count := cp_count c + 1, cp_status := NFS4ERR_PERM\<rparr>), st)
            else do {
              (r, st1) \<leftarrow> dispatch_op d (es (Suc k)) opcode request (cp_pos c + 4) (cp_current c) (cp_saved c) st;
              Some (V4_ops es request uid xid tag (if op_status r \<noteq> NFS4_OK then 0 else k) (after_op opcode r c), st1)
            }
          })"

fun request_step :: "deps \<Rightarrow> (request_task, nfs4) task_step" where
  "request_step d ts (V4_call es request) st = map_option (\<lambda>t. (t, st)) (v4_begin es request)"
| "request_step d ts (V4_ops es request uid xid tag n c) st = v4_turn d es request uid xid tag n c st"
| "request_step d ts (V3_call e request) st =
     map_option (\<lambda>(r, st'). (Answered r, st')) (v3_handle_request d e request st)"
| "request_step d ts (Mount_call e request ip) st =
     map_option (\<lambda>(r, m). (Answered r, st\<lparr>em := m\<rparr>)) (mount_handle_request d e request ip (em st))"
| "request_step d ts Reload st = Some (Answered None, st\<lparr>em := snd (reload_exports_async d (the_fs st) (em st))\<rparr>)"
| "request_step d ts (Cleanup t) st = Some (Answered None, cleanup_expired t st)"
| "request_step d ts (Answered r) st = None"

section \<open>A request that runs alone\<close>

lemma alone_step:
  assumes "x \<noteq> y"
  shows "(\<exists>ks. schedule step ks ([x], m) = Some ([y], m')) \<longleftrightarrow>
    (\<exists>x1 m1. step [x] x m = Some (x1, m1) \<and> (\<exists>ks. schedule step ks ([x1], m1) = Some ([y], m')))"
proof
  assume "\<exists>ks. schedule step ks ([x], m) = Some ([y], m')"
  then obtain ks where run: "schedule step ks ([x], m) = Some ([y], m')" ..
  with assms obtain k ls where ks: "ks = k # ls" by (cases ks) auto
  from run obtain c where c: "step_at step k ([x], m) = Some c" "schedule step ls c = Some ([y], m')"
    unfolding ks by (auto simp: Option.bind_eq_Some_conv)
  from c(1) obtain x1 m1 where "step [x] x m = Some (x1, m1)" "c = ([x1], m1)"
    by (auto simp: step_at_def split: if_splits)
  with c(2) show "\<exists>x1 m1. step [x] x m = Some (x1, m1) \<and> (\<exists>ks. schedule step ks ([x1], m1) = Some ([y], m'))" by blast
next
  assume "\<exists>x1 m1. step [x] x m = Some (x1, m1) \<and> (\<exists>ks. schedule step ks ([x1], m1) = Some ([y], m'))"
  then obtain x1 m1 ks where "step [x] x m = Some (x1, m1)" "schedule step ks ([x1], m1) = Some ([y], m')" by blast
  then have "schedule step (0 # ks) ([x], m) = Some ([y], m')" by (simp add: step_at_def)
  then show "\<exists>ks. schedule step ks ([x], m) = Some ([y], m')" ..
qed

lemma alone_done:
  assumes "\<And>m. step [x] x m = None"
  shows "(\<exists>ks. schedule step ks ([x], m) = Some ([y], m')) \<longleftrightarrow> y = x \<and> m' = m"
proof
  assume "\<exists>ks. schedule step ks ([x], m) = Some ([y], m')"
  then obtain ks where "schedule step ks ([x], m) = Some ([y], m')" ..
  with assms show "y = x \<and> m' = m" by (cases ks) (auto simp: step_at_def split: bind_splits if_splits)
next
  assume "y = x \<and> m' = m"
  then have "schedule step [] ([x], m) = Some ([y], m')" by simp
  then show "\<exists>ks. schedule step ks ([x], m) = Some ([y], m')" ..
qed

definition ends_in :: "deps \<Rightarrow> request_task \<Rightarrow> nfs4 \<Rightarrow> bytes option \<Rightarrow> nfs4 \<Rightarrow> bool" where
  "ends_in d x st r st' \<longleftrightarrow> (\<exists>ks. schedule (request_step d) ks ([x], st) = Some ([Answered r], st'))"

lemma ends_in_answered [simp]: "ends_in d (Answered r) st r' st' \<longleftrightarrow> r' = r \<and> st' = st"
  unfolding ends_in_def by (subst alone_done) auto

lemma ends_in_answer [simp]:
  "ends_in d (v4_answer xid b) st r st' \<longleftrightarrow> r = Some (make_rpc_accepted_reply xid ACC_SUCCESS b) \<and> st' = st"
  by (simp add: v4_answer_def)

lemma ends_in_step:
  assumes "x \<noteq> Answered r"
  shows "ends_in d x st r st' \<longleftrightarrow> (\<exists>x1 st1. request_step d [x] x st = Some (x1, st1) \<and> ends_in d x1 st1 r st')"
  unfolding ends_in_def by (rule alone_step [OF assms])

lemma ops_end_in:
  "ends_in d (V4_ops es rq uid xid tag n c) st r st' \<longleftrightarrow>
     (\<exists>c'. compound_loop d es rq uid n c st = Some (c', st')
        \<and> r = Some (make_rpc_accepted_reply xid ACC_SUCCESS (compound_reply tag c')))"
proof (induction n arbitrary: c st)
  case 0
  show ?case by (subst ends_in_step) (auto simp: v4_turn_def)
next
  case (Suc n)
  have finished: "ends_in d (V4_ops es rq uid xid tag 0 c1) st1 r st' \<longleftrightarrow>
      r = Some (make_rpc_accepted_reply xid ACC_SUCCESS (compound_reply tag c1)) \<and> st' = st1" for c1 st1
    by (subst ends_in_step) (auto simp: v4_turn_def)
  show ?case
  proof (cases "length rq < cp_pos c + 4")
    case True
    then show ?thesis by (subst ends_in_step) (auto simp: v4_turn_def finished)
  next
    case False
    then obtain opcode where rd: "rd32 rq (cp_pos c) = Some opcode" by (simp add: rd_simps)
    show ?thesis
    proof (cases "squashed d uid opcode c st")
      case True
      with False rd show ?thesis by (subst ends_in_step) (auto simp: v4_turn_def finished)
    next
      case free: False
      show ?thesis
      proof (cases "dispatch_op d (es (Suc n)) opcode rq (cp_pos c + 4) (cp_current c) (cp_saved c) st")
        case None
        with False rd free show ?thesis by (subst ends_in_step) (auto simp: v4_turn_def)
      next
        case (Some x)
        obtain ro st1 where x: "x = (ro, st1)" by (cases x)
        from False rd free Some x show ?thesis
          by (subst ends_in_step) (auto simp: v4_turn_def finished Suc.IH)
      qed
    qed
  qed
qed

lemma call_ends_in:
  "ends_in d (V4_call es request) st r st' \<longleftrightarrow> v4_handle_request d es request st = Some (r, st')"
proof -
  have "ends_in d (V4_call es request) st r st' \<longleftrightarrow>
      (\<exists>t. v4_begin es request = Some t \<and> ends_in d t st r st')"
    by (subst ends_in_step) auto
  also have "\<dots> \<longleftrightarrow> v4_handle_request d es request st = Some (r, st')"
    by (auto simp: v4_begin_def v4_handle_request_def handle_compound_def ops_end_in
        split: bind_splits sum.splits if_splits)
  finally show ?thesis .
qed

text \<open>
  The operation-level program of a request, run without interruption, ends with exactly the
  replies and states of the sequential model of \<open>handle_request\<close>; it does not end exactly when
  that panics.
\<close>

theorem lone_request_is_sequential:
  "(\<exists>ks. schedule (request_step d) ks ([V4_call es request], st) = Some ([Answered r], st'))
     \<longleftrightarrow> v4_handle_request d es request st = Some (r, st')"
  using call_ends_in by (simp add: ends_in_def)

text \<open>A run of one request is a run beside a request that waits.\<close>

lemma request_step_others: "request_step d ts x st = request_step d us x st"
  by (cases x) simp_all

lemma run_beside:
  "schedule (request_step d) ks ([x], st) = Some ([y], st')
     \<Longrightarrow> schedule (request_step d) ks ([x, z], st) = Some ([y, z], st')"
proof (induction ks arbitrary: x st)
  case (Cons k ks)
  from Cons.prems obtain x1 st1 where k: "k = 0" "request_step d [x] x st = Some (x1, st1)"
    and run: "schedule (request_step d) ks ([x1], st1) = Some ([y], st')"
    by (auto simp: step_at_def split: bind_splits if_splits)
  from k(2) have "request_step d [x, z] x st = Some (x1, st1)" by (metis request_step_others)
  with k(1) Cons.IH [OF run] show ?case by (simp add: step_at_def)
qed simp

section \<open>The tables under every interleaving\<close>

text \<open>How many client ids a request may still take.\<close>

fun may_issue :: "request_task \<Rightarrow> nat" where
  "may_issue (V4_call es request) = MAX_OPS_PER_COMPOUND"
| "may_issue (V4_ops es request uid xid tag n c) = n"
| "may_issue (Answered r) = 0"
| "may_issue _ = 1"

definition tables_inv :: "request_task list \<Rightarrow> nfs4 \<Rightarrow> bool" where
  "tables_inv ts st \<longleftrightarrow> tables_ok st \<and> unat (client_counter st) + sum_list (map may_issue ts) < 2 ^ 64"

lemma tables_inv_step:
  assumes "tables_inv (us @ y # vs) st" and "issues n st st'" and "n + may_issue x \<le> may_issue y"
  shows "tables_inv (us @ x # vs) st'"
  using assms by (auto simp: tables_inv_def issues_def)

lemma opcount_bound: "compound_header rq p = Some (Inr (tag, n, q)) \<Longrightarrow> n \<le> MAX_OPS_PER_COMPOUND"
  unfolding compound_header_def by (auto simp: get_simps Let_def split: if_splits)

lemma v4_begin_issue: "v4_begin es rq = Some x \<Longrightarrow> may_issue x \<le> MAX_OPS_PER_COMPOUND"
  by (auto simp: v4_begin_def v4_answer_def dest: opcount_bound split: bind_splits sum.splits if_splits)

lemma v4_turn_cases:
  assumes "v4_turn d es rq uid xid tag n c st = Some (x, st')"
  obtains (quiet) "st' = st" "may_issue x = 0"
  | (op) k e opcode r where "n = Suc k" "\<not> squashed d uid opcode c st"
      "dispatch_op d e opcode rq (cp_pos c + 4) (cp_current c) (cp_saved c) st = Some (r, st')" "may_issue x \<le> k"
  using assms by (cases n) (fastforce simp: v4_turn_def v4_answer_def split: if_splits bind_splits)+

lemma request_step_issues:
  assumes "request_step d ts x st = Some (x', st')"
  shows "\<exists>n. issues n st st' \<and> n + may_issue x' \<le> may_issue x"
proof (cases x)
  case (V4_call es rq)
  with assms v4_begin_issue show ?thesis by (intro exI [of _ 0]) auto
next
  case (V4_ops es rq uid xid tag n c)
  with assms have "v4_turn d es rq uid xid tag n c st = Some (x', st')" by simp
  then show ?thesis
  proof (cases rule: v4_turn_cases)
    case quiet
    then show ?thesis by (intro exI [of _ 0]) simp
  next
    case (op k e opcode r)
    with steps_toD [OF dispatch_issues op(3)] V4_ops show ?thesis by (intro exI [of _ 1]) simp
  qed
next
  case (V3_call e rq)
  with assms have "same_tables st st'" by (auto dest: v3_request_frame)
  from frames_issue(4) [OF this] assms V3_call show ?thesis by (intro exI [of _ 1]) auto
next
  case (Mount_call e rq ip)
  with assms have "same_tables st st'" by (auto simp: same_tables_def)
  from frames_issue(4) [OF this] assms Mount_call show ?thesis by (intro exI [of _ 1]) auto
next
  case Reload
  with assms have "same_tables st st'" by (auto simp: same_tables_def)
  from frames_issue(4) [OF this] assms Reload show ?thesis by (intro exI [of _ 1]) auto
next
  case (Cleanup t)
  with assms cleanup_issues show ?thesis by (intro exI [of _ 0]) auto
qed (use assms in simp)

interpretation requests: interleaving "request_step d" tables_inv for d
proof
  fix us y vs st x st'
  assume inv: "tables_inv (us @ y # vs) st" and step: "request_step d (us @ y # vs) y st = Some (x, st')"
  from request_step_issues [OF step] obtain n where "issues n st st'" "n + may_issue x \<le> may_issue y" by blast
  with inv show "tables_inv (us @ x # vs) st'" by (rule tables_inv_step)
qed

text \<open>
  Whatever NFSv4, NFSv3 and MOUNT requests, reloads and lease cleanups run at the same time, and
  however the operations of their COMPOUNDs interleave, in every state reached from the start of the
  server client ids and sessions are unique, different owners have different client ids, and the
  locks granted on one table entry are pairwise compatible.
\<close>

theorem interleaved_tables_sound:
  assumes "schedule (request_step d) ks (ts, nfs4_new e s m) = Some (ts', st)"
    and "list_all (\<lambda>t. case t of V4_ops _ _ _ _ _ _ _ \<Rightarrow> False | _ \<Rightarrow> True) ts" and "length ts < 2 ^ 57"
  shows "distinct (map fst (clients st)) \<and> distinct (map fst (sessions st))
    \<and> inj_on (client_owner_map st) (dom (client_owner_map st))
    \<and> (\<forall>k ls. locks st k = Some ls \<longrightarrow> sorted_wrt compatible ls) \<and> state_wf st"
proof -
  have "sum_list (map may_issue ts) \<le> MAX_OPS_PER_COMPOUND * length ts"
    using assms(2)
  proof (induction ts)
    case (Cons t ts)
    then show ?case by (cases t) (auto simp: MAX_OPS_PER_COMPOUND_def)
  qed simp
  then have "unat (client_counter (nfs4_new e s m)) + sum_list (map may_issue ts) < 2 ^ 64"
    using assms(3) by (simp add: nfs4_new_def MAX_OPS_PER_COMPOUND_def)
  with tables_ok_new have "tables_inv ts (nfs4_new e s m)" by (simp add: tables_inv_def)
  from requests.schedule_inv [OF assms(1) this] have "tables_ok st" by (simp add: tables_inv_def)
  then show ?thesis by (simp add: tables_ok_def client_inv_def lock_inv_def)
qed

section \<open>Root squashing under every interleaving\<close>

text \<open>Requests of uid 0, and the tasks that do not change the exports.\<close>

fun of_root :: "request_task \<Rightarrow> bool" where
  "of_root (V4_call es request) \<longleftrightarrow> v4_caller_uid request = Some 0"
| "of_root (V4_ops es request uid xid tag n c) \<longleftrightarrow> uid = 0"
| "of_root (Cleanup t) = True"
| "of_root (Answered r) = True"
| "of_root _ = False"

definition root_inv :: "fs \<Rightarrow> request_task list \<Rightarrow> nfs4 \<Rightarrow> bool" where
  "root_inv s ts st \<longleftrightarrow> list_all of_root ts \<and> guarded root_squash (em st) \<and> the_fs st = s"

lemma v4_begin_root:
  "v4_begin es rq = Some x \<Longrightarrow> v4_caller_uid rq = Some 0 \<Longrightarrow> of_root x"
  by (auto simp: v4_begin_def v4_answer_def split: bind_splits sum.splits if_splits)

lemma v4_turn_root: "v4_turn d es rq 0 xid tag n c st = Some (x, st') \<Longrightarrow> of_root x"
  by (auto simp: v4_turn_def v4_answer_def split: nat.splits bind_splits if_splits)

interpretation root_requests: interleaving "request_step d" "root_inv s" for d s
proof
  fix us y vs st x st'
  assume inv: "root_inv s (us @ y # vs) st" and step: "request_step d (us @ y # vs) y st = Some (x, st')"
  then have y: "of_root y" and others: "list_all of_root us" "list_all of_root vs"
    and g: "guarded root_squash (em st)" "the_fs st = s" by (simp_all add: root_inv_def)
  have "of_root x \<and> guarded root_squash (em st') \<and> the_fs st' = s"
  proof (cases y)
    case (V4_call es rq)
    with step y g v4_begin_root show ?thesis by auto
  next
    case (V4_ops es rq uid xid tag n c)
    with step y have turn: "v4_turn d es rq 0 xid tag n c st = Some (x, st')" by simp
    then show ?thesis
    proof (cases rule: v4_turn_cases)
      case quiet
      with g v4_turn_root [OF turn] show ?thesis by simp
    next
      case (op k e opcode r)
      from squash.R_op [OF op(2,3)] g v4_turn_root [OF turn] show ?thesis
        by (simp add: squash_kept_def fs_kept_def)
    qed
  next
    case (Cleanup t)
    with step g show ?thesis by (auto simp: cleanup_expired_def Let_def)
  qed (use step y in simp_all)
  with others show "root_inv s (us @ x # vs) st'" by (simp add: root_inv_def)
qed

text \<open>
  C13: on a server all of whose exports squash root, the NFSv4 requests of uid 0 leave the file system
  alone even when they overlap with one another and with the lease cleanup in any way, after
  every operation.
\<close>

theorem interleaved_root_squash:
  assumes "schedule (request_step d) ks (ts, st) = Some (ts', st')"
    and "list_all of_root ts" and "guarded root_squash (em st)"
  shows "the_fs st' = the_fs st \<and> guarded root_squash (em st')"
proof -
  have "root_inv (the_fs st) ts st" using assms(2,3) by (simp add: root_inv_def)
  from root_requests.schedule_inv [OF assms(1) this] show ?thesis by (simp add: root_inv_def)
qed

section \<open>Concrete schedules\<close>

abbreviation root_removes :: request_task where
  "root_removes \<equiv> V4_call (\<lambda>_. sample_env) (root_call (compound_args 2 remove_ops))"

lemma remove_beside_cleanup:
  "\<exists>ks r. schedule (request_step sample_deps) ks ([root_removes, Cleanup 5], sample_server default_options)
     = Some ([Answered (Some r), Answered None], cleanup_expired 5 (sample_server default_options))"
proof -
  let ?st = "sample_server default_options"
  obtain b where "v4_handle_request sample_deps (\<lambda>_. sample_env) (root_call (compound_args 2 remove_ops)) ?st
      = Some (Some b, ?st)"
    unfolding root_call_handled root_remove_refused by simp
  then have "ends_in sample_deps root_removes ?st (Some b) ?st" by (simp add: call_ends_in)
  then obtain ks where "schedule (request_step sample_deps) ks ([root_removes], ?st) = Some ([Answered (Some b)], ?st)"
    by (auto simp: ends_in_def)
  from run_beside [OF this]
  have run: "schedule (request_step sample_deps) ks ([root_removes, Cleanup 5], ?st) = Some ([Answered (Some b), Cleanup 5], ?st)" .
  have "schedule (request_step sample_deps) [1] ([Answered (Some b), Cleanup 5], ?st)
      = Some ([Answered (Some b), Answered None], cleanup_expired 5 ?st)"
    by (simp add: step_at_def)
  with run have "schedule (request_step sample_deps) (ks @ [1]) ([root_removes, Cleanup 5], ?st)
      = Some ([Answered (Some b), Answered None], cleanup_expired 5 ?st)"
    by (simp only: schedule_append bind.bind_lunit)
  then show ?thesis by blast
qed

theorem interleaved_tables_sound_witness:
  "\<exists>ks r st. schedule (request_step sample_deps) ks ([root_removes, Cleanup 5], sample_server default_options)
     = Some ([Answered (Some r), Answered None], st) \<and> distinct (map fst (clients st)) \<and> state_wf st"
proof -
  obtain ks r st where run: "schedule (request_step sample_deps) ks ([root_removes, Cleanup 5], sample_server default_options)
     = Some ([Answered (Some r), Answered None], st)" using remove_beside_cleanup by blast
  from interleaved_tables_sound [OF run [unfolded sample_server_def]] run show ?thesis by auto
qed

theorem interleaved_root_squash_witness:
  "\<exists>ks r st. schedule (request_step sample_deps) ks ([root_removes, Cleanup 5], sample_server default_options)
     = Some ([Answered (Some r), Answered None], st) \<and> the_fs st = sample_fs"
proof -
  obtain ks r st where run: "schedule (request_step sample_deps) ks ([root_removes, Cleanup 5], sample_server default_options)
     = Some ([Answered (Some r), Answered None], st)" using remove_beside_cleanup by blast
  have "list_all of_root [root_removes, Cleanup 5]" by (simp add: root_call_uid)
  moreover have "the_fs (sample_server default_options) = sample_fs" by (simp add: sample_server_def nfs4_new_def)
  ultimately have "the_fs st = sample_fs" using interleaved_root_squash [OF run _ sample_guarded] by simp
  with run show ?thesis by blast
qed

end
