(* ===== verification/Connections.thy ===== *)
theory Connections
  imports Request_Race "HOL-Library.Sublist"
begin

text \<open>
  The whole process: any number of TCP connections (\<open>handle_nfs_stream\<close> of \<open>src/nfs/mod.rs\<close>, one
  task each), whose requests run operation by operation, beside MOUNT requests, datagrams, reloads
  and the lease cleanup.  What the reads of a connection deliver is given with it, as a list of
  events: the bytes of one read, the end of the stream or a read error.
\<close>

section \<open>Replies carry the transaction id\<close>

definition echoes :: "bytes \<Rightarrow> bytes option \<Rightarrow> bool" where
  "echoes rq r \<longleftrightarrow> (case r of None \<Rightarrow> True | Some reply \<Rightarrow> take 4 reply = take 4 rq)"

lemma echoes_simps [simp]:
  "echoes rq None" "echoes rq (Some reply) \<longleftrightarrow> take 4 reply = take 4 rq"
  by (simp_all add: echoes_def)

lemma make_rpc_reply_xid [simp]:
  "length xid = 4 \<Longrightarrow> length (make_rpc_reply xid) = 24" "length xid = 4 \<Longrightarrow> take 4 (make_rpc_reply xid) = xid"
  by (simp_all add: make_rpc_reply_def)

definition v3_echo :: "bytes \<Rightarrow> bytes option \<times> 's \<Rightarrow> bool" where
  "v3_echo xid x \<longleftrightarrow> (case fst x of None \<Rightarrow> True | Some reply \<Rightarrow> take 4 reply = xid)"

lemma v3_echo_simps [simp]:
  "v3_echo xid (None, st)" "v3_echo xid (Some reply, st) \<longleftrightarrow> take 4 reply = xid"
  by (simp_all add: v3_echo_def)

lemma v3_queries_echo:
  assumes "length xid = 4"
  shows "holds (v3_echo xid) (v3_getattr d xid rq off st)" "holds (v3_echo xid) (v3_setattr d xid rq off st)"
    "holds (v3_echo xid) (v3_access d xid rq off st)" "holds (v3_echo xid) (v3_readlink d xid rq off st)"
    "holds (v3_echo xid) (v3_fsstat d xid rq off st)" "holds (v3_echo xid) (v3_fsinfo d xid rq off st)"
    "holds (v3_echo xid) (v3_pathconf d xid rq off st)" "holds (v3_echo xid) (v3_commit xid st)"
    "holds (v3_echo xid) (v3_read d xid rq off st)" "holds (v3_echo xid) (v3_lookup d e xid rq off st)"
    "holds (v3_echo xid) (v3_readdir d e xid rq off st)"
  unfolding v3_getattr_def v3_setattr_def v3_access_def v3_readlink_def v3_fsstat_def v3_fsinfo_def
    v3_pathconf_def v3_commit_def v3_read_def v3_lookup_def v3_readdir_def Let_def make_error_reply_def
  by (auto simp: assms intro!: holds_with_fh holds_with_name holds_bind split: option.split prod.split sum.split)

lemma v3_updates_echo:
  assumes "length xid = 4"
  shows "holds (v3_echo xid) (v3_write d e xid rq off st)" "holds (v3_echo xid) (v3_create d e xid rq off st)"
    "holds (v3_echo xid) (v3_mkdir d e xid rq off st)" "holds (v3_echo xid) (v3_remove d xid rq off st)"
    "holds (v3_echo xid) (v3_rmdir d xid rq off st)" "holds (v3_echo xid) (v3_rename d xid rq off st)"
  unfolding v3_write_def v3_create_def v3_mkdir_def v3_remove_def v3_rmdir_def v3_rename_def
    v3_rofs_def v3_made_def v3_write_reply_def Let_def
  by (auto simp: assms intro!: holds_with_fh holds_with_name holds_bind split: option.split prod.split sum.split if_split)

lemma v3_dispatch_echo: "length xid = 4 \<Longrightarrow> holds (v3_echo xid) (v3_dispatch d e procedure xid rq off st)"
  unfolding v3_dispatch_def v3_readdirplus_def
  by (intro holds_if v3_queries_echo v3_updates_echo) (simp_all add: v3_null_def make_error_reply_def)

lemma v3_request_echo:
  assumes "v3_handle_request d e rq st = Some (r, st')"
  shows "echoes rq r"
proof (cases "length rq < 24")
  case True
  with assms show ?thesis by (simp add: v3_handle_request_def)
next
  case False
  then have xid: "slice rq 0 4 = Some (take 4 rq)" "length (take 4 rq) = 4" by (simp_all add: slice_def)
  note v3_dispatch_echo [OF xid(2)]
  then have "holds (v3_echo (take 4 rq)) (v3_handle_request d e rq st)"
    using False unfolding v3_handle_request_def xid(1)
    by (auto intro!: holds_bind split: option.split)
  with assms show ?thesis by (simp add: v3_echo_def echoes_def)
qed

fun task_echoes :: "bytes \<Rightarrow> request_task \<Rightarrow> bool" where
  "task_echoes rq (V4_call es rq') \<longleftrightarrow> rq' = rq"
| "task_echoes rq (V4_ops es rq' uid xid tag n c) \<longleftrightarrow> be32 xid = take 4 rq"
| "task_echoes rq (V3_call e rq') \<longleftrightarrow> rq' = rq"
| "task_echoes rq (Answered r) \<longleftrightarrow> echoes rq r"
| "task_echoes rq _ = False"

lemma accepted_reply_xid [simp]: "take 4 (make_rpc_accepted_reply xid acc body) = be32 xid"
  by (simp add: make_rpc_accepted_reply_def)

lemma v4_begin_echoes:
  assumes "v4_begin es rq = Some x"
  shows "task_echoes rq x"
proof (cases "length rq < 24")
  case True
  with assms have "x = Answered None" by (simp add: v4_begin_def)
  then show ?thesis by simp
next
  case False
  then have "rd32 rq 0 = Some (u32_at rq 0)" "be32 (u32_at rq 0) = take 4 rq"
    by (simp_all add: rd_simps take_u32)
  with assms False show ?thesis
    by (auto simp: v4_begin_def v4_answer_def split: bind_splits sum.splits if_splits)
qed

lemma request_step_echoes:
  assumes "request_step d ts x st = Some (x', st')" and "task_echoes rq x"
  shows "task_echoes rq x'"
proof (cases x)
  case (V4_call es rq')
  with assms v4_begin_echoes show ?thesis by auto
next
  case (V4_ops es rq' uid xid tag n c)
  with assms show ?thesis
    by (auto simp: v4_turn_def v4_answer_def split: nat.splits bind_splits if_splits)
next
  case (V3_call e rq')
  with assms v3_request_echo show ?thesis by auto
qed (use assms in auto)

section \<open>Connections\<close>

text \<open>Which handler a record goes to, with the environment it will see.\<close>

definition tcp_request :: "(nat \<Rightarrow> env) \<Rightarrow> nat \<Rightarrow> bytes \<Rightarrow> (request_task \<times> nat) option" where
  "tcp_request es i rpc_data = do {
     program \<leftarrow> rd32 rpc_data 12;
     version \<leftarrow> rd32 rpc_data 16;
     Some (if program = NFS_PROGRAM then
             (if version = NFS_V4 then (V4_call (\<lambda>n. es (i + MAX_OPS_PER_COMPOUND - n)) rpc_data, i + MAX_OPS_PER_COMPOUND)
              else if version = NFS_V3 then (V3_call (es i) rpc_data, i + 1)
              else (Answered None, i))
           else if program = NFS_ACL_PROGRAM then (Answered (make_rpc_error_reply rpc_data 1), i)
           else (Answered None, i))
   }"

text \<open>
  A connection with everything its reads deliver (which no step looks at or changes), its state, the
  reads still to come, the environment it sees and the request it is working on; or work of another task.
\<close>

datatype server_task =
    Conn "read_event list" "unit conn" "read_event list" "nat \<Rightarrow> env" nat "request_task option"
  | Work request_task

definition new_conn :: "read_event list \<Rightarrow> (nat \<Rightarrow> env) \<Rightarrow> server_task" where
  "new_conn evs es = Conn evs (conn_start ()) evs es 0 None"

text \<open>
  \<open>read\<close> when the buffer holds no complete record.  A connection that is left drops its reader; one
  with no event waits in \<open>read\<close>.
\<close>

fun read_more :: "read_event list \<Rightarrow> unit conn \<Rightarrow> (unit conn \<times> read_event list) option" where
  "read_more [] c = None"
| "read_more (Read_error # rest) c = Some (c\<lparr>conn_status := Dropped\<rparr>, [])"
| "read_more (Data dat # rest) c =
     (if dat = [] then Some (c\<lparr>conn_status := Dropped\<rparr>, [])
      else let buf = recv_buf c @ dat
           in if length buf > MAX_RECV_BUF then Some (c\<lparr>recv_buf := buf, conn_status := Dropped\<rparr>, [])
              else Some (c\<lparr>recv_buf := buf\<rparr>, rest))"

fun server_step :: "deps \<Rightarrow> (nat \<Rightarrow> bool) \<Rightarrow> (server_task, nfs4) task_step" where
  "server_step d wfail ts (Conn evs c rs es i None) st =
     (if conn_status c \<noteq> Open then None
      else case next_record (recv_buf c) of
        More \<Rightarrow> map_option (\<lambda>(c', rs'). (Conn evs c' rs' es i None, st)) (read_more rs c)
      | Drop \<Rightarrow> Some (Conn evs (c\<lparr>conn_status := Dropped\<rparr>) [] es i None, st)
      | Skip4 r \<Rightarrow> Some (Conn evs (c\<lparr>recv_buf := r\<rparr>) rs es i None, st)
      | Rec rpc_data r \<Rightarrow>
          map_option (\<lambda>(t, j). (Conn evs (c\<lparr>recv_buf := r\<rparr>) rs es j (Some t), st)) (tcp_request es i rpc_data))"
| "server_step d wfail ts (Conn evs c rs es i (Some t)) st =
     (case t of
        Answered resp \<Rightarrow> Some (Conn evs (send_response wfail resp c) rs es i None, st)
      | _ \<Rightarrow> map_option (\<lambda>(t', st'). (Conn evs c rs es i (Some t'), st')) (request_step d [] t st))"
| "server_step d wfail ts (Work t) st = map_option (\<lambda>(t', st'). (Work t', st')) (request_step d [] t st)"

section \<open>Every connection gets the answers to its own requests, in order\<close>

function records :: "bytes \<Rightarrow> bytes list" where
  "records b =
     (case next_record b of
        Rec rpc_data r \<Rightarrow> rpc_data # records r
      | Skip4 r \<Rightarrow> records r
      | _ \<Rightarrow> [])"
  by pat_completeness auto
termination
  by (relation "measure length") (auto dest: next_record_shorter)

declare records.simps [simp del]

definition reply_xid :: "bytes \<Rightarrow> bytes" where
  "reply_xid framed = take 4 (drop 4 framed)"

lemma reply_xid_frame [simp]: "reply_xid (frame reply) = take 4 reply"
  by (simp add: reply_xid_def frame_def)

text \<open>The bytes of a list of reads, up to the end of the stream or an error.\<close>

fun bytes_read :: "read_event list \<Rightarrow> bytes" where
  "bytes_read [] = []"
| "bytes_read (Read_error # rest) = []"
| "bytes_read (Data dat # rest) = (if dat = [] then [] else dat @ bytes_read rest)"

lemma records_more: "next_record b = More \<Longrightarrow> records b = []"
  by (simp add: records.simps)

lemma read_moreE:
  assumes "read_more rs c = Some (c', rs')"
  obtains (left) "c' = c\<lparr>conn_status := Dropped\<rparr>" "rs' = []"
  | (full) dat rest where "rs = Data dat # rest" "MAX_RECV_BUF < length (recv_buf c @ dat)"
      "c' = c\<lparr>recv_buf := recv_buf c @ dat, conn_status := Dropped\<rparr>" "rs' = []"
  | (got) dat where "rs = Data dat # rs'" "dat \<noteq> []" "length (recv_buf c @ dat) \<le> MAX_RECV_BUF"
      "c' = c\<lparr>recv_buf := recv_buf c @ dat\<rparr>"
  using assms by (cases "(rs, c)" rule: read_more.cases) (auto simp: Let_def split: if_splits)

text \<open>
  The records of the client's bytes are those handled, the one in work and those of the bytes that
  are buffered or still to be read, while the connection is open.
\<close>

fun own_answers :: "server_task \<Rightarrow> bool" where
  "own_answers (Conn evs c rs es i t) \<longleftrightarrow>
     (\<exists>handled todo. subseq (map reply_xid (sent c)) (map (take 4) handled)
        \<and> (conn_status c = Open \<longrightarrow> todo = records (recv_buf c @ bytes_read rs))
        \<and> (case t of
             None \<Rightarrow> records (bytes_read evs) = handled @ todo
           | Some x \<Rightarrow> \<exists>rq. task_echoes rq x \<and> records (bytes_read evs) = handled @ rq # todo))"
| "own_answers (Work t) \<longleftrightarrow> True"

lemma own_idleI:
  "subseq (map reply_xid (sent c)) (map (take 4) handled)
     \<Longrightarrow> records (bytes_read evs) = handled @ todo
     \<Longrightarrow> (conn_status c = Open \<Longrightarrow> todo = records (recv_buf c @ bytes_read rs))
     \<Longrightarrow> own_answers (Conn evs c rs es i None)"
  by auto

lemma tcp_request_echoes: "tcp_request es i rq = Some (t, j) \<Longrightarrow> task_echoes rq t"
  by (auto simp: tcp_request_def make_rpc_error_reply_def echoes_def split: bind_splits if_splits)

lemma send_response_xids:
  assumes "subseq (map reply_xid (sent c)) xs" and "echoes rq resp"
  shows "subseq (map reply_xid (sent (send_response f resp c))) (xs @ [take 4 rq])"
proof (cases "case resp of None \<Rightarrow> True | Some r \<Rightarrow> f (length (sent c))")
  case True
  then have "sent (send_response f resp c) = sent c" by (auto simp: send_response_def split: option.splits)
  with assms(1) show ?thesis by (simp add: subseq_rev_drop_many)
next
  case False
  then obtain r where r: "resp = Some r" "sent (send_response f resp c) = sent c @ [frame r]"
    by (auto simp: send_response_def split: option.splits)
  with assms show ?thesis by (simp add: list_emb_append_mono)
qed

lemma records_append:
  "next_record b = Skip4 r \<Longrightarrow> records (b @ x) = records (r @ x)"
  "next_record b = Rec rq r \<Longrightarrow> records (b @ x) = rq # records (r @ x)"
  by (simp_all add: next_record_append records.simps [of "b @ x"])

lemma idle_step_own_answers:
  assumes "subseq (map reply_xid (sent c)) (map (take 4) handled)"
    and "records (bytes_read evs) = handled @ records (recv_buf c @ bytes_read rs)"
    and "server_step d f ts (Conn evs c rs es i None) st = Some (x, st')"
  shows "own_answers x"
proof (cases "next_record (recv_buf c)")
  case More
  with assms(3) obtain c' rs' where r: "read_more rs c = Some (c', rs')" "x = Conn evs c' rs' es i None"
    by (auto split: if_splits)
  from r(1) show ?thesis
    by (cases rule: read_moreE) (use assms(1,2) r(2) in \<open>auto\<close>)
next
  case Drop
  with assms(3) have "x = Conn evs (c\<lparr>conn_status := Dropped\<rparr>) [] es i None" by (simp split: if_splits)
  with assms(1,2) show ?thesis by (auto intro: own_idleI [of _ handled])
next
  case (Skip4 r)
  with assms(3) have "x = Conn evs (c\<lparr>recv_buf := r\<rparr>) rs es i None" by (simp split: if_splits)
  with assms(1,2) records_append(1) [OF Skip4] show ?thesis by auto
next
  case (Rec rq r)
  with assms(3) obtain u j where "tcp_request es i rq = Some (u, j)" "x = Conn evs (c\<lparr>recv_buf := r\<rparr>) rs es j (Some u)"
    by (auto split: if_splits)
  with assms(1,2) tcp_request_echoes records_append(2) [OF Rec] show ?thesis by auto
qed

lemma work_step_own_answers:
  assumes "own_answers (Conn evs c rs es i (Some u))"
    and "server_step d f ts (Conn evs c rs es i (Some u)) st = Some (x, st')"
  shows "own_answers x"
proof -
  from assms(1) obtain handled todo rq where h: "subseq (map reply_xid (sent c)) (map (take 4) handled)"
    and todo: "conn_status c = Open \<longrightarrow> todo = records (recv_buf c @ bytes_read rs)"
    and rq: "task_echoes rq u" "records (bytes_read evs) = handled @ rq # todo" by auto
  show ?thesis
  proof (cases "\<exists>resp. u = Answered resp")
    case True
    then obtain resp where u: "u = Answered resp" ..
    with assms(2) have x: "x = Conn evs (send_response f resp c) rs es i None" by simp
    from u rq(1) have "echoes rq resp" by simp
    note out = send_response_xids [OF h this]
    have "conn_status (send_response f resp c) = Open \<Longrightarrow> conn_status c = Open"
      by (auto simp: send_response_def split: option.splits if_splits)
    with out [of f] rq(2) todo show ?thesis
      unfolding x by (intro own_idleI [of _ "handled @ [rq]" _ todo]) simp_all
  next
    case False
    with assms(2) obtain u' where "request_step d [] u st = Some (u', st')" "x = Conn evs c rs es i (Some u')"
      by (cases u) auto
    with request_step_echoes [OF _ rq(1)] rq(2) h todo show ?thesis by auto
  qed
qed

interpretation answers_own: interleaving "server_step d f" "\<lambda>ts st. list_all own_answers ts" for d f
proof
  fix us y vs st x st'
  assume inv: "list_all own_answers (us @ y # vs)" and step: "server_step d f (us @ y # vs) y st = Some (x, st')"
  from inv have y: "own_answers y" by simp
  have "own_answers x"
  proof (cases y)
    case (Conn evs c rs es i t)
    show ?thesis
    proof (cases t)
      case None
      with y Conn step obtain handled where "subseq (map reply_xid (sent c)) (map (take 4) handled)"
        "records (bytes_read evs) = handled @ records (recv_buf c @ bytes_read rs)"
        by (auto split: if_splits)
      from idle_step_own_answers [OF this step [unfolded Conn None]] show ?thesis .
    next
      case (Some u)
      from work_step_own_answers [OF y [unfolded Conn Some] step [unfolded Conn Some]] show ?thesis .
    qed
  qed (use step in auto)
  with inv show "list_all own_answers (us @ x # vs)" by simp
qed

text \<open>
  C3: however many connections the server has and however their requests, and those of the other
  tasks, interleave: the transaction ids of the replies written to a connection are those of the
  records in the bytes received from its own client, in their order, each at most once, whatever
  reads the bytes arrive in.
\<close>

theorem replies_answer_own_requests:
  assumes "schedule (server_step d wfail) ks (map (case_prod new_conn) streams @ map Work works, st) = Some (ts, st')"
    and "Conn evs c rs es i t \<in> set ts"
  shows "subseq (map reply_xid (sent c)) (map (take 4) (records (bytes_read evs)))"
proof -
  have "list_all own_answers (map (case_prod new_conn) streams @ map Work works)"
    by (auto simp: list_all_iff new_conn_def conn_start_def)
  from answers_own.schedule_inv [OF assms(1) this] assms(2) have "own_answers (Conn evs c rs es i t)"
    by (auto simp: list_all_iff)
  then obtain handled rest where "subseq (map reply_xid (sent c)) (map (take 4) handled)"
    "records (bytes_read evs) = handled @ rest"
    by (auto split: option.splits)
  then show ?thesis by (simp add: list_emb_prefix)
qed

section \<open>The tables whatever all clients send\<close>










section \<open>The receive buffers\<close>

definition small_reads :: "read_event list \<Rightarrow> bool" where
  "small_reads evs \<longleftrightarrow> list_all (\<lambda>ev. case ev of Data dat \<Rightarrow> length dat \<le> 65536 | Read_error \<Rightarrow> True) evs"

fun buffer_ok :: "server_task \<Rightarrow> bool" where
  "buffer_ok (Conn evs c rs es i t) \<longleftrightarrow>
     (small_reads evs \<longrightarrow> small_reads rs)
     \<and> (conn_status c = Open \<longrightarrow> length (recv_buf c) \<le> MAX_RECV_BUF
          \<and> (small_reads evs \<longrightarrow> length (recv_buf c) < 4 + MAX_RECORD_LENGTH + 65536))"
| "buffer_ok (Work t) \<longleftrightarrow> True"

lemma next_record_waiting: "next_record b = More \<Longrightarrow> length b < 4 + MAX_RECORD_LENGTH"
  by (auto simp: next_record_def Let_def split: if_splits)

lemma read_more_buffer_ok:
  assumes "read_more rs c = Some (c', rs')" and "next_record (recv_buf c) = More"
    and "buffer_ok (Conn evs c rs es i None)"
  shows "buffer_ok (Conn evs c' rs' es i None)"
  using assms(1)
proof (cases rule: read_moreE)
  case (got dat)
  with assms(3) next_record_waiting [OF assms(2)] show ?thesis by (auto simp: small_reads_def)
qed (auto simp: small_reads_def)

lemma server_step_buffer_ok:
  assumes "buffer_ok y" and "server_step d f ts y st = Some (x, st')"
  shows "buffer_ok x"
proof (cases y)
  case (Conn evs c rs es i t)
  show ?thesis
  proof (cases t)
    case None
    note y = Conn [unfolded None]
    show ?thesis
    proof (cases "next_record (recv_buf c)")
      case More
      with assms(2) y obtain c' rs' where "read_more rs c = Some (c', rs')" "x = Conn evs c' rs' es i None"
        by (auto split: if_splits)
      with read_more_buffer_ok [OF _ More] assms(1) y show ?thesis by blast
    next
      case Drop
      with assms y show ?thesis by (auto simp: small_reads_def split: if_splits)
    next
      case (Skip4 r)
      with assms y next_record_shorter(1) [OF Skip4] show ?thesis by (auto split: if_splits)
    next
      case (Rec rq r)
      with assms(2) y obtain u j where "x = Conn evs (c\<lparr>recv_buf := r\<rparr>) rs es j (Some u)"
        by (auto split: if_splits)
      with assms(1) y next_record_shorter(2) [OF Rec] show ?thesis by auto
    qed
  next
    case (Some u)
    with assms Conn show ?thesis
      by (cases u) (auto simp: send_response_def split: option.splits if_splits)
  qed
qed (use assms in auto)

interpretation buffers: interleaving "server_step d f" "\<lambda>ts st. list_all buffer_ok ts" for d f
  by (unfold_locales) (use server_step_buffer_ok in \<open>auto\<close>)

text \<open>
  C2: in every state of the process an open connection has buffered at most 4 MiB, whatever the
  size of the reads; and when no read delivers more than the 65536 bytes of its array, less than
  one maximal record, its mark and one read, so that the limit of 4 MiB is never what ends a connection.
\<close>

theorem receive_buffers_bounded:
  assumes "schedule (server_step d wfail) ks (map (case_prod new_conn) streams @ map Work works, st) = Some (ts, st')"
    and "Conn evs c rs es i t \<in> set ts" and "conn_status c = Open"
  shows "length (recv_buf c) \<le> MAX_RECV_BUF
    \<and> (small_reads evs \<longrightarrow> length (recv_buf c) < 4 + MAX_RECORD_LENGTH + 65536
         \<and> 4 + MAX_RECORD_LENGTH + 65536 < MAX_RECV_BUF)"
proof -
  have "list_all buffer_ok (map (case_prod new_conn) streams @ map Work works)"
    by (auto simp: list_all_iff new_conn_def conn_start_def stream_const_defs)
  from buffers.schedule_inv [OF assms(1) this] assms(2,3) show ?thesis
    by (auto simp: list_all_iff stream_const_defs)
qed

section \<open>A connection that runs alone\<close>

lemma run_inside:
  "schedule (request_step d) ks ([x], st) = Some ([Answered r], st')
     \<Longrightarrow> schedule (server_step d f) ks ([Conn b c rs es i (Some x)], st) = Some ([Conn b c rs es i (Some (Answered r))], st')"
proof (induction ks arbitrary: x st)
  case (Cons k ks)
  from Cons.prems obtain x1 st1 where k: "k = 0" "request_step d [x] x st = Some (x1, st1)"
    and run: "schedule (request_step d) ks ([x1], st1) = Some ([Answered r], st')"
    by (auto simp: step_at_def split: bind_splits if_splits)
  from k(2) have "request_step d [] x st = Some (x1, st1)" by (metis request_step_others)
  then have "server_step d f [Conn b c rs es i (Some x)] (Conn b c rs es i (Some x)) st = Some (Conn b c rs es i (Some x1), st1)"
    by (cases x) simp_all
  with k(1) Cons.IH [OF run] show ?case by (simp add: step_at_def)
qed simp

lemma v3_call_ends_in:
  "ends_in d (V3_call e rq) st r st' \<longleftrightarrow> v3_handle_request d e rq st = Some (r, st')"
  by (subst ends_in_step) auto

text \<open>The request of a record ends as the handler of the sequential model does.\<close>

lemma tcp_request_ends_in:
  assumes "tcp_route (v3_at d es) (v4_at d es) (st, i) rq = Some (resp, s')"
  obtains t where "tcp_request es i rq = Some (t, snd s')" "ends_in d t st resp (fst s')"
  using assms
  by (auto simp: tcp_route_def tcp_request_def v3_at_def v4_at_def call_ends_in v3_call_ends_in
      split: bind_splits if_splits)

definition conn_part :: "('s :: type) conn \<Rightarrow> unit conn" where
  "conn_part c = \<lparr>recv_buf = recv_buf c, sent = sent c, conn_status = conn_status c, server = ()\<rparr>"

lemma conn_part_simps [simp]:
  "recv_buf (conn_part c) = recv_buf c" "sent (conn_part c) = sent c" "conn_status (conn_part c) = conn_status c"
  "(conn_part c)\<lparr>recv_buf := x\<rparr> = conn_part (c\<lparr>recv_buf := x\<rparr>)"
  "(conn_part c)\<lparr>conn_status := y\<rparr> = conn_part (c\<lparr>conn_status := y\<rparr>)"
  "conn_part (c\<lparr>server := s\<rparr>) = conn_part c"
  "send_response f resp (conn_part c) = conn_part (send_response f resp c)"
  "conn_part ((send_response f resp (c\<lparr>server := s\<rparr>))\<lparr>recv_buf := x\<rparr>) = conn_part ((send_response f resp c)\<lparr>recv_buf := x\<rparr>)"
  by (auto simp: conn_part_def send_response_def split: option.split)

abbreviation lone :: "read_event list \<Rightarrow> (nat \<Rightarrow> env) \<Rightarrow> read_event list \<Rightarrow> (nfs4 \<times> nat) conn \<Rightarrow> server_task list \<times> nfs4" where
  "lone evs es rs c \<equiv> ([Conn evs (conn_part c) rs es (snd (server c)) None], fst (server c))"

lemma drain_is_schedule:
  assumes "h = tcp_route (v3_at d es) (v4_at d es)"
    and "conn_status (drain_records f h b c) \<noteq> Panicked"
  shows "\<exists>ks rs'. schedule (server_step d f) ks (lone evs es rs (c\<lparr>recv_buf := b\<rparr>)) = Some (lone evs es rs' (drain_records f h b c))
    \<and> (conn_status (drain_records f h b c) = Open \<longrightarrow> rs' = rs)"
  using assms
proof (induction f h b c rule: drain_records.induct)
  case (1 f h b c)
  have stay: "\<exists>ks rs'. schedule (server_step d f) ks (lone evs es rs x) = Some (lone evs es rs' x) \<and> (conn_status x = Open \<longrightarrow> rs' = rs)" for x
    by (rule exI [of _ "[]"]) simp
  show ?case
  proof (cases "conn_status c = Open")
    case False
    then show ?thesis using stay [of "c\<lparr>recv_buf := b\<rparr>"] by (simp add: drain_records.simps)
  next
    case o: True
    have first: "step_at (server_step d f) 0 (lone evs es rs (c\<lparr>recv_buf := b\<rparr>))
        = map_option (\<lambda>(x, m). ([x], m)) (server_step d f [Conn evs (conn_part (c\<lparr>recv_buf := b\<rparr>)) rs es (snd (server c)) None]
            (Conn evs (conn_part (c\<lparr>recv_buf := b\<rparr>)) rs es (snd (server c)) None) (fst (server c)))"
      by (simp add: step_at_def)
    show ?thesis
    proof (cases "next_record b")
      case More
      with o show ?thesis using stay [of "c\<lparr>recv_buf := b\<rparr>"] by (simp add: drain_records.simps [of f h b])
    next
      case Drop
      with o first show ?thesis
        by (intro exI [of _ "[0]"] exI [of _ "[]"]) (simp add: drain_records.simps [of f h b])
    next
      case (Skip4 r)
      with o have eq: "drain_records f h b c = drain_records f h r c" by (simp add: drain_records.simps [of f h b])
      from "1.IH"(1) [OF _ Skip4 "1.prems"(1)] "1.prems"(2) o eq obtain ks rs' where
        "schedule (server_step d f) ks (lone evs es rs (c\<lparr>recv_buf := r\<rparr>)) = Some (lone evs es rs' (drain_records f h b c))"
        "conn_status (drain_records f h b c) = Open \<longrightarrow> rs' = rs" by auto
      with Skip4 o first show ?thesis by (intro exI [of _ "0 # ks"] exI [of _ rs']) simp
    next
      case (Rec rq r)
      from o Rec "1.prems"(2) obtain resp s' where h: "h (server c) rq = Some (resp, s')"
        by (cases "h (server c) rq") (auto simp: drain_records.simps [of f h b])
      let ?c = "send_response f resp (c\<lparr>server := s'\<rparr>)"
      from o Rec h have eq: "drain_records f h b c = drain_records f h r ?c"
        by (simp add: drain_records.simps [of f h b])
      from "1.IH"(2) [OF _ Rec h refl "1.prems"(1)] "1.prems"(2) o eq obtain ks rs' where
        ih: "schedule (server_step d f) ks (lone evs es rs (?c\<lparr>recv_buf := r\<rparr>)) = Some (lone evs es rs' (drain_records f h b c))"
        and rs': "conn_status (drain_records f h b c) = Open \<longrightarrow> rs' = rs" by auto
      from h "1.prems"(1) have "tcp_route (v3_at d es) (v4_at d es) (fst (server c), snd (server c)) rq = Some (resp, s')" by simp
      then obtain t where t: "tcp_request es (snd (server c)) rq = Some (t, snd s')" "ends_in d t (fst (server c)) resp (fst s')"
        by (rule tcp_request_ends_in)
      from t(2) obtain ls where "schedule (request_step d) ls ([t], fst (server c)) = Some ([Answered resp], fst s')"
        by (auto simp: ends_in_def)
      note inside = run_inside [OF this, of f evs "conn_part (c\<lparr>recv_buf := r\<rparr>)" rs es "snd s'"]
      have "schedule (server_step d f) [0] (lone evs es rs (c\<lparr>recv_buf := b\<rparr>))
          = Some ([Conn evs (conn_part (c\<lparr>recv_buf := r\<rparr>)) rs es (snd s') (Some t)], fst (server c))"
        using o Rec t(1) first by simp
      moreover have "schedule (server_step d f) [0]
          ([Conn evs (conn_part (c\<lparr>recv_buf := r\<rparr>)) rs es (snd s') (Some (Answered resp))], fst s') = Some (lone evs es rs (?c\<lparr>recv_buf := r\<rparr>))"
        by (simp add: step_at_def)
      ultimately have "schedule (server_step d f) (((([0] @ ls) @ [0])) @ ks) (lone evs es rs (c\<lparr>recv_buf := b\<rparr>))
          = Some (lone evs es rs' (drain_records f h b c))"
        using inside ih by (simp only: schedule_append bind.bind_lunit)
      with rs' show ?thesis by blast
    qed
  qed
qed

text \<open>One turn of the outer loop that reads: the buffer is drained, then the read.\<close>

lemma read_is_step:
  assumes "next_record (recv_buf c) = More" and "conn_status c = Open"
  shows "schedule (server_step d f) [0] (lone evs es rs c)
    = map_option (\<lambda>(c', rs'). ([Conn evs c' rs' es (snd (server c)) None], fst (server c))) (read_more rs (conn_part c))"
  using assms by (cases "read_more rs (conn_part c)") (auto simp: step_at_def)

lemma serve_is_schedule:
  assumes "h = tcp_route (v3_at d es) (v4_at d es)" and "conn_status (serve f h rs c) \<noteq> Panicked"
  shows "\<exists>ks rs'. schedule (server_step d f) ks (lone evs es rs c) = Some (lone evs es rs' (serve f h rs c))"
  using assms
proof (induction f h rs c rule: serve.induct)
  case (1 f h rs c)
  let ?c1 = "drain_records f h (recv_buf c) c"
  from "1.prems"(2) have np: "conn_status ?c1 \<noteq> Panicked" by (auto simp: serve.simps [of f h rs c] Let_def)
  obtain ks rs' where drained: "schedule (server_step d f) ks (lone evs es rs c) = Some (lone evs es rs' ?c1)"
    and rs': "conn_status ?c1 = Open \<longrightarrow> rs' = rs"
    using drain_is_schedule [OF "1.prems"(1) np, of evs rs] by auto
  have join: "?case" if "schedule (server_step d f) ls (lone evs es rs' ?c1) = Some (lone evs es qs (serve f h rs c))" for ls qs
  proof -
    from drained that have "schedule (server_step d f) (ks @ ls) (lone evs es rs c) = Some (lone evs es qs (serve f h rs c))"
      by (simp only: schedule_append bind.bind_lunit)
    then show ?thesis by blast
  qed
  show ?case
  proof (cases "conn_status ?c1 = Open")
    case False
    then have "serve f h rs c = ?c1" by (simp add: serve.simps [of f h rs c] Let_def)
    then show ?thesis by (intro join [of "[]" rs']) simp
  next
    case o: True
    with rs' have [simp]: "rs' = rs" by simp
    from drain_idle [OF o] have more: "next_record (recv_buf ?c1) = More" by simp
    note read = read_is_step [OF more o, where d = d and f = f and evs = evs and es = es and rs = rs]
    show ?thesis
    proof (cases rs)
      case Nil
      with o have "serve f h rs c = ?c1" by (simp add: serve.simps [of f h "[]" c] Let_def)
      then show ?thesis by (intro join [of "[]" rs]) simp
    next
      case (Cons ev rest)
      show ?thesis
      proof (cases "\<exists>dat. ev = Data dat \<and> dat \<noteq> [] \<and> length (recv_buf ?c1 @ dat) \<le> MAX_RECV_BUF")
        case True
        then obtain dat where ev: "ev = Data dat" "dat \<noteq> []" "length (recv_buf ?c1 @ dat) \<le> MAX_RECV_BUF" by blast
        let ?c2 = "?c1\<lparr>recv_buf := recv_buf ?c1 @ dat\<rparr>"
        from o Cons ev have eq: "serve f h rs c = serve f h rest ?c2" by (simp add: serve.simps [of f h "Data dat # rest" c] Let_def)
        have ih: "\<exists>ks qs. schedule (server_step d f) ks (lone evs es rest ?c2) = Some (lone evs es qs (serve f h rest ?c2))"
          using "1.IH" [of ?c1 ev rest dat "recv_buf ?c1 @ dat"] "1.prems" o Cons ev eq by simp
        then obtain ls qs where ls: "schedule (server_step d f) ls (lone evs es rest ?c2) = Some (lone evs es qs (serve f h rs c))"
          unfolding eq by blast
        from read Cons ev have "schedule (server_step d f) [0] (lone evs es rs ?c1) = Some (lone evs es rest ?c2)"
          by (simp add: Let_def)
        with ls have "schedule (server_step d f) ([0] @ ls) (lone evs es rs ?c1) = Some (lone evs es qs (serve f h rs c))"
          by (simp only: schedule_append bind.bind_lunit)
        then show ?thesis by (intro join [of "[0] @ ls" qs]) simp
      next
        case False
        then have "schedule (server_step d f) [0] (lone evs es rs ?c1) = Some (lone evs es [] (serve f h rs c))"
          using read Cons o by (cases ev) (auto simp: serve.simps [of f h "_ # rest" c] Let_def)
        then show ?thesis by (intro join [of "[0]" "[]"]) simp
      qed
    qed
  qed
qed

text \<open>
  A connection that is not interrupted and whose requests do not panic writes what
  \<open>handle_nfs_stream\<close> writes in its sequential model for the same reads, and leaves the server in the
  same state.  The handlers are the same in both; the lemma is about the two forms of the loop.
\<close>

lemma lone_connection_is_sequential:
  assumes "handle_nfs_stream wfail (v3_at d es) (v4_at d es) evs (st, 0) = c"
    and "conn_status c \<noteq> Panicked"
  shows "\<exists>ks rs. schedule (server_step d wfail) ks ([new_conn evs es], st) = Some (lone evs es rs c)"
  using serve_is_schedule [OF refl, where d = d and es = es and f = wfail and rs = evs and c = "conn_start (st, 0)" and evs = evs] assms
  by (simp add: handle_nfs_stream_def new_conn_def conn_start_def conn_part_def)

section \<open>Concrete schedules\<close>

text \<open>A call of the ACL program, which the transport answers itself.\<close>

definition acl_call :: "u32 \<Rightarrow> bytes" where
  "acl_call xid = be32 xid @ be32 0 @ be32 2 @ be32 100227 @ be32 3"

definition acl_answer :: "u32 \<Rightarrow> bytes" where
  "acl_answer xid = be32 xid @ be32 0 @ be32 0 @ be32 0 @ be32 0 @ be32 1"

lemma acl_call_facts:
  "next_record (frame (acl_call xid)) = Rec (acl_call xid) []" "next_record [] = More"
  "tcp_request es i (acl_call xid) = Some (Answered (Some (acl_answer xid)), i)"
  "tcp_route h3 h4 s (acl_call xid) = Some (Some (acl_answer xid), s)"
proof -
  have "well_sized (acl_call xid)" by (simp add: well_sized_def acl_call_def MAX_RECORD_LENGTH_def)
  from next_record_frame [OF this, of "[]"] show "next_record (frame (acl_call xid)) = Rec (acl_call xid) []" by simp
  show "next_record [] = More" by (simp add: next_record_def)
  have r: "rd32 (acl_call xid) 12 = Some 100227" "rd32 (acl_call xid) 16 = Some 3"
    by (simp_all add: acl_call_def rd32_def)
  have e: "make_rpc_error_reply (acl_call xid) 1 = Some (acl_answer xid)"
    by (simp add: make_rpc_error_reply_def acl_call_def acl_answer_def)
  from r e show "tcp_request es i (acl_call xid) = Some (Answered (Some (acl_answer xid)), i)"
    "tcp_route h3 h4 s (acl_call xid) = Some (Some (acl_answer xid), s)"
    by (simp_all add: tcp_request_def tcp_route_def stream_const_defs)
qed

lemma acl_frame_read:
  "frame (acl_call xid) \<noteq> []" "length (frame (acl_call xid)) = 24"
  by (simp_all add: frame_def acl_call_def stream_const_defs flip: length_greater_0_conv)

text \<open>Two clients that send one call each; the second sends it in two reads.\<close>

definition split_call :: "u32 \<Rightarrow> read_event list" where
  "split_call xid = [Data (take 10 (frame (acl_call xid))), Data (drop 10 (frame (acl_call xid)))]"

definition two_clients :: "(read_event list \<times> (nat \<Rightarrow> env)) list" where
  "two_clients = [([Data (frame (acl_call 7))], \<lambda>_. sample_env), (split_call 8, \<lambda>_. sample_env)]"

lemma split_call_facts:
  "take 10 (frame (acl_call xid)) \<noteq> []" "drop 10 (frame (acl_call xid)) \<noteq> []"
  "next_record (take 10 (frame (acl_call xid))) = More"
  "bytes_read (split_call xid) = frame (acl_call xid)" "small_reads (split_call xid)"
proof -
  show part: "take 10 (frame (acl_call xid)) \<noteq> []" "drop 10 (frame (acl_call xid)) \<noteq> []"
    by (simp_all add: frame_def acl_call_def flip: length_greater_0_conv)
  then show "bytes_read (split_call xid) = frame (acl_call xid)" "small_reads (split_call xid)"
    by (simp_all add: split_call_def small_reads_def acl_frame_read)
  have "u32_at (take 10 (frame (acl_call xid))) 0 = u32_at (frame (acl_call xid)) 0"
    by (simp add: u32_at_def)
  moreover have "length (take 10 (frame (acl_call xid))) = 10" by (simp add: acl_frame_read)
  moreover have "next_record (frame (acl_call xid)) = Rec (acl_call xid) []" by (rule acl_call_facts)
  ultimately show "next_record (take 10 (frame (acl_call xid))) = More"
    by (auto simp: next_record_def Let_def acl_frame_read split: if_splits)
qed

lemma two_clients_run:
  "\<exists>c0 c1. schedule (server_step sample_deps (\<lambda>_. False)) [0, 1, 0, 2, 1, 1, 0, 1]
      (map (case_prod new_conn) two_clients @ map Work [Cleanup 5], st)
    = Some ([Conn [Data (frame (acl_call 7))] c0 [] (\<lambda>_. sample_env) 0 None, Conn (split_call 8) c1 [] (\<lambda>_. sample_env) 0 None,
        Work (Answered None)], cleanup_expired 5 st)
    \<and> sent c0 = [frame (acl_answer 7)] \<and> sent c1 = [frame (acl_answer 8)] \<and> conn_status c1 = Open"
  by (simp add: two_clients_def new_conn_def conn_start_def step_at_def acl_call_facts acl_frame_read send_response_def
      MAX_RECV_BUF_def Let_def split_call_facts split_call_def [of 8])

theorem replies_answer_own_requests_witness:
  "\<exists>ts st' c1. schedule (server_step sample_deps (\<lambda>_. False)) [0, 1, 0, 2, 1, 1, 0, 1]
      (map (case_prod new_conn) two_clients @ map Work [Cleanup 5], sample_server default_options) = Some (ts, st')
    \<and> Conn (split_call 8) c1 [] (\<lambda>_. sample_env) 0 None \<in> set ts \<and> sent c1 \<noteq> []
    \<and> subseq (map reply_xid (sent c1)) (map (take 4) (records (frame (acl_call 8))))"
proof -
  obtain c0 c1 where run: "schedule (server_step sample_deps (\<lambda>_. False)) [0, 1, 0, 2, 1, 1, 0, 1]
      (map (case_prod new_conn) two_clients @ map Work [Cleanup 5], sample_server default_options)
    = Some ([Conn [Data (frame (acl_call 7))] c0 [] (\<lambda>_. sample_env) 0 None, Conn (split_call 8) c1 [] (\<lambda>_. sample_env) 0 None,
        Work (Answered None)], cleanup_expired 5 (sample_server default_options))"
    and out: "sent c1 = [frame (acl_answer 8)]" using two_clients_run by blast
  let ?ts = "[Conn [Data (frame (acl_call 7))] c0 [] (\<lambda>_. sample_env) 0 None, Conn (split_call 8) c1 [] (\<lambda>_. sample_env) 0 None,
        Work (Answered None)]"
  have "Conn (split_call 8) c1 [] (\<lambda>_. sample_env) 0 None \<in> set ?ts" by simp
  moreover from replies_answer_own_requests [OF run this]
  have "subseq (map reply_xid (sent c1)) (map (take 4) (records (frame (acl_call 8))))"
    by (simp only: split_call_facts)
  moreover have "sent c1 \<noteq> []" by (simp add: out)
  ultimately show ?thesis using run by blast
qed


theorem receive_buffers_bounded_witness:
  "\<exists>ts st c1. schedule (server_step sample_deps (\<lambda>_. False)) [0, 1, 0, 2, 1, 1, 0, 1]
      (map (case_prod new_conn) two_clients @ map Work [Cleanup 5], sample_server default_options) = Some (ts, st)
    \<and> Conn (split_call 8) c1 [] (\<lambda>_. sample_env) 0 None \<in> set ts \<and> conn_status c1 = Open
    \<and> length (recv_buf c1) < 4 + MAX_RECORD_LENGTH + 65536"
proof -
  obtain c0 c1 where run: "schedule (server_step sample_deps (\<lambda>_. False)) [0, 1, 0, 2, 1, 1, 0, 1]
      (map (case_prod new_conn) two_clients @ map Work [Cleanup 5], sample_server default_options)
    = Some ([Conn [Data (frame (acl_call 7))] c0 [] (\<lambda>_. sample_env) 0 None, Conn (split_call 8) c1 [] (\<lambda>_. sample_env) 0 None,
        Work (Answered None)], cleanup_expired 5 (sample_server default_options))"
    and open1: "conn_status c1 = Open" using two_clients_run by blast
  let ?ts = "[Conn [Data (frame (acl_call 7))] c0 [] (\<lambda>_. sample_env) 0 None, Conn (split_call 8) c1 [] (\<lambda>_. sample_env) 0 None,
        Work (Answered None)]"
  have mem: "Conn (split_call 8) c1 [] (\<lambda>_. sample_env) 0 None \<in> set ?ts" by simp
  from receive_buffers_bounded [OF run mem open1] split_call_facts(5) [of 8]
  have "length (recv_buf c1) < 4 + MAX_RECORD_LENGTH + 65536" by blast
  with run mem open1 show ?thesis by blast
qed

end
