(* ===== verification/Handle_Race.thy ===== *)
theory Handle_Race
  imports Tasks Exports
begin

text \<open>
  \<open>get_or_create_fh\<close> and \<open>try_rebuild_fh\<close> of \<open>src/exports.rs\<close> with their locks.  The handle store is
  three \<open>RwLock\<close>s, and a call gives up the processor wherever it waits for one of them.  The
  locks a task holds are those of its program point.  A waiting writer of tokio's lock also stops
  new readers; leaving that out only adds schedules.
\<close>

section \<open>Program points and locks\<close>

datatype lock = Fh_map | Path_to_fhid | Fh_counter

datatype mode = Read | Write

datatype store_task =
    Get_start env path path
  | Get_found env path path u64
  | Get_count env path path
  | Get_insert env path path u64
  | Get_paths env path path u64
  | Get_done path bytes
  | Reb_start bytes
  | Reb_walk u64 u64
  | Reb_found u64 u64 path path
  | Reb_paths u64 u64 path path
  | Reb_count u64 u64 path path
  | Reb_done

fun held :: "store_task \<Rightarrow> (lock \<times> mode) list" where
  "held (Get_found e p root i) = [(Path_to_fhid, Read)]"
| "held (Get_paths e p root i) = [(Fh_map, Write)]"
| "held (Reb_paths i n root p) = [(Fh_map, Write)]"
| "held (Reb_count i n root p) = [(Fh_map, Write), (Path_to_fhid, Write)]"
| "held _ = []"

definition can_read :: "store_task list \<Rightarrow> lock \<Rightarrow> bool" where
  "can_read ts l \<longleftrightarrow> list_all (\<lambda>t. (l, Write) \<notin> set (held t)) ts"

definition can_write :: "store_task list \<Rightarrow> lock \<Rightarrow> bool" where
  "can_write ts l \<longleftrightarrow> list_all (\<lambda>t. l \<notin> fst ` set (held t)) ts"

definition when_free :: "bool \<Rightarrow> 'a \<Rightarrow> 'a option" where
  "when_free b x = (if b then Some x else None)"

text \<open>The two insertions of a new entry.\<close>

definition put_entry :: "u64 \<Rightarrow> u64 \<Rightarrow> path \<Rightarrow> path \<Rightarrow> exports_manager \<Rightarrow> exports_manager" where
  "put_entry i inode root p m =
     m\<lparr>fh_map := (fh_map m)(i \<mapsto> \<lparr>real_path = p, export_root = root, fh_inode = inode, fh_gen = 1\<rparr>),
       path_to_fhid := (path_to_fhid m)(path_key p \<mapsto> i)\<rparr>"

fun store_step :: "deps \<Rightarrow> fs \<Rightarrow> (store_task, exports_manager) task_step" where
  "store_step d s ts (Get_start e p root) m =
     when_free (can_read ts Path_to_fhid)
       (case path_to_fhid m (path_key p) of
          None \<Rightarrow> Get_count e p root
        | Some fhid \<Rightarrow> Get_found e p root fhid, m)"
| "store_step d s ts (Get_found e p root fhid) m =
     when_free (can_read ts Fh_map)
       (case fh_map m fhid of
          Some entry \<Rightarrow> Get_done p (encode_handle d e m fhid (fh_inode entry) (fh_gen entry))
        | None \<Rightarrow> Get_count e p root, m)"
| "store_step d s ts (Get_count e p root) m =
     when_free (can_write ts Fh_counter)
       (Get_insert e p root (fh_counter m), m\<lparr>fh_counter := fh_counter m + 1\<rparr>)"
| "store_step d s ts (Get_insert e p root fhid) m =
     when_free (can_write ts Fh_map) (Get_paths e p root fhid, m)"
| "store_step d s ts (Get_paths e p root fhid) m =
     when_free (can_write ts Path_to_fhid)
       (let m' = put_entry fhid (get_inode p) root p m
        in (Get_done p (encode_handle d e m' fhid (get_inode p) 1), m'))"
| "store_step d s ts (Get_done p h) m = None"
| "store_step d s ts (Reb_start h) m =
     (case decode_fhid h of
        None \<Rightarrow> Some (Reb_done, m)
      | Some fhid \<Rightarrow>
          if fhid = - 1 \<or> fhid = 0 then Some (Reb_done, m)
          else when_free (can_read ts Fh_map)
            (if fh_map m fhid \<noteq> None \<or> length h < 16 then Reb_done else Reb_walk fhid (u64_at h 8), m))"
| "store_step d s ts (Reb_walk fhid stored_inode) m =
     Some (case first_some (\<lambda>(_, ex).
              map_option (Pair (exp_path ex)) (find_path_by_inode 8 s stored_inode (exp_path ex))) (exports m) of
         None \<Rightarrow> Reb_done
       | Some (root, found_path) \<Rightarrow> Reb_found fhid stored_inode root found_path, m)"
| "store_step d s ts (Reb_found fhid inode root p) m =
     when_free (can_write ts Fh_map) (Reb_paths fhid inode root p, m)"
| "store_step d s ts (Reb_paths fhid inode root p) m =
     when_free (can_write ts Path_to_fhid) (Reb_count fhid inode root p, m)"
| "store_step d s ts (Reb_count fhid inode root p) m =
     when_free (can_write ts Fh_counter)
       (Reb_done, put_entry fhid inode root p
          (m\<lparr>fh_counter := (if fhid \<ge> fh_counter m then fhid + 1 else fh_counter m)\<rparr>))"
| "store_step d s ts Reb_done m = None"

fun store_done :: "store_task \<Rightarrow> bool" where
  "store_done (Get_done p h) = True"
| "store_done Reb_done = True"
| "store_done _ = False"

lemmas lock_simps = can_read_def can_write_def when_free_def

section \<open>A call that runs alone\<close>

text \<open>
  C6: a task that is not interrupted does what the sequential models of the two functions do:
  they are the runs of the lock-level program without interference.
\<close>

theorem lone_task_is_sequential:
  "(\<exists>ks. schedule (store_step d s) ks ([Get_start e p root], m)
      = (case get_or_create_fh d e p root m of (h, m') \<Rightarrow> Some ([Get_done p h], m')))
   \<and> (\<exists>ks. schedule (store_step d s) ks ([Reb_start h], m) = Some ([Reb_done], try_rebuild_fh s h m))"
proof
  let ?step = "store_step d s"
  have new: "schedule ?step [0, 0, 0] ([Get_count e p root], m)
      = (let m' = put_entry (fh_counter m) (get_inode p) root p (m\<lparr>fh_counter := fh_counter m + 1\<rparr>)
         in Some ([Get_done p (encode_handle d e m' (fh_counter m) (get_inode p) 1)], m'))"
    by (simp add: step_at_def lock_simps Let_def)
  show "\<exists>ks. schedule ?step ks ([Get_start e p root], m)
      = (case get_or_create_fh d e p root m of (h, m') \<Rightarrow> Some ([Get_done p h], m'))"
  proof (cases "path_to_fhid m (path_key p)")
    case None
    with new show ?thesis
      by (intro exI [of _ "[0, 0, 0, 0]"])
        (simp add: step_at_def lock_simps get_or_create_fh_def put_entry_def Let_def)
  next
    case i: (Some i)
    show ?thesis
    proof (cases "fh_map m i")
      case None
      with i new show ?thesis
        by (intro exI [of _ "[0, 0, 0, 0, 0]"])
          (simp add: step_at_def lock_simps get_or_create_fh_def put_entry_def Let_def)
    next
      case (Some en)
      with i show ?thesis
        by (intro exI [of _ "[0, 0]"]) (simp add: step_at_def lock_simps get_or_create_fh_def)
    qed
  qed
  show "\<exists>ks. schedule ?step ks ([Reb_start h], m) = Some ([Reb_done], try_rebuild_fh s h m)"
  proof (cases "decode_fhid h")
    case None
    then show ?thesis by (intro exI [of _ "[0]"]) (simp add: step_at_def try_rebuild_fh_def)
  next
    case i: (Some i)
    show ?thesis
    proof (cases "i = - 1 \<or> i = 0 \<or> fh_map m i \<noteq> None \<or> length h < 16")
      case True
      with i show ?thesis
        by (intro exI [of _ "[0]"]) (auto simp: step_at_def lock_simps try_rebuild_fh_def)
    next
      case walk: False
      let ?found = "first_some (\<lambda>(_, ex). map_option (Pair (exp_path ex))
          (find_path_by_inode 8 s (u64_at h 8) (exp_path ex))) (exports m)"
      show ?thesis
      proof (cases ?found)
        case None
        with i walk show ?thesis
          by (intro exI [of _ "[0, 0]"]) (simp add: step_at_def lock_simps try_rebuild_fh_def)
      next
        case (Some x)
        with i walk show ?thesis
          by (cases x, intro exI [of _ "[0, 0, 0, 0, 0]"])
            (simp add: step_at_def lock_simps try_rebuild_fh_def put_entry_def)
      qed
    qed
  qed
qed

section \<open>Calls that create handles at the same time\<close>

text \<open>
  The invariant: ids that are allocated but not yet entered are below the counter, unused and
  different; a finished call has a handle that denotes its path; and the calls that have not
  allocated yet find room in the counter.
\<close>

fun pending :: "store_task \<Rightarrow> u64 list" where
  "pending (Get_insert e p root i) = [i]"
| "pending (Get_paths e p root i) = [i]"
| "pending _ = []"

fun may_allocate :: "store_task \<Rightarrow> bool" where
  "may_allocate (Get_start e p root) = True"
| "may_allocate (Get_found e p root i) = True"
| "may_allocate (Get_count e p root) = True"
| "may_allocate _ = False"

fun get_task :: "deps \<Rightarrow> exports_manager \<Rightarrow> store_task \<Rightarrow> bool" where
  "get_task d m (Get_start e p root) = True"
| "get_task d m (Get_found e p root i) = (\<exists>en. fh_map m i = Some en \<and> path_key (real_path en) = path_key p)"
| "get_task d m (Get_count e p root) = True"
| "get_task d m (Get_insert e p root i) = (i \<noteq> 0 \<and> i < fh_counter m \<and> fh_map m i = None)"
| "get_task d m (Get_paths e p root i) = (i \<noteq> 0 \<and> i < fh_counter m \<and> fh_map m i = None)"
| "get_task d m (Get_done p h) = (fh_denotes d m h = Some (path_key p))"
| "get_task d m _ = False"

definition gets_inv :: "deps \<Rightarrow> exports_manager \<Rightarrow> store_task list \<Rightarrow> exports_manager \<Rightarrow> bool" where
  "gets_inv d m0 ts m \<longleftrightarrow> em_inv m \<and> list_all (get_task d m) ts \<and> distinct (concat (map pending ts))
     \<and> length (filter may_allocate ts) \<le> em_room m
     \<and> fh_map m0 \<subseteq>\<^sub>m fh_map m \<and> fh_hmac_key m = fh_hmac_key m0"

lemma get_task_mono:
  assumes "get_task d m y" and "fh_map m \<subseteq>\<^sub>m fh_map m'" and "fh_hmac_key m' = fh_hmac_key m"
    and "fh_counter m \<le> fh_counter m'" and "\<And>i. i \<in> set (pending y) \<Longrightarrow> fh_map m' i = None"
  shows "get_task d m' y"
proof (cases y)
  case (Get_found e p root i)
  with assms(1,2) show ?thesis by (auto simp: map_le_def dom_def)
next
  case (Get_done p h)
  with assms(1) fh_denotes_mono [OF assms(2,3)] show ?thesis by simp
qed (use assms in \<open>auto intro: less_le_trans\<close>)

lemma get_tasks_mono:
  assumes "list_all (get_task d m) ts" and "fh_map m \<subseteq>\<^sub>m fh_map m'" and "fh_hmac_key m' = fh_hmac_key m"
    and "fh_counter m \<le> fh_counter m'" and "\<And>i. i \<in> set (concat (map pending ts)) \<Longrightarrow> fh_map m' i = None"
  shows "list_all (get_task d m') ts"
  using assms get_task_mono [OF _ assms(2,3,4)] by (fastforce simp: list_all_iff)

lemma pending_below:
  "list_all (get_task d m) ts \<Longrightarrow> i \<in> set (concat (map pending ts)) \<Longrightarrow> i < fh_counter m \<and> fh_map m i = None \<and> i \<noteq> 0"
proof (induction ts)
  case (Cons t ts)
  then show ?case by (cases t) auto
qed simp

text \<open>Allocating an id.\<close>

lemma gets_inv_count:
  assumes "gets_inv d m0 (us @ Get_count e p root # vs) m"
  shows "gets_inv d m0 (us @ Get_insert e p root (fh_counter m) # vs) (m\<lparr>fh_counter := fh_counter m + 1\<rparr>)"
proof -
  let ?m = "m\<lparr>fh_counter := fh_counter m + 1\<rparr>"
  from assms have room: "0 < em_room m" and inv: "em_inv m" and ts: "list_all (get_task d m) (us @ vs)"
    by (auto simp: gets_inv_def)
  note c = em_room_less [OF room]
  note below = pending_below [OF ts]
  have "em_inv ?m" using inv c by (auto simp: em_inv_def intro: less_trans)
  moreover have "list_all (get_task d ?m) (us @ vs)"
    using ts c(1) below by (intro get_tasks_mono [OF ts]) auto
  moreover have "fh_counter m \<noteq> 0" "fh_map m (fh_counter m) = None"
    using inv em_inv_fresh_id [OF inv] by (auto simp: em_inv_def)
  moreover have "em_room m = Suc (em_room ?m)"
    using c(3) room by (simp add: em_room_def)
  moreover have "fh_counter m \<notin> set (concat (map pending (us @ vs)))" using below by blast
  ultimately show ?thesis using assms c(1) by (auto simp: gets_inv_def)
qed

text \<open>Entering it.\<close>

lemma gets_inv_put:
  assumes "mac_ok d" and "gets_inv d m0 (us @ Get_paths e p root i # vs) m"
    and "m' = put_entry i (get_inode p) root p m"
  shows "gets_inv d m0 (us @ Get_done p (encode_handle d e m' i (get_inode p) 1) # vs) m'"
proof -
  from assms(2) have inv: "em_inv m" and ts: "list_all (get_task d m) (us @ vs)"
    and i: "i \<noteq> 0" "i < fh_counter m" "fh_map m i = None"
    and fresh: "i \<notin> set (concat (map pending (us @ vs)))"
    by (auto simp: gets_inv_def)
  have m': "m' = add_handle (fh_counter m) i p root m"
    by (simp add: assms(3) put_entry_def add_handle_def get_inode_def)
  have "em_inv m'" unfolding m' by (rule em_inv_add_handle [OF inv i(3,1,2)]) simp
  moreover have le: "fh_map m \<subseteq>\<^sub>m fh_map m'" unfolding m' by (rule add_handle_keeps [OF i(3)])
  moreover have "list_all (get_task d m') (us @ vs)"
    using pending_below [OF ts] fresh le
    by (intro get_tasks_mono [OF ts]) (auto simp: m' add_handle_def)
  moreover have "fh_denotes d m' (encode_handle d e m' i (get_inode p) 1) = Some (path_key p)"
    using verify_issued [OF assms(1) refl i(1)] i(1) by (simp add: fh_denotes_def m' add_handle_def)
  ultimately show ?thesis
    using assms(2) map_le_trans by (auto simp: gets_inv_def m' add_handle_def em_room_def)
qed

interpretation gets: interleaving "store_step d s" "\<lambda>ts m. mac_ok d \<and> gets_inv d m0 ts m" for d s m0
proof
  fix us y vs m x m'
  assume inv: "mac_ok d \<and> gets_inv d m0 (us @ y # vs) m"
    and step: "store_step d s (us @ y # vs) y m = Some (x, m')"
  then have y: "get_task d m y" and em: "em_inv m" by (auto simp: gets_inv_def)
  have "gets_inv d m0 (us @ x # vs) m'"
  proof (cases y)
    case (Get_start e p root)
    with step have m: "m' = m" and x: "x = (case path_to_fhid m (path_key p) of
        None \<Rightarrow> Get_count e p root | Some i \<Rightarrow> Get_found e p root i)"
      by (auto simp: when_free_def split: if_splits)
    show ?thesis
    proof (cases "path_to_fhid m (path_key p)")
      case None
      with x m inv Get_start show ?thesis by (simp add: gets_inv_def)
    next
      case (Some i)
      with em have "\<exists>en. fh_map m i = Some en \<and> path_key (real_path en) = path_key p"
        unfolding em_inv_def by blast
      then have "get_task d m (Get_found e p root i)" by simp
      with Some x m inv Get_start show ?thesis by (simp add: gets_inv_def)
    qed
  next
    case (Get_found e p root i)
    with y obtain en where en: "fh_map m i = Some en" "path_key (real_path en) = path_key p" by auto
    with em have i: "i \<noteq> 0" by (auto simp: em_inv_def)
    from Get_found step en have x: "m' = m" "x = Get_done p (encode_handle d e m i (fh_inode en) (fh_gen en))"
      by (auto simp: when_free_def split: if_splits)
    have "fh_denotes d m (encode_handle d e m i (fh_inode en) (fh_gen en)) = Some (path_key p)"
      using inv en i by (auto simp: fh_denotes_def verify_issued)
    with x inv Get_found show ?thesis by (simp add: gets_inv_def)
  next
    case (Get_count e p root)
    with step have "m' = m\<lparr>fh_counter := fh_counter m + 1\<rparr>" "x = Get_insert e p root (fh_counter m)"
      by (auto simp: when_free_def split: if_splits)
    with gets_inv_count inv Get_count show ?thesis by simp
  next
    case (Get_insert e p root i)
    with step have "m' = m" "x = Get_paths e p root i" by (auto simp: when_free_def split: if_splits)
    with inv Get_insert show ?thesis by (simp add: gets_inv_def)
  next
    case (Get_paths e p root i)
    with step have "m' = put_entry i (get_inode p) root p m"
      "x = Get_done p (encode_handle d e m' i (get_inode p) 1)"
      by (auto simp: when_free_def Let_def split: if_splits)
    with gets_inv_put inv Get_paths show ?thesis by simp
  next
    case (Get_done p h)
    with step show ?thesis by simp
  qed (use y in simp_all)
  with inv show "mac_ok d \<and> gets_inv d m0 (us @ x # vs) m'" by simp
qed

definition get_call :: "env \<times> path \<times> path \<Rightarrow> store_task" where
  "get_call c = (case c of (e, p, root) \<Rightarrow> Get_start e p root)"

text \<open>
  C5: calls of \<open>get_or_create_fh\<close> may overlap in any way: every handle one of them returns
  denotes the path it was asked for, now and when the others go on, and the handles issued
  before stay valid.
\<close>

theorem concurrent_handles_valid:
  assumes "mac_ok d" and "em_inv m" and "length calls \<le> em_room m"
    and "schedule (store_step d s) ks (map get_call calls, m) = Some (ts, m')"
  shows "(\<forall>p h. Get_done p h \<in> set ts \<longrightarrow> fh_denotes d m' h = Some (path_key p))
    \<and> (\<forall>h k. fh_denotes d m h = Some k \<longrightarrow> fh_denotes d m' h = Some k)"
proof -
  have start: "list_all (get_task d m) (map get_call cs)" "concat (map pending (map get_call cs)) = []"
    "filter may_allocate (map get_call cs) = map get_call cs" for cs
    by (induction cs) (auto simp: get_call_def)
  have "gets_inv d m (map get_call calls) m"
    using assms(2,3) by (simp add: gets_inv_def start del: map_map)
  with gets.schedule_inv [OF assms(4)] assms(1) have "gets_inv d m ts m'" by blast
  then show ?thesis
    by (fastforce simp: gets_inv_def list_all_iff intro: fh_denotes_mono)
qed

section \<open>Two calls that wait for each other\<close>

text \<open>
  The read of a known path holds \<open>path_to_fhid\<close> while it waits for \<open>fh_map\<close>; the entry of a new
  path holds \<open>fh_map\<close> while it waits for \<open>path_to_fhid\<close>.
\<close>

definition crossed :: "store_task list \<Rightarrow> bool" where
  "crossed ts \<longleftrightarrow> (\<exists>e p root i. Get_found e p root i \<in> set ts) \<and> (\<exists>e p root i. Get_paths e p root i \<in> set ts)
     \<and> (\<forall>p h. Get_done p h \<notin> set ts)"

lemma crossed_blocks:
  assumes "crossed ts"
  shows "\<not> can_read ts Fh_map" "\<not> can_write ts Fh_map" "\<not> can_write ts Path_to_fhid"
proof -
  from assms obtain e p root i e' q root' j where
    "Get_found e p root i \<in> set ts" "Get_paths e' q root' j \<in> set ts" by (auto simp: crossed_def)
  then show "\<not> can_read ts Fh_map" "\<not> can_write ts Fh_map" "\<not> can_write ts Path_to_fhid"
    by (force simp: can_read_def can_write_def list_all_iff)+
qed

interpretation crossing: interleaving "store_step d s" "\<lambda>ts m. crossed ts" for d s
proof
  fix us y vs m x m'
  assume c: "crossed (us @ y # vs)" and step: "store_step d s (us @ y # vs) y m = Some (x, m')"
  from step crossed_blocks [OF c] have "(\<forall>e p root i. y \<noteq> Get_found e p root i) \<and> (\<forall>e p root i. y \<noteq> Get_paths e p root i)
      \<and> (\<forall>p h. x \<noteq> Get_done p h)"
    by (cases y) (auto simp: when_free_def split: if_splits option.splits)
  with c show "crossed (us @ x # vs)" by (auto simp: crossed_def)
qed

text \<open>
  C35: a call for a path that has a handle and a call for one that has none deadlock when they
  overlap, whatever other calls are under way; from then on no call ever returns a handle, which
  stops NFSv3, NFSv4 and MOUNT alike.
\<close>

theorem handle_store_deadlocks:
  assumes "path_to_fhid m (path_key p) = Some i" and "path_to_fhid m (path_key q) = None"
    and "\<forall>t \<in> set rest. held t = [] \<and> \<not> store_done t"
  shows "\<exists>ks ts m'. schedule (store_step d s) ks (Get_start e p root # Get_start e' q root' # rest, m) = Some (ts, m')
    \<and> (\<forall>ls ts2 m2. schedule (store_step d s) ls (ts, m') = Some (ts2, m2) \<longrightarrow> (\<forall>p h. Get_done p h \<notin> set ts2))
    \<and> (rest = [] \<longrightarrow> deadlocked (store_step d s) store_done (ts, m'))"
proof -
  let ?ts = "Get_found e p root i # Get_paths e' q root' (fh_counter m) # rest"
  let ?m = "m\<lparr>fh_counter := fh_counter m + 1\<rparr>"
  have "schedule (store_step d s) [1, 1, 0, 1] (Get_start e p root # Get_start e' q root' # rest, m) = Some (?ts, ?m)"
    using assms by (simp add: step_at_def lock_simps list_all_iff)
  moreover have c: "crossed ?ts" using assms(3) by (fastforce simp: crossed_def)
  moreover have "deadlocked (store_step d s) store_done (?ts, ?m)" if "rest = []"
    using that by (simp add: deadlocked_def step_at_def lock_simps)
  moreover have "\<forall>p h. Get_done p h \<notin> set ts2"
    if "schedule (store_step d s) ls (?ts, ?m) = Some (ts2, m2)" for ls ts2 m2
    using crossing.schedule_inv [OF that c] by (simp add: crossed_def)
  ultimately show ?thesis by blast
qed

section \<open>A rebuild against a call\<close>

text \<open>
  C37: PUTFH with a forged handle for the id that is allocated next, sent while the server
  creates a handle for \<open>p\<close>: the rebuild has seen that the id is unused before the call enters
  it, and overwrites the entry afterwards.  The handle the server returned for \<open>p\<close> then denotes
  another file \<open>q\<close> of the client's choice, and so do the operations on it.
\<close>

theorem rebuild_redirects_handle:
  assumes "mac_ok d" and "em_inv m" and "fh_counter m \<noteq> - 1" and "path_to_fhid m (path_key p) = None"
    and "first_some (\<lambda>(_, ex). map_option (Pair (exp_path ex)) (find_path_by_inode 8 s (fnv1a q) (exp_path ex)))
      (exports m) = Some (root', q)"
    and "forged = be64 (fh_counter m) @ be64 (fnv1a q) @ tail"
  shows "\<exists>ks h m'. schedule (store_step d s) ks ([Get_start e p root, Reb_start forged], m)
      = Some ([Get_done p h, Reb_done], m') \<and> fh_denotes d m' h = Some (path_key q)"
proof -
  let ?c = "fh_counter m"
  have c: "?c \<noteq> 0" "fh_map m ?c = None" using assms(2) em_inv_fresh_id [OF assms(2)] by (auto simp: em_inv_def)
  have f: "decode_fhid forged = Some ?c" "u64_at forged 8 = fnv1a q" "16 \<le> length forged"
    by (simp_all add: assms(6) decode_fhid_def u64_at_append)
  let ?m1 = "put_entry ?c (get_inode p) root p (m\<lparr>fh_counter := ?c + 1\<rparr>)"
  let ?h = "encode_handle d e ?m1 ?c (get_inode p) 1"
  let ?m2 = "put_entry ?c (fnv1a q) root' q (?m1\<lparr>fh_counter := ?c + 1\<rparr>)"
  have "schedule (store_step d s) [1, 1] ([Get_start e p root, Reb_start forged], m)
      = Some ([Get_start e p root, Reb_found ?c (fnv1a q) root' q], m)"
    using assms(3,5) c f by (simp add: step_at_def lock_simps)
  moreover have "schedule (store_step d s) [0, 0, 0, 0] ([Get_start e p root, Reb_found ?c (fnv1a q) root' q], m)
      = Some ([Get_done p ?h, Reb_found ?c (fnv1a q) root' q], ?m1)"
    using assms(4) by (simp add: step_at_def lock_simps Let_def)
  moreover have "schedule (store_step d s) [1, 1, 1] ([Get_done p ?h, Reb_found ?c (fnv1a q) root' q], ?m1)
      = Some ([Get_done p ?h, Reb_done], ?m2)"
    by (simp add: step_at_def lock_simps put_entry_def)
  ultimately have "schedule (store_step d s) ([1, 1] @ [0, 0, 0, 0] @ [1, 1, 1]) ([Get_start e p root, Reb_start forged], m)
      = Some ([Get_done p ?h, Reb_done], ?m2)"
    by (simp only: schedule_append bind.bind_lunit)
  moreover have "verify_and_decode_fhid d ?m2 ?h = Some ?c"
    by (intro verify_issued [OF assms(1) _ c(1)]) (simp add: put_entry_def)
  then have "fh_denotes d ?m2 ?h = Some (path_key q)"
    using c(1) by (simp add: fh_denotes_def put_entry_def)
  ultimately show ?thesis by blast
qed

section \<open>Concrete schedules\<close>

definition new_file :: path where "new_file = bs ''D:/share/x''"

definition share :: path where "share = bs ''D:/share''"

text \<open>The sample store with a handle for the export root.\<close>

definition known_em :: exports_manager where
  "known_em = add_handle 2 1 share share sample_em"

lemma known_em_facts:
  "path_to_fhid known_em (path_key share) = Some 1" "path_to_fhid known_em (path_key new_file) = None"
  "em_inv sample_em" "path_to_fhid sample_em (path_key new_file) = None" "fh_counter sample_em = 1"
proof -
  have "path_key new_file \<noteq> path_key share" unfolding new_file_def share_def by code_simp
  then show "path_to_fhid known_em (path_key share) = Some 1" "path_to_fhid known_em (path_key new_file) = None"
    by (simp_all add: known_em_def add_handle_def sample_em_def)
qed (simp_all add: em_inv_def sample_em_def)

theorem concurrent_handles_valid_witness:
  "\<exists>h h' m'. schedule (store_step sample_deps sample_fs) [0, 1, 0, 1, 0, 0, 1, 1]
       (map get_call [(sample_env, new_file, share), (sample_env, new_file, share)], sample_em)
     = Some ([Get_done new_file h, Get_done new_file h'], m')
   \<and> fh_denotes sample_deps m' h = Some (path_key new_file) \<and> fh_denotes sample_deps m' h' = Some (path_key new_file)"
proof -
  let ?calls = "[(sample_env, new_file, share), (sample_env, new_file, share)]"
  obtain h h' m' where run: "schedule (store_step sample_deps sample_fs) [0, 1, 0, 1, 0, 0, 1, 1] (map get_call ?calls, sample_em)
      = Some ([Get_done new_file h, Get_done new_file h'], m')"
    using known_em_facts(4) by (simp add: get_call_def step_at_def lock_simps Let_def)
  have "length ?calls \<le> em_room sample_em" by (simp add: em_room_def sample_em_def)
  from concurrent_handles_valid [OF sample_mac_ok known_em_facts(3) this run] run show ?thesis by auto
qed

theorem handle_store_deadlocks_witness:
  "\<exists>ks c. schedule (store_step sample_deps sample_fs) ks
       ([Get_start sample_env share share, Get_start sample_env new_file share], known_em) = Some c
     \<and> deadlocked (store_step sample_deps sample_fs) store_done c"
  using handle_store_deadlocks [OF known_em_facts(1,2), of "[]" sample_deps sample_fs sample_env share sample_env share]
  by auto

theorem rebuild_redirects_handle_witness:
  "\<exists>ks h m'. schedule (store_step sample_deps sample_fs) ks
      ([Get_start sample_env new_file share, Reb_start (be64 1 @ be64 (fnv1a share))], sample_em)
      = Some ([Get_done new_file h, Reb_done], m')
    \<and> fh_denotes sample_deps m' h = Some (path_key share) \<and> path_key share \<noteq> path_key new_file"
proof -
  have "first_some (\<lambda>(_, ex). map_option (Pair (exp_path ex)) (find_path_by_inode 8 sample_fs (fnv1a share) (exp_path ex)))
      (exports sample_em) = Some (share, share)"
    by (simp add: sample_em_def share_def numeral_eq_Suc)
  moreover have "path_key share \<noteq> path_key new_file" unfolding new_file_def share_def by code_simp
  ultimately show ?thesis
    using rebuild_redirects_handle [OF sample_mac_ok known_em_facts(3) _ known_em_facts(4), of sample_fs share share
        "be64 1 @ be64 (fnv1a share)" "[]" sample_env share] known_em_facts(5) by auto
qed

end
