(* ===== verification/Session_Race.thy ===== *)
theory Session_Race
  imports Tasks Nfs4_Session
begin

text \<open>
  SEQUENCE, the choice of the client id in EXCHANGE_ID and the lease cleanup of
  \<open>src/nfs/nfs4.rs\<close> at the points where they give up the locks of the session tables.  No task
  asks for a second of these locks while it holds one that another holds in the other order, so
  each part between two releases is one step.
\<close>

section \<open>Program points\<close>

datatype session_task =
    Ex_start bytes
  | Ex_count bytes
  | Ex_enter bytes u64
  | Ex_done bytes u64
  | Seq_start env bytes u32 u32 u32
  | Seq_update env bytes u32 u32 u32
  | Seq_done opres
  | Clean_start nat
  | Clean_sessions nat "bytes list"
  | Clean_clients nat
  | Clean_remove "u64 list"
  | Clean_done

definition sequence_reply :: "bytes \<Rightarrow> u32 \<Rightarrow> u32 \<Rightarrow> u32 \<Rightarrow> opres" where
  "sequence_reply sid seq_id slot_id hi =
     op_done (sid @ be32 seq_id @ be32 slot_id @ be32 hi @ be32 hi @ be32 0) 32"

text \<open>Every part takes its lock, works and releases it, so it always gets the lock.\<close>

fun session_task_step :: "(session_task, nfs4) task_step" where
  "session_task_step ts (Ex_start owner) st =
     Some (case client_owner_map st owner of
         Some existing_id \<Rightarrow> Ex_done owner existing_id
       | None \<Rightarrow> Ex_count owner, st)"
| "session_task_step ts (Ex_count owner) st =
     Some (Ex_enter owner (client_counter st), st\<lparr>client_counter := client_counter st + 1\<rparr>)"
| "session_task_step ts (Ex_enter owner new_id) st =
     Some (Ex_done owner new_id, st\<lparr>client_owner_map := (client_owner_map st)(owner \<mapsto> new_id)\<rparr>)"
| "session_task_step ts (Seq_start e sid seq_id slot_id highest) st =
     Some (case map_of (sessions st) sid of
         None \<Rightarrow> Seq_done (op_fail 32 NFS4ERR_BADSESSION)
       | Some s \<Rightarrow>
           if seq_id < sr_sequence s then Seq_done (op_fail 32 NFS4ERR_BADSESSION)
           else Seq_update e sid seq_id slot_id highest, st)"
| "session_task_step ts (Seq_update e sid seq_id slot_id highest) st =
     Some (case map_of (sessions st) sid of
         None \<Rightarrow> (Seq_done (sequence_reply sid seq_id slot_id highest), st)
       | Some s \<Rightarrow>
           (let hi = max highest (sr_highest_slot s);
                s' = s\<lparr>sr_sequence := seq_id, sr_last_used := now e, sr_highest_slot := hi\<rparr>
            in (Seq_done (sequence_reply sid seq_id slot_id hi),
                st\<lparr>sessions := AList.update sid s' (sessions st)\<rparr>)))"
| "session_task_step ts (Clean_start t) st =
     Some (Clean_sessions t (map fst (filter (\<lambda>(_, s). expired t (sr_last_used s)) (sessions st))), st)"
| "session_task_step ts (Clean_sessions t expired_sessions) st =
     Some (Clean_clients t, st\<lparr>sessions := fold AList.delete expired_sessions (sessions st)\<rparr>)"
| "session_task_step ts (Clean_clients t) st =
     (let active = (\<lambda>(_, s). sr_client_id s) ` set (sessions st)
      in Some (Clean_remove (map fst (filter (\<lambda>(i, c). expired t (cr_last_used c) \<and> i \<notin> active) (clients st))), st))"
| "session_task_step ts (Clean_remove expired_clients) st =
     (let removed = fold remove_client expired_clients (clients st, client_owner_map st)
      in Some (Clean_done, st\<lparr>clients := fst removed, client_owner_map := snd removed\<rparr>))"
| "session_task_step ts _ st = None"

section \<open>A task that runs alone\<close>

lemma sequence_alone:
  assumes "p + 32 \<le> length rq"
  shows "\<exists>ks r st'. op_sequence e rq p st = Some (r, st') \<and> schedule session_task_step ks
      ([Seq_start e (take 16 (drop p rq)) (u32_at rq (p + 16)) (u32_at rq (p + 20)) (u32_at rq (p + 24))], st)
    = Some ([Seq_done r], st')"
proof -
  let ?sid = "take 16 (drop p rq)"
  note unfold = op_sequence_def rd_simps step_at_def sequence_reply_def Let_def
  show ?thesis
  proof (cases "map_of (sessions st) ?sid")
    case None
    with assms show ?thesis by (intro exI [of _ "[0]"]) (simp add: unfold)
  next
    case (Some s)
    show ?thesis
    proof (cases "u32_at rq (p + 16) < sr_sequence s")
      case True
      with Some assms show ?thesis by (intro exI [of _ "[0]"]) (simp add: unfold)
    next
      case False
      with Some assms show ?thesis by (intro exI [of _ "[0, 0]"]) (simp add: unfold)
    qed
  qed
qed

lemma cleanup_alone:
  "schedule session_task_step [0, 0, 0, 0] ([Clean_start t], st) = Some ([Clean_done], cleanup_expired t st)"
  by (simp add: step_at_def cleanup_expired_def Let_def)

lemma exchange_id_alone:
  assumes "exchange_id_args rq p = Some (Some (owner, q))" and "op_exchange_id e rq p st = Some (r, st')"
  shows "\<exists>ks cid st1. schedule session_task_step ks ([Ex_start owner], st) = Some ([Ex_done owner cid], st1)
    \<and> client_counter st' = client_counter st1 \<and> client_owner_map st' = client_owner_map st1
    \<and> take 8 (op_result r) = be64 cid"
proof (cases "client_owner_map st owner")
  case None
  with assms show ?thesis
    by (intro exI [of _ "[0, 0, 0]"]) (auto simp: step_at_def op_exchange_id_def exchange_id_result_def Let_def)
next
  case (Some i)
  with assms show ?thesis
    by (intro exI [of _ "[0]"]) (auto simp: step_at_def op_exchange_id_def exchange_id_result_def Let_def)
qed

section \<open>Client ids under every interleaving\<close>

text \<open>
  \<open>own\<close> says for whom an id was allocated: the ids below the counter have one owner each, in the
  table, in the calls under way and in the results.
\<close>

fun claims :: "session_task \<Rightarrow> (bytes \<times> u64) list" where
  "claims (Ex_enter owner i) = [(owner, i)]"
| "claims (Ex_done owner i) = [(owner, i)]"
| "claims _ = []"

fun may_count :: "session_task \<Rightarrow> bool" where
  "may_count (Ex_start owner) = True"
| "may_count (Ex_count owner) = True"
| "may_count _ = False"

definition claimed :: "session_task list \<Rightarrow> nfs4 \<Rightarrow> (bytes \<times> u64) set" where
  "claimed ts st = {(owner, i). client_owner_map st owner = Some i} \<union> set (concat (map claims ts))"

definition owners_inv :: "session_task list \<Rightarrow> nfs4 \<Rightarrow> bool" where
  "owners_inv ts st \<longleftrightarrow>
     (\<forall>(owner, i) \<in> claimed ts st. i < client_counter st)
     \<and> (\<forall>(o1, i1) \<in> claimed ts st. \<forall>(o2, i2) \<in> claimed ts st. i1 = i2 \<longrightarrow> o1 = o2)
     \<and> unat (client_counter st) + length (filter may_count ts) < 2 ^ 64"

lemma owners_inv_sub:
  assumes "owners_inv ts st" and "claimed ts' st' \<subseteq> claimed ts st" and "client_counter st' = client_counter st"
    and "length (filter may_count ts') \<le> length (filter may_count ts)"
  shows "owners_inv ts' st'"
  using assms unfolding owners_inv_def by (auto; blast)

lemma owners_inv_count:
  assumes "owners_inv (us @ Ex_count owner # vs) st"
  shows "owners_inv (us @ Ex_enter owner (client_counter st) # vs) (st\<lparr>client_counter := client_counter st + 1\<rparr>)"
proof -
  let ?c = "client_counter st"
  have "unat ?c + 1 < 2 ^ 64" using assms by (simp add: owners_inv_def)
  then have u: "unat (?c + 1) = unat ?c + 1" by (simp add: unat_word_ariths)
  then have lt: "?c < ?c + 1" by (simp add: word_less_nat_alt)
  have "claimed (us @ Ex_enter owner ?c # vs) (st\<lparr>client_counter := ?c + 1\<rparr>)
      = insert (owner, ?c) (claimed (us @ Ex_count owner # vs) st)"
    by (auto simp: claimed_def)
  moreover have below: "\<forall>(o1, i) \<in> claimed (us @ Ex_count owner # vs) st. i < ?c"
    using assms by (simp add: owners_inv_def)
  ultimately show ?thesis
    using assms lt u unfolding owners_inv_def by (auto intro: less_trans)
qed

interpretation owners: interleaving session_task_step owners_inv
proof
  fix us y vs st x st'
  assume inv: "owners_inv (us @ y # vs) st" and step: "session_task_step (us @ y # vs) y st = Some (x, st')"
  note sub = owners_inv_sub [OF inv]
  show "owners_inv (us @ x # vs) st'"
  proof (cases y)
    case (Ex_start owner)
    with step show ?thesis by (intro sub) (auto simp: claimed_def split: option.splits)
  next
    case (Ex_count owner)
    with step owners_inv_count inv show ?thesis by auto
  next
    case (Ex_enter owner i)
    with step show ?thesis by (intro sub) (auto simp: claimed_def split: if_splits)
  next
    case (Seq_update e sid seq_id slot_id highest)
    with step show ?thesis by (intro sub) (auto simp: claimed_def Let_def split: option.splits)
  next
    case (Seq_start e sid seq_id slot_id highest)
    with step show ?thesis by (intro sub) (auto simp: claimed_def split: option.splits if_splits)
  next
    case (Clean_remove ids)
    let ?left = "snd (fold remove_client ids (clients st, client_owner_map st))"
    have le: "?left \<subseteq>\<^sub>m client_owner_map st"
      using remove_client_owners [of ids "(clients st, client_owner_map st)"] by simp
    have left: "client_owner_map st a = Some b" if "?left a = Some b" for a b
    proof -
      from that have "a \<in> dom ?left" by (rule domI)
      with le have "?left a = client_owner_map st a" unfolding map_le_def by (rule bspec)
      with that show ?thesis by simp
    qed
    from Clean_remove step have x: "x = Clean_done" and st': "client_owner_map st' = ?left"
      "client_counter st' = client_counter st" by (auto simp: Let_def)
    have "claimed (us @ x # vs) st' \<subseteq> claimed (us @ y # vs) st"
      unfolding claimed_def x st' Clean_remove using left by auto
    then show ?thesis by (rule sub) (simp_all add: x Clean_remove st')
  qed (use step in \<open>auto intro!: sub simp: claimed_def Let_def\<close>)
qed

text \<open>
  C7: EXCHANGE_IDs, SEQUENCEs and lease cleanups may overlap in any way: two EXCHANGE_IDs that
  return the same client id were sent by the same owner, and no id in the table of owners was
  returned to anyone else.
\<close>

theorem concurrent_owners_distinct:
  assumes "client_inv st" and "list_all (\<lambda>t. claims t = []) ts"
    and "unat (client_counter st) + length ts < 2 ^ 64"
    and "schedule session_task_step ks (ts, st) = Some (ts', st')"
  shows "(\<forall>o1 o2 i. Ex_done o1 i \<in> set ts' \<longrightarrow> Ex_done o2 i \<in> set ts' \<longrightarrow> o1 = o2)
    \<and> (\<forall>o1 o2 i. Ex_done o1 i \<in> set ts' \<longrightarrow> client_owner_map st' o2 = Some i \<longrightarrow> o1 = o2)"
proof -
  have c: "claimed ts st = {(owner, i). client_owner_map st owner = Some i}"
    using assms(2) by (auto simp: claimed_def list_all_iff)
  have "unat (client_counter st) + length (filter may_count ts) < 2 ^ 64"
    using assms(3) length_filter_le [of may_count ts] by linarith
  moreover have "i < client_counter st" if "client_owner_map st owner = Some i" for owner i
    using that assms(1) by (auto simp: client_inv_def ran_def)
  moreover have "o1 = o2" if "client_owner_map st o1 = Some i" "client_owner_map st o2 = Some i" for o1 o2 i
    using that assms(1) unfolding client_inv_def inj_on_def by (metis domI)
  ultimately have "owners_inv ts st"
    unfolding owners_inv_def c by auto
  from owners.schedule_inv [OF assms(4) this] have "owners_inv ts' st'" .
  moreover have "(o1, i) \<in> claimed ts' st'" if "Ex_done o1 i \<in> set ts'" for o1 i
    using that by (force simp: claimed_def)
  moreover have "(o2, i) \<in> claimed ts' st'" if "client_owner_map st' o2 = Some i" for o2 i
    using that by (simp add: claimed_def)
  ultimately show ?thesis unfolding owners_inv_def by blast
qed

text \<open>
  Two EXCHANGE_IDs of one owner that overlap both find the owner unknown and return two ids,
  although the comment in the source says that it must get the same one.
\<close>

lemma same_owner_two_ids:
  assumes "client_owner_map st owner = None"
  shows "\<exists>ks st'. schedule session_task_step ks ([Ex_start owner, Ex_start owner], st)
    = Some ([Ex_done owner (client_counter st), Ex_done owner (client_counter st + 1)], st')"
  using assms by (intro exI [of _ "[0, 1, 0, 1, 0, 1]"]) (simp add: step_at_def)

text \<open>
  C28: a SEQUENCE that overlaps with the lease cleanup renews an idle session and is answered
  with OK, and the cleanup, which had put the session on its list before, removes it all the
  same.  In either order of the two without overlap the answer is an error or the session stays.
\<close>

theorem cleanup_drops_renewed_session:
  assumes "map_of (sessions st) sid = Some s" and "expired t (sr_last_used s)" and "sr_sequence s \<le> seq_id"
  shows "\<exists>ks hi st'. schedule session_task_step ks ([Clean_start t, Seq_start e sid seq_id slot_id highest], st)
      = Some ([Clean_done, Seq_done (sequence_reply sid seq_id slot_id hi)], st')
    \<and> map_of (sessions st') sid = None"
proof -
  let ?ids = "map fst (filter (\<lambda>(_, s). expired t (sr_last_used s)) (sessions st))"
  let ?hi = "max highest (sr_highest_slot s)"
  let ?s = "s\<lparr>sr_sequence := seq_id, sr_last_used := now e, sr_highest_slot := ?hi\<rparr>"
  let ?st = "st\<lparr>sessions := AList.update sid ?s (sessions st)\<rparr>"
  have "(sid, s) \<in> set (sessions st)" using assms(1) by (rule map_of_SomeD)
  with assms(2) have "sid \<in> set ?ids" by force
  then have gone: "map_of (fold AList.delete ?ids (AList.update sid ?s (sessions st))) sid = None"
    by (simp add: listed.lookup_remove_all)
  let ?done = "Seq_done (sequence_reply sid seq_id slot_id ?hi)"
  have one: "schedule session_task_step [0, 1, 1] ([Clean_start t, Seq_start e sid seq_id slot_id highest], st)
      = Some ([Clean_sessions t ?ids, ?done], ?st)"
    using assms(1,3) by (simp add: step_at_def Let_def)
  obtain st' where two: "schedule session_task_step [0, 0, 0] ([Clean_sessions t ?ids, ?done], ?st) = Some ([Clean_done, ?done], st')"
    and left: "sessions st' = fold AList.delete ?ids (AList.update sid ?s (sessions st))"
    by (simp add: step_at_def Let_def)
  have "schedule session_task_step ([0, 1, 1] @ [0, 0, 0]) ([Clean_start t, Seq_start e sid seq_id slot_id highest], st)
      = Some ([Clean_done, ?done], st')"
    by (simp only: schedule_append one two bind.bind_lunit)
  moreover have "map_of (sessions st') sid = None" using gone left by simp
  ultimately show ?thesis by blast
qed

section \<open>Concrete schedules\<close>

theorem concurrent_owners_distinct_witness:
  "\<exists>i j st'. schedule session_task_step [0, 1, 1, 0, 0, 1, 2, 2, 2, 2] ([Ex_start [1], Ex_start [2], Clean_start 9], sample_nfs4)
     = Some ([Ex_done [1] i, Ex_done [2] j, Clean_done], st') \<and> i \<noteq> j"
proof -
  obtain i j st' where run: "schedule session_task_step [0, 1, 1, 0, 0, 1, 2, 2, 2, 2]
      ([Ex_start [1], Ex_start [2], Clean_start 9], sample_nfs4) = Some ([Ex_done [1] i, Ex_done [2] j, Clean_done], st')"
    by (simp add: step_at_def sample_nfs4_def nfs4_new_def Let_def)
  have "client_inv sample_nfs4" unfolding sample_nfs4_def by (rule client_inv_new)
  moreover have "unat (client_counter sample_nfs4) + 3 < 2 ^ 64" by (simp add: sample_nfs4_def nfs4_new_def)
  ultimately have "\<forall>o1 o2 k. Ex_done o1 k \<in> set [Ex_done [1] i, Ex_done [2] j, Clean_done]
      \<longrightarrow> Ex_done o2 k \<in> set [Ex_done [1] i, Ex_done [2] j, Clean_done] \<longrightarrow> o1 = o2"
    using concurrent_owners_distinct [OF _ _ _ run] by simp
  then have "i \<noteq> j" by auto
  with run show ?thesis by blast
qed

theorem cleanup_drops_renewed_session_witness:
  "\<exists>s. let st = sample_nfs4\<lparr>sessions := [([7], s)]\<rparr>; t = LEASE_TIMEOUT + 9 in
     \<exists>ks hi st'. schedule session_task_step ks ([Clean_start t, Seq_start sample_env [7] 1 0 0], st)
       = Some ([Clean_done, Seq_done (sequence_reply [7] 1 0 hi)], st') \<and> map_of (sessions st') [7] = None"
proof -
  obtain s :: session_record where s: "sr_sequence s = 1" "sr_last_used s = 0"
    by (metis session_record.select_convs session_record.surjective)
  show ?thesis
    using cleanup_drops_renewed_session [of "sample_nfs4\<lparr>sessions := [([7], s)]\<rparr>" "[7]" s "LEASE_TIMEOUT + 9" 1 sample_env 0 0] s
    by (intro exI [of _ s]) (simp add: expired_def Let_def)
qed

end
