(* ===== verification/Lock_Order.thy ===== *)
theory Lock_Order
  imports Tasks
begin

text \<open>
  The locks of the NFSv4 tables of \<open>src/nfs/nfs4.rs\<close>: which of them an operation takes and gives up,
  in which order, on each of its ways through the code.  A task is its number, the list of the locks
  it holds and the list of what it does with locks from here on.  The locks are \<open>tokio::sync::RwLock\<close>,
  which documents a fair queue: who cannot get a lock at once, or finds others waiting for it, waits
  behind them, a reader behind a writer too.
\<close>

section \<open>Locks and the operations that take them\<close>

datatype table_lock =
    Clients | Client_owner_map | Client_counter | Open_files | Open_counter | Locks | Lock_counter | Sessions

datatype access = Shared | Exclusive

text \<open>Asking for a lock, waiting for it in its queue, and giving it up.\<close>

datatype lock_action = Take access table_lock | Await access table_lock | Give table_lock

abbreviation brief :: "access \<Rightarrow> table_lock \<Rightarrow> lock_action list" where
  "brief a l \<equiv> [Take a l, Give l]"

datatype table_op =
    Open_op | Close_op | Setclientid_op | Setclientid_confirm_op | Lock_op | Lockt_op | Locku_op
  | Exchange_id_op | Create_session_op | Destroy_session_op | Bind_conn_op | Destroy_clientid_op
  | Sequence_op | Cleanup_task

text \<open>
  The ways of an operation that reaches its tables.  Guards that are still alive at the end of a
  block are dropped in the reverse order.
\<close>

fun lock_paths :: "table_op \<Rightarrow> lock_action list list" where
  "lock_paths Open_op = [brief Exclusive Open_counter @ brief Exclusive Open_files]"
| "lock_paths Close_op = [brief Exclusive Open_files]"
| "lock_paths Setclientid_op =
     [brief Shared Clients,
      brief Shared Clients @ brief Exclusive Clients,
      brief Shared Clients @ brief Exclusive Client_counter @ brief Exclusive Clients]"
| "lock_paths Setclientid_confirm_op = [brief Exclusive Clients]"
| "lock_paths Lock_op =
     [brief Exclusive Locks,
      [Take Exclusive Locks, Take Exclusive Lock_counter, Give Lock_counter, Give Locks]]"
| "lock_paths Lockt_op = [brief Shared Locks]"
| "lock_paths Locku_op = [brief Exclusive Locks]"
| "lock_paths Exchange_id_op =
     (let rest = brief Shared Clients @ brief Exclusive Clients in
      [brief Shared Client_owner_map @ rest,
       brief Shared Client_owner_map @ brief Exclusive Client_counter @ brief Exclusive Client_owner_map @ rest])"
| "lock_paths Create_session_op = [brief Exclusive Sessions]"
| "lock_paths Destroy_session_op = [brief Exclusive Sessions]"
| "lock_paths Bind_conn_op = [brief Shared Sessions]"
| "lock_paths Destroy_clientid_op = [brief Exclusive Sessions]"
| "lock_paths Sequence_op = [brief Shared Sessions, brief Shared Sessions @ brief Exclusive Sessions]"
| "lock_paths Cleanup_task =
     (let find = [Take Shared Clients, Take Shared Sessions, Give Sessions, Give Clients];
          remove = [Take Exclusive Clients, Take Exclusive Client_owner_map, Give Client_owner_map, Give Clients]
      in [brief Shared Sessions @ a @ find @ b. a \<leftarrow> [[], brief Exclusive Sessions], b \<leftarrow> [[], remove]])"

section \<open>Tasks and queues\<close>

type_synonym lock_task = "nat \<times> (table_lock \<times> access) list \<times> lock_action list"

type_synonym lock_queues = "table_lock \<Rightarrow> nat list"

definition obtainable :: "lock_task list \<Rightarrow> access \<Rightarrow> table_lock \<Rightarrow> bool" where
  "obtainable ts a l \<longleftrightarrow>
     (case a of
        Shared \<Rightarrow> list_all (\<lambda>(i, h, p). (l, Exclusive) \<notin> set h) ts
      | Exclusive \<Rightarrow> list_all (\<lambda>(i, h, p). l \<notin> fst ` set h) ts)"

text \<open>
  A lock is had at once only when nobody waits for it.  Otherwise the task joins the queue, and gets
  the lock when it has come to the front and the holders allow it.
\<close>

fun lock_step :: "(lock_task, lock_queues) task_step" where
  "lock_step ts (i, h, []) m = None"
| "lock_step ts (i, h, Take a l # p) m =
     (if m l = [] \<and> obtainable ts a l then Some ((i, (l, a) # h, p), m)
      else Some ((i, h, Await a l # p), m(l := m l @ [i])))"
| "lock_step ts (i, h, Await a l # p) m =
     (case m l of
        [] \<Rightarrow> None
      | j # js \<Rightarrow> if j = i \<and> obtainable ts a l then Some ((i, (l, a) # h, p), m(l := js)) else None)"
| "lock_step ts (i, h, Give l # p) m = Some ((i, filter (\<lambda>(l', a). l' \<noteq> l) h, p), m)"

definition has_finished :: "lock_task \<Rightarrow> bool" where
  "has_finished x \<longleftrightarrow> (case x of (i, h, p) \<Rightarrow> p = [])"

text \<open>
  The order: a task that holds locks asks only for locks of a higher rank, gives up only what it
  holds and ends without locks.
\<close>

fun rank :: "table_lock \<Rightarrow> nat" where
  "rank Clients = 0"
| "rank Locks = 0"
| "rank _ = 1"

fun in_order :: "table_lock list \<Rightarrow> lock_action list \<Rightarrow> bool" where
  "in_order h [] \<longleftrightarrow> h = []"
| "in_order h (Take a l # p) \<longleftrightarrow> list_all (\<lambda>u. rank u < rank l) h \<and> in_order (l # h) p"
| "in_order h (Await a l # p) \<longleftrightarrow> False"
| "in_order h (Give l # p) \<longleftrightarrow> l \<in> set h \<and> in_order (filter (\<lambda>u. u \<noteq> l) h) p"

lemma lock_paths_in_order: "p \<in> set (lock_paths r) \<Longrightarrow> in_order [] p"
  by (cases r) (auto simp: Let_def)

text \<open>A task that waits for a lock is where it asked for it.\<close>

fun asking :: "lock_action list \<Rightarrow> lock_action list" where
  "asking (Await a l # p) = Take a l # p"
| "asking p = p"

lemma in_order_asking [simp]: "in_order h p \<Longrightarrow> asking p = p"
  by (cases p rule: asking.cases) auto

text \<open>The queue of a lock holds the tasks that wait for it, each once.\<close>

definition waiting :: "lock_task list \<Rightarrow> table_lock \<Rightarrow> nat set" where
  "waiting ts l = {i. \<exists>h a p. (i, h, Await a l # p) \<in> set ts}"

definition order_inv :: "lock_task list \<Rightarrow> lock_queues \<Rightarrow> bool" where
  "order_inv ts m \<longleftrightarrow> list_all (\<lambda>(i, h, p). in_order (map fst h) (asking p)) ts \<and> distinct (map fst ts)
     \<and> (\<forall>l. distinct (m l) \<and> set (m l) = waiting ts l)"

lemma waiting_Nil [simp]: "waiting [] l = {}"
  and waiting_append [simp]: "waiting (us @ vs) l = waiting us l \<union> waiting vs l"
  and waiting_await [simp]: "waiting ((i, h, Await a u # p) # ts) l = (if u = l then {i} else {}) \<union> waiting ts l"
  and waiting_give [simp]: "waiting ((i, h, Give u # p) # ts) l = waiting ts l"
  by (auto simp: waiting_def)

lemma waiting_in_order [simp]: "in_order hs p \<Longrightarrow> waiting ((i, h, p) # ts) l = waiting ts l"
  by (cases p rule: asking.cases) (auto simp: waiting_def)

lemma waiting_fst: "i \<in> waiting ts l \<Longrightarrow> i \<in> fst ` set ts"
  by (force simp: waiting_def)

lemma map_fst_filter: "map fst (filter (\<lambda>(u, a). u \<noteq> l) h) = filter (\<lambda>u. u \<noteq> l) (map fst h)"
  by (induction h) auto

interpretation lock_tasks: interleaving lock_step order_inv
proof
  fix us y vs m x m'
  assume inv: "order_inv (us @ y # vs) m" and step: "lock_step (us @ y # vs) y m = Some (x, m')"
  obtain i h p where y: "y = (i, h, p)" by (cases y)
  from inv y have o: "in_order (map fst h) (asking p)"
    and others: "list_all (\<lambda>(i, h, p). in_order (map fst h) (asking p)) (us @ vs)"
    and ids: "distinct (map fst (us @ (i, h, p) # vs))"
    and q: "distinct (m l)" "set (m l) = waiting (us @ y # vs) l" for l
    by (simp_all add: order_inv_def)
  from ids have fresh: "i \<notin> waiting us l" "i \<notin> waiting vs l" for l
    by (auto dest: waiting_fst)
  show "order_inv (us @ x # vs) m'"
  proof (cases p)
    case Nil
    with step y show ?thesis by simp
  next
    case (Cons act r)
    show ?thesis
    proof (cases act)
      case (Take a l)
      with Cons o have r: "in_order (l # map fst h) r" "in_order (map fst h) (Take a l # r)" by simp_all
      show ?thesis
      proof (cases "m l = [] \<and> obtainable (us @ y # vs) a l")
        case True
        with step y Cons Take have "x = (i, (l, a) # h, r)" "m' = m" by simp_all
        with r others ids q y Cons Take show ?thesis by (simp add: order_inv_def)
      next
        case False
        with step y Cons Take have x: "x = (i, h, Await a l # r)" "m' = m(l := m l @ [i])" by auto
        from q [of l] fresh [of l] r y Cons Take have "i \<notin> set (m l)" by simp
        with x r others ids q y Cons Take show ?thesis by (auto simp: order_inv_def)
      qed
    next
      case (Await a l)
      with Cons o have r: "in_order (l # map fst h) r" "in_order (map fst h) (Take a l # r)" by simp_all
      from step y Cons Await obtain js where m: "m l = i # js" "x = (i, (l, a) # h, r)" "m' = m(l := js)"
        by (auto split: list.splits if_splits)
      have "set js = waiting us l \<union> waiting vs l" "distinct js"
        using q [of l] m(1) fresh [of l] y Cons Await by auto
      with m r others ids q y Cons Await show ?thesis by (auto simp: order_inv_def)
    next
      case (Give l)
      with Cons o have r: "in_order (filter (\<lambda>u. u \<noteq> l) (map fst h)) r" "in_order (map fst h) (Give l # r)" by simp_all
      from step y Cons Give have "x = (i, filter (\<lambda>(l', a). l' \<noteq> l) h, r)" "m' = m" by simp_all
      with r others ids q y Cons Give show ?thesis by (simp add: order_inv_def map_fst_filter)
    qed
  qed
qed

section \<open>No deadlock\<close>

lemma blocked_by:
  assumes "\<not> obtainable ts a l"
  obtains i h p where "(i, h, p) \<in> set ts" "l \<in> fst ` set h"
  using assms by (cases a) (force simp: obtainable_def list_all_iff)+

text \<open>
  Where no task can go on, each waits for a lock.  Take one of the highest rank: the task at the
  front of its queue is kept waiting by a holder, and that one waits for a lock of a higher rank.
\<close>

lemma some_task_steps:
  assumes "order_inv ts m" and "\<not> list_all has_finished ts"
  shows "\<exists>x \<in> set ts. lock_step ts x m \<noteq> None"
proof (rule ccontr)
  assume stuck: "\<not> ?thesis"
  have waits: "\<exists>a l q. p = Await a l # q" if "(i, h, p) \<in> set ts" "p \<noteq> []" for i h p
  proof -
    from that obtain act q where p: "p = act # q" by (cases p) auto
    from that have none: "lock_step ts (i, h, p) m = None" using stuck by blast
    show ?thesis by (cases act) (use none p in \<open>auto split: if_splits\<close>)
  qed
  define wanted where "wanted = {l. waiting ts l \<noteq> {}}"
  have wanted: "l \<in> wanted" if "(i, h, Await a l # q) \<in> set ts" for i h a l q
    using that by (auto simp: wanted_def waiting_def)
  obtain i0 h0 p0 where "(i0, h0, p0) \<in> set ts" "p0 \<noteq> []"
    using assms(2) by (auto simp: list_all_iff has_finished_def)
  with waits obtain a0 l0 q0 where "(i0, h0, Await a0 l0 # q0) \<in> set ts" by blast
  then have "l0 \<in> wanted" by (rule wanted)
  moreover have "\<forall>l. l \<in> wanted \<longrightarrow> rank l < 2"
  proof (intro allI impI)
    show "rank l < 2" for l by (cases l) simp_all
  qed
  ultimately have "\<exists>u. u \<in> wanted \<and> (\<forall>v. v \<in> wanted \<longrightarrow> rank v \<le> rank u)"
    by (rule ex_has_greatest_nat)
  then obtain u where u: "u \<in> wanted" and top: "\<And>v. v \<in> wanted \<Longrightarrow> rank v \<le> rank u" by blast
  have "set (m u) = waiting ts u" using assms(1) by (simp add: order_inv_def)
  with u obtain j js where queue: "m u = j # js" "j \<in> waiting ts u"
    by (cases "m u") (auto simp: wanted_def)
  then obtain h a q where front: "(j, h, Await a u # q) \<in> set ts" by (auto simp: waiting_def)
  with stuck have "lock_step ts (j, h, Await a u # q) m = None" by blast
  with queue have "\<not> obtainable ts a u" by (simp split: if_splits)
  then obtain i' h' p' where holder: "(i', h', p') \<in> set ts" "u \<in> fst ` set h'" by (rule blocked_by)
  have o: "in_order (map fst h') (asking p')" using assms(1) holder(1) by (auto simp: order_inv_def list_all_iff)
  with holder(2) have "p' \<noteq> []" by auto
  with waits holder(1) obtain a' l' q' where p': "p' = Await a' l' # q'" by blast
  with o holder(2) have "rank u < rank l'" by (auto simp: list_all_iff)
  moreover from holder(1) p' wanted top have "rank l' \<le> rank u" by blast
  ultimately show False by simp
qed

text \<open>Asking may cost a second step, in the queue.\<close>

fun action_steps :: "lock_action \<Rightarrow> nat" where
  "action_steps (Take a l) = 2"
| "action_steps (Await a l) = 1"
| "action_steps (Give l) = 1"

definition steps_left :: "lock_task list \<Rightarrow> nat" where
  "steps_left ts = sum_list (map (\<lambda>(i, h, p). sum_list (map action_steps p)) ts)"

lemma lock_step_shorter:
  "lock_step ts (i, h, p) m = Some ((i', h', p'), m') \<Longrightarrow> sum_list (map action_steps p') < sum_list (map action_steps p)"
  by (cases p; cases "hd p") (auto split: if_splits list.splits)

lemma step_fewer:
  assumes "step_at lock_step k (ts, m) = Some (ts', m')"
  shows "steps_left ts' < steps_left ts"
proof -
  from assms obtain x where x: "k < length ts" "lock_step ts (ts ! k) m = Some (x, m')" "ts' = ts[k := x]"
    by (rule step_atD)
  obtain i h p i' h' p' where hp: "ts ! k = (i, h, p)" "x = (i', h', p')" by (cases "ts ! k"; cases x)
  with x(2) lock_step_shorter have less: "sum_list (map action_steps p') < sum_list (map action_steps p)" by simp
  obtain us vs where ts: "ts = us @ (i, h, p) # vs" and k: "k = length us"
    using id_take_nth_drop [OF x(1)] x(1) hp(1) by (metis length_take min.absorb4)
  from less show ?thesis by (simp add: x(3) ts k hp(2) steps_left_def)
qed

lemma can_finish:
  "order_inv ts m \<Longrightarrow> \<exists>ks ts' m'. schedule lock_step ks (ts, m) = Some (ts', m') \<and> list_all has_finished ts'"
proof (induction "steps_left ts" arbitrary: ts m rule: less_induct)
  case less
  show ?case
  proof (cases "list_all has_finished ts")
    case True
    then show ?thesis by (intro exI [of _ "[]"] exI [of _ ts] exI [of _ m]) simp
  next
    case False
    from some_task_steps [OF less.prems this] obtain k x m1 where k: "k < length ts"
      and x: "lock_step ts (ts ! k) m = Some (x, m1)" by (auto simp: in_set_conv_nth)
    then have step: "step_at lock_step k (ts, m) = Some (ts[k := x], m1)" by (simp add: step_at_def)
    then have "schedule lock_step [k] (ts, m) = Some (ts[k := x], m1)" by simp
    from lock_tasks.schedule_inv [OF this less.prems] have "order_inv (ts[k := x]) m1" .
    with step_fewer [OF step] obtain ks ts' m' where "schedule lock_step ks (ts[k := x], m1) = Some (ts', m')"
      "list_all has_finished ts'"
      using less.hyps by blast
    then have "schedule lock_step (k # ks) (ts, m) = Some (ts', m')" using step by simp
    with \<open>list_all has_finished ts'\<close> show ?thesis by blast
  qed
qed

text \<open>What the tasks and the queues are at the start.\<close>

definition op_tasks :: "(table_op \<times> nat) list \<Rightarrow> lock_task list" where
  "op_tasks rs = map (\<lambda>(i, r, n). (i, [], lock_paths r ! (n mod length (lock_paths r)))) (enumerate 0 rs)"

abbreviation no_queues :: lock_queues where
  "no_queues \<equiv> \<lambda>l. []"

lemma lock_paths_nonempty: "lock_paths r \<noteq> []"
  by (cases r) (simp_all add: Let_def)

lemma op_path_in_order: "in_order [] (lock_paths r ! (n mod length (lock_paths r)))"
  using lock_paths_nonempty [of r] by (intro lock_paths_in_order [of _ r] nth_mem) simp

lemma op_tasks_start: "order_inv (op_tasks rs) no_queues"
proof -
  have "waiting (op_tasks rs) l = {}" for l
  proof -
    have "waiting (map (\<lambda>(i, r, n). (i, [], lock_paths r ! (n mod length (lock_paths r)))) xs) l = {}" for xs
      by (induction xs) (auto simp: waiting_in_order [OF op_path_in_order])
    then show ?thesis by (simp add: op_tasks_def)
  qed
  moreover have "map fst (op_tasks rs) = [0..<length rs]"
    by (simp add: op_tasks_def comp_def case_prod_unfold flip: map_fst_enumerate [of 0 rs, simplified])
  moreover have "list_all (\<lambda>(i, h, p). in_order (map fst h) (asking p)) (op_tasks rs)"
    by (auto simp: op_tasks_def list_all_iff in_order_asking [OF op_path_in_order] op_path_in_order)
  ultimately show ?thesis by (simp add: order_inv_def)
qed

text \<open>
  C8: the operations on the NFSv4 tables never deadlock, under the fair queues of the locks.  However
  many of them run at once, whichever way each goes and however they have interleaved so far, there is
  a continuation in which all of them finish; and no schedule has more steps than two for each
  lock asked for and one for each given up, so running any task that can run reaches that end.
\<close>

theorem table_operations_finish:
  assumes "schedule lock_step ks (op_tasks rs, no_queues) = Some (ts, m)"
  shows "(\<exists>ls ts' m'. schedule lock_step (ks @ ls) (op_tasks rs, no_queues) = Some (ts', m') \<and> list_all has_finished ts')
    \<and> \<not> deadlocked lock_step has_finished (ts, m)
    \<and> length ks + steps_left ts \<le> steps_left (op_tasks rs)"
proof (intro conjI)
  from lock_tasks.schedule_inv [OF assms op_tasks_start] have inv: "order_inv ts m" .
  from can_finish [OF this] obtain ls ts' m' where "schedule lock_step ls (ts, m) = Some (ts', m')" "list_all has_finished ts'"
    by blast
  with assms show "\<exists>ls ts' m'. schedule lock_step (ks @ ls) (op_tasks rs, no_queues) = Some (ts', m') \<and> list_all has_finished ts'"
    by (intro exI [of _ ls] exI [of _ ts'] exI [of _ m']) (simp add: schedule_append)
  show "\<not> deadlocked lock_step has_finished (ts, m)"
  proof
    assume dead: "deadlocked lock_step has_finished (ts, m)"
    then have "\<not> list_all has_finished ts" by (auto simp: deadlocked_def list_all_iff list_ex_iff)
    from some_task_steps [OF inv this] obtain k where "k < length ts" "lock_step ts (ts ! k) m \<noteq> None"
      by (auto simp: in_set_conv_nth)
    with dead show False by (auto simp: deadlocked_def list_all_iff step_at_def)
  qed
  have "length ks + steps_left ts' \<le> steps_left ts0"
    if "schedule lock_step ks (ts0, m0) = Some (ts', m')" for ks ts0 ts' m0 m'
    using that
  proof (induction ks arbitrary: ts0 m0)
    case (Cons k ks)
    then obtain ts1 m1 where s: "step_at lock_step k (ts0, m0) = Some (ts1, m1)" and r: "schedule lock_step ks (ts1, m1) = Some (ts', m')"
      by (auto simp: Option.bind_eq_Some_conv)
    from Cons.IH [OF r] step_fewer [OF s] show ?case by simp
  qed simp
  from this [OF assms] show "length ks + steps_left ts \<le> steps_left (op_tasks rs)" .
qed

text \<open>
  A SEQUENCE reads the sessions, a CREATE_SESSION waits for them, and the second SEQUENCE, although it
  only reads, waits behind that one.
\<close>

theorem table_operations_finish_witness:
  "\<exists>ts m ls ts' m'. schedule lock_step [0, 1, 2] (op_tasks [(Sequence_op, 1), (Create_session_op, 0), (Sequence_op, 0)], no_queues) = Some (ts, m)
     \<and> m Sessions = [1, 2] \<and> step_at lock_step 2 (ts, m) = None
     \<and> schedule lock_step ([0, 1, 2] @ ls) (op_tasks [(Sequence_op, 1), (Create_session_op, 0), (Sequence_op, 0)], no_queues) = Some (ts', m')
     \<and> list_all has_finished ts'"
proof -
  let ?rs = "[(Sequence_op, 1), (Create_session_op, 0), (Sequence_op, 0)] :: (table_op \<times> nat) list"
  obtain ts m where run: "schedule lock_step [0, 1, 2] (op_tasks ?rs, no_queues) = Some (ts, m)"
    and waits: "m Sessions = [1, 2] \<and> step_at lock_step 2 (ts, m) = None"
    by (simp add: step_at_def op_tasks_def obtainable_def)
  from table_operations_finish [OF run] run waits show ?thesis by blast
qed

end
